(* ===== verification/Scheduler_Prelude.thy ===== *)
theory Scheduler_Prelude
  imports Complex_Main "HOL-Library.AList"
begin

text \<open>
  Shared vocabulary of the development: Python values, the values a Redis key can hold,
  dictionaries as association lists (Python dictionaries keep insertion order), clock
  readings, and the generic lemmas on association lists and stable sorting that the
  components use.

  \<^item> \<open>pyval\<close>: what \<^verbatim>\<open>json.loads\<close> can return and what flows through a DAG context.
  \<^item> \<open>rval\<close>: a byte string stored in Redis, kept by what it encodes: plain text, the
    decimal text of an integer, or the JSON text of a value. JSON encoding followed by
    decoding is the identity on JSON values, so the document itself is stored.
  \<^item> \<open>time\<close>: a reading of \<^verbatim>\<open>time.time()\<close>, in seconds. A clock reading is an argument of
    every operation that takes one.
\<close>

datatype pyval =
    PNone
  | PBool bool
  | PInt int
  | PFloat rat
  | PStr string
  | PList "pyval list"
  | PDict "(string \<times> pyval) list"

datatype rval = RText string | RNum int | RJson pyval

type_synonym time = rat
type_synonym dict = "(string \<times> pyval) list"

named_theorems key_simps \<open>Redis key formats: equalities and inequalities of keys\<close>
named_theorems store_simps \<open>effect of one Redis command on what another one reads\<close>

text \<open>Truth value testing of Python objects.\<close>

fun truthy :: "pyval \<Rightarrow> bool" where
  "truthy PNone = False"
| "truthy (PBool b) = b"
| "truthy (PInt i) = (i \<noteq> 0)"
| "truthy (PFloat q) = (q \<noteq> 0)"
| "truthy (PStr s) = (s \<noteq> [])"
| "truthy (PList xs) = (xs \<noteq> [])"
| "truthy (PDict d) = (d \<noteq> [])"

text \<open>\<^verbatim>\<open>d.get(k, default)\<close>, \<^verbatim>\<open>d[k] = v\<close>, and \<^verbatim>\<open>{**a, **b}\<close>.\<close>

definition dict_get :: "dict \<Rightarrow> string \<Rightarrow> pyval \<Rightarrow> pyval" where
  "dict_get d k dflt = (case map_of d k of None \<Rightarrow> dflt | Some v \<Rightarrow> v)"

definition dict_set :: "dict \<Rightarrow> string \<Rightarrow> pyval \<Rightarrow> dict" where
  "dict_set d k v = AList.update k v d"

definition dict_merge :: "dict \<Rightarrow> dict \<Rightarrow> dict" where
  "dict_merge a b = foldl (\<lambda>d (k, v). dict_set d k v) a b"

text \<open>\<^verbatim>\<open>s.lower()\<close> on ASCII strings, and \<^verbatim>\<open>s.replace(a, b)\<close> for single characters.\<close>

definition py_lower :: "string \<Rightarrow> string" where
  "py_lower s = map (\<lambda>c. let n = of_char c :: nat in if 65 \<le> n \<and> n \<le> 90 then char_of (n + 32) else c) s"

definition replace_char :: "char \<Rightarrow> char \<Rightarrow> string \<Rightarrow> string" where
  "replace_char a b s = map (\<lambda>c. if c = a then b else c) s"

text \<open>\<^verbatim>\<open>int(q)\<close> truncates towards zero.\<close>

definition trunc :: "rat \<Rightarrow> int" where
  "trunc q = (if q \<ge> 0 then \<lfloor>q\<rfloor> else \<lceil>q\<rceil>)"

text \<open>\<^verbatim>\<open>str(n)\<close> of a natural number.\<close>

fun nat_str :: "nat \<Rightarrow> string" where
  "nat_str n = (if n < 10 then [char_of (48 + n)] else nat_str (n div 10) @ [char_of (48 + n mod 10)])"

declare nat_str.simps [simp del]

text \<open>\<^verbatim>\<open>str(v)\<close>; \<open>rp\<close> prints floating-point numbers, lists and dictionaries.\<close>

definition int_str :: "int \<Rightarrow> string" where
  "int_str i = (if i < 0 then CHR ''-'' # nat_str (nat (- i)) else nat_str (nat i))"

fun py_str :: "(pyval \<Rightarrow> string) \<Rightarrow> pyval \<Rightarrow> string" where
  "py_str rp (PStr s) = s"
| "py_str rp (PInt i) = int_str i"
| "py_str rp (PBool b) = (if b then ''True'' else ''False'')"
| "py_str rp PNone = ''None''"
| "py_str rp v = rp v"

text \<open>A value where the code expects a string, or nothing.\<close>

fun str_opt :: "pyval \<Rightarrow> string option" where
  "str_opt (PStr s) = Some s"
| "str_opt _ = None"

fun int_default :: "int \<Rightarrow> pyval \<Rightarrow> int" where
  "int_default d (PInt i) = i"
| "int_default d _ = d"

text \<open>\<^verbatim>\<open>int(t * 1000)\<close> for a clock reading \<open>t\<close> (never negative).\<close>

definition ms :: "time \<Rightarrow> int" where
  "ms t = \<lfloor>t * 1000\<rfloor>"

subsection \<open>Dictionaries\<close>

lemma map_of_dict_set [simp]: "map_of (dict_set d k v) = (map_of d)(k \<mapsto> v)"
  by (simp add: dict_set_def update_conv')

lemma dict_get_set [simp]:
  "dict_get (dict_set d k v) k' dflt = (if k' = k then v else dict_get d k' dflt)"
  by (simp add: dict_get_def)

lemma distinct_dict_set [intro]: "distinct (map fst d) \<Longrightarrow> distinct (map fst (dict_set d k v))"
  by (simp add: dict_set_def distinct_update)

lemma map_of_dict_merge [simp]: "map_of (dict_merge a b) = map_of a ++ map_of (rev b)"
proof (induction b arbitrary: a)
  case Nil
  then show ?case by (simp add: dict_merge_def)
next
  case (Cons kv b)
  obtain k v where kv: "kv = (k, v)" by (cases kv)
  have "map_of (dict_merge a (kv # b)) = map_of (dict_merge (dict_set a k v) b)"
    by (simp add: dict_merge_def kv)
  also have "\<dots> = (map_of a)(k \<mapsto> v) ++ map_of (rev b)"
    by (simp only: Cons.IH map_of_dict_set)
  also have "\<dots> = map_of a ++ map_of (rev (kv # b))"
    by (auto simp: kv map_add_def fun_eq_iff split: option.splits)
  finally show ?case .
qed

subsection \<open>Association lists as Redis buckets\<close>

lemma in_set_update:
  "distinct (map fst al) \<Longrightarrow>
   (x, y) \<in> set (AList.update k v al) \<longleftrightarrow> (if x = k then y = v else (x, y) \<in> set al)"
  by (induction al) (auto simp: image_iff)

lemma in_set_delete: "(x, y) \<in> set (AList.delete k al) \<longleftrightarrow> x \<noteq> k \<and> (x, y) \<in> set al"
  by (auto simp: AList.delete_eq)

lemma fst_set_update [simp]: "fst ` set (AList.update k v al) = insert k (fst ` set al)"
  using dom_update [of k v al] by simp

lemma fst_set_delete [simp]: "fst ` set (AList.delete k al) = fst ` set al - {k}"
  by (auto simp: AList.delete_eq image_iff)

lemma length_update:
  "length (AList.update k v al) = (if k \<in> fst ` set al then length al else Suc (length al))"
  by (induction al) auto

lemma length_delete:
  "distinct (map fst al) \<Longrightarrow>
   length (AList.delete k al) = (if k \<in> fst ` set al then length al - 1 else length al)"
proof (induction al)
  case Nil
  then show ?case by simp
next
  case (Cons p al)
  have id: "k \<notin> fst ` set al \<Longrightarrow> AList.delete k al = al"
    by (induction al) auto
  from Cons show ?case
    by (cases "k \<in> fst ` set al") (auto simp: id dest: length_pos_if_in_set)
qed

subsection \<open>Stable sorting by score\<close>

lemma sorted_map_sort_key: "sorted (map f (sort_key f xs))"
  by (rule sorted_sort_key)

text \<open>
  The first element of a sorted list that satisfies a predicate is minimal among all the
  elements that satisfy it.
\<close>

lemma sorted_find_min:
  assumes "sorted (map f xs)" and "List.find P xs = Some x" and "y \<in> set xs" and "P y"
  shows "f x \<le> f y"
  using assms
proof (induction xs)
  case Nil
  then show ?case by simp
next
  case (Cons a xs)
  then show ?case by (cases "P a") auto
qed

lemma find_Some_in: "List.find P xs = Some x \<Longrightarrow> x \<in> set xs \<and> P x"
  by (induction xs) (auto split: if_splits)

lemma sorted_take_drop_le:
  assumes "sorted (map f xs)" and "x \<in> set (take n xs)" and "y \<in> set (drop n xs)"
  shows "f x \<le> f y"
proof -
  have "sorted (map f (take n xs) @ map f (drop n xs))"
    using assms(1) by (simp flip: map_append)
  then show ?thesis using assms(2,3) by (auto simp: sorted_append)
qed

lemma find_None_all: "List.find P xs = None \<longleftrightarrow> (\<forall>x \<in> set xs. \<not> P x)"
  by (induction xs) auto

lemma length_filter_mono: "(\<And>x. x \<in> set xs \<Longrightarrow> P x \<Longrightarrow> Q x) \<Longrightarrow> length (filter P xs) \<le> length (filter Q xs)"
  by (induction xs) (auto simp: le_SucI)

lemma set_map_filter: "set (List.map_filter f xs) = {y. \<exists>x \<in> set xs. f x = Some y}"
  by (induction xs) (auto simp: List.map_filter_def)

lemma map_filter_distinct:
  assumes "distinct ks" and "\<And>k x. k \<in> set ks \<Longrightarrow> f k = Some x \<Longrightarrow> k = key (g x)"
  shows "distinct (map g (List.map_filter f ks))"
  using assms
proof (induction ks)
  case (Cons k ks)
  have "g x \<notin> g ` set (List.map_filter f ks)" if x: "f k = Some x" for x
  proof
    assume "g x \<in> g ` set (List.map_filter f ks)"
    then obtain k' y where "k' \<in> set ks" "f k' = Some y" "g x = g y" by (auto simp: set_map_filter)
    moreover have "k = key (g x)" by (rule Cons.prems(2) [OF _ x]) simp
    moreover have "k' = key (g y)" by (rule Cons.prems(2)) (use calculation in simp_all)
    ultimately show False using Cons.prems(1) by simp
  qed
  moreover have "distinct (map g (List.map_filter f ks))"
    using Cons.prems by (intro Cons.IH) simp_all
  ultimately show ?case by (simp add: map_filter_simps split: option.splits)
qed (simp add: map_filter_simps)

subsection \<open>Decimal text\<close>

lemma nat_str_value: "foldl (\<lambda>a c. 10 * a + (of_char c - 48)) 0 (nat_str n) = (n :: nat)"
proof (induction n rule: nat_str.induct)
  case (1 n)
  have d: "of_char (char_of (48 + k) :: char) = 48 + k" if "k < 10" for k :: nat
    using that by (simp add: of_char_of take_bit_nat_def)
  show ?case
  proof (cases "n < 10")
    case True
    then show ?thesis by (simp add: nat_str.simps [of n] d)
  next
    case False
    with 1 show ?thesis by (simp add: nat_str.simps [of n] d)
  qed
qed

lemma nat_str_inject [simp]: "nat_str m = nat_str n \<longleftrightarrow> m = n"
  by (metis nat_str_value)

subsection \<open>Clock readings\<close>

lemma ms_le: "t \<le> t' \<Longrightarrow> ms t \<le> ms t'"
  by (simp add: ms_def floor_mono)

lemma ms_nonneg: "0 \<le> t \<Longrightarrow> 0 \<le> ms t"
  by (simp add: ms_def)

end
