(* ===== verification/Redis_Store.thy ===== *)
theory Redis_Store
  imports Scheduler_Prelude
begin

text \<open>
  The data commands of Redis that the scheduler calls, on the state that the repository's
  own in-memory implementation keeps (\<^verbatim>\<open>tests/fake_redis.py\<close>, class
  \<^verbatim>\<open>FullFakeAsyncRedis\<close>): one dictionary per value type and one for expiry times.
  A sorted set is an insertion-ordered dictionary from member to score, and
  \<^verbatim>\<open>zrangebyscore\<close> sorts it stably by score. Only \<^verbatim>\<open>ttl\<close> and \<^verbatim>\<open>expire\<close> follow the Redis
  command reference instead, because the in-memory implementation leaves sorted sets out
  of them. The passing of time is an event of the environment: \<open>evict\<close> removes a key that
  has an expiry time.

  The locale \<open>sorted_set\<close> states the laws the clients rely on (contents after an
  insertion and a removal, and that a range query returns exactly the members in range,
  in score order); it is interpreted on the commands below.
\<close>

record redis =
  lists :: "string \<rightharpoonup> rval list"
  zsets :: "string \<rightharpoonup> (rval \<times> rat) list"
  sets :: "string \<rightharpoonup> string list"
  hashes :: "string \<rightharpoonup> (string \<times> rval) list"
  strs :: "string \<rightharpoonup> rval"
  expiry :: "string \<rightharpoonup> int"

definition empty_redis :: redis where
  "empty_redis = \<lparr>lists = Map.empty, zsets = Map.empty, sets = Map.empty,
     hashes = Map.empty, strs = Map.empty, expiry = Map.empty\<rparr>"

text \<open>\<^verbatim>\<open>store.get(key, {})\<close> for each type of value.\<close>

definition zbucket :: "redis \<Rightarrow> string \<Rightarrow> (rval \<times> rat) list" where
  "zbucket r k = (case zsets r k of None \<Rightarrow> [] | Some b \<Rightarrow> b)"

definition hbucket :: "redis \<Rightarrow> string \<Rightarrow> (string \<times> rval) list" where
  "hbucket r k = (case hashes r k of None \<Rightarrow> [] | Some b \<Rightarrow> b)"

definition smembers :: "redis \<Rightarrow> string \<Rightarrow> string list" where
  "smembers r k = (case sets r k of None \<Rightarrow> [] | Some b \<Rightarrow> b)"

definition lbucket :: "redis \<Rightarrow> string \<Rightarrow> rval list" where
  "lbucket r k = (case lists r k of None \<Rightarrow> [] | Some b \<Rightarrow> b)"

subsection \<open>Lists\<close>

definition rpush :: "redis \<Rightarrow> string \<Rightarrow> rval \<Rightarrow> redis" where
  "rpush r k v = r\<lparr>lists := (lists r)(k \<mapsto> lbucket r k @ [v])\<rparr>"

definition lpush :: "redis \<Rightarrow> string \<Rightarrow> rval \<Rightarrow> redis" where
  "lpush r k v = r\<lparr>lists := (lists r)(k \<mapsto> v # lbucket r k)\<rparr>"

text \<open>\<^verbatim>\<open>lindex(key, 0)\<close>.\<close>

definition lhead :: "redis \<Rightarrow> string \<Rightarrow> rval option" where
  "lhead r k = (case lbucket r k of [] \<Rightarrow> None | v # _ \<Rightarrow> Some v)"

definition lpop :: "redis \<Rightarrow> string \<Rightarrow> rval option \<times> redis" where
  "lpop r k = (case lbucket r k of
      [] \<Rightarrow> (None, r)
    | v # vs \<Rightarrow> (Some v, r\<lparr>lists := (lists r)(k \<mapsto> vs)\<rparr>))"

subsection \<open>Sorted sets\<close>

definition zadd :: "redis \<Rightarrow> string \<Rightarrow> rval \<Rightarrow> rat \<Rightarrow> redis" where
  "zadd r k m s = r\<lparr>zsets := (zsets r)(k \<mapsto> AList.update m s (zbucket r k))\<rparr>"

datatype bound = NegInf | PosInf | Score rat

fun ge_bound :: "rat \<Rightarrow> bound \<Rightarrow> bool" where
  "ge_bound s NegInf = True"
| "ge_bound s PosInf = False"
| "ge_bound s (Score q) = (q \<le> s)"

fun le_bound :: "rat \<Rightarrow> bound \<Rightarrow> bool" where
  "le_bound s NegInf = False"
| "le_bound s PosInf = True"
| "le_bound s (Score q) = (s \<le> q)"

definition zrangebyscore :: "redis \<Rightarrow> string \<Rightarrow> bound \<Rightarrow> bound \<Rightarrow> (rval \<times> rat) list" where
  "zrangebyscore r k lo hi =
     sort_key snd (filter (\<lambda>(m, s). ge_bound s lo \<and> le_bound s hi) (zbucket r k))"

definition zrem :: "redis \<Rightarrow> string \<Rightarrow> rval \<Rightarrow> redis" where
  "zrem r k m = (case zsets r k of None \<Rightarrow> r
     | Some b \<Rightarrow> r\<lparr>zsets := (zsets r)(k \<mapsto> AList.delete m b)\<rparr>)"

text \<open>\<^verbatim>\<open>zremrangebyscore\<close>, and \<^verbatim>\<open>zrange(key, 0, 0, withscores=True)\<close>.\<close>

definition zremrangebyscore :: "redis \<Rightarrow> string \<Rightarrow> bound \<Rightarrow> bound \<Rightarrow> redis" where
  "zremrangebyscore r k lo hi = (case zsets r k of None \<Rightarrow> r
     | Some b \<Rightarrow> r\<lparr>zsets := (zsets r)(k \<mapsto> filter (\<lambda>(m, s). \<not> (ge_bound s lo \<and> le_bound s hi)) b)\<rparr>)"

definition zfirst :: "redis \<Rightarrow> string \<Rightarrow> (rval \<times> rat) option" where
  "zfirst r k = (case zrangebyscore r k NegInf PosInf of [] \<Rightarrow> None | e # _ \<Rightarrow> Some e)"

definition zscore :: "redis \<Rightarrow> string \<Rightarrow> rval \<Rightarrow> rat option" where
  "zscore r k m = map_of (zbucket r k) m"

text \<open>The reply of \<^verbatim>\<open>ZREM\<close>: whether the member was there.\<close>

definition zrem_reply :: "redis \<Rightarrow> string \<Rightarrow> rval \<Rightarrow> int" where
  "zrem_reply r k m = (if zscore r k m \<noteq> None then 1 else 0)"

definition zcard :: "redis \<Rightarrow> string \<Rightarrow> nat" where
  "zcard r k = length (zbucket r k)"

subsection \<open>Sets\<close>

definition sadd :: "redis \<Rightarrow> string \<Rightarrow> string \<Rightarrow> redis" where
  "sadd r k m = r\<lparr>sets := (sets r)(k \<mapsto> List.insert m (smembers r k))\<rparr>"

definition srem :: "redis \<Rightarrow> string \<Rightarrow> string \<Rightarrow> redis" where
  "srem r k m = (if m \<in> set (smembers r k)
     then r\<lparr>sets := (sets r)(k \<mapsto> removeAll m (smembers r k))\<rparr> else r)"

subsection \<open>Hashes\<close>

definition hset :: "redis \<Rightarrow> string \<Rightarrow> string \<Rightarrow> rval \<Rightarrow> redis" where
  "hset r k f v = r\<lparr>hashes := (hashes r)(k \<mapsto> AList.update f v (hbucket r k))\<rparr>"

definition hget :: "redis \<Rightarrow> string \<Rightarrow> string \<Rightarrow> rval option" where
  "hget r k f = map_of (hbucket r k) f"

definition hdel :: "redis \<Rightarrow> string \<Rightarrow> string \<Rightarrow> redis" where
  "hdel r k f = (case hashes r k of None \<Rightarrow> r
     | Some b \<Rightarrow> if map_of b f = None then r
                 else r\<lparr>hashes := (hashes r)(k \<mapsto> AList.delete f b)\<rparr>)"

text \<open>\<^verbatim>\<open>int(text)\<close>, defined on the decimal text of an integer.\<close>

fun num_of :: "rval \<Rightarrow> int option" where
  "num_of (RNum i) = Some i"
| "num_of _ = None"

definition hincrby :: "redis \<Rightarrow> string \<Rightarrow> string \<Rightarrow> int \<Rightarrow> redis" where
  "hincrby r k f n =
     (let current = (case hget r k f of None \<Rightarrow> 0
                     | Some v \<Rightarrow> (case num_of v of None \<Rightarrow> 0 | Some i \<Rightarrow> i))
      in hset r k f (RNum (current + n)))"

subsection \<open>Strings, expiry, keys\<close>

definition get :: "redis \<Rightarrow> string \<Rightarrow> rval option" where
  "get r k = strs r k"

text \<open>\<^verbatim>\<open>set(key, value, ex=...)\<close> and \<^verbatim>\<open>set(key, value, nx=True, ex=...)\<close> with its reply.\<close>

definition set_ex :: "redis \<Rightarrow> string \<Rightarrow> rval \<Rightarrow> int option \<Rightarrow> redis" where
  "set_ex r k v ex = r\<lparr>strs := (strs r)(k \<mapsto> v),
     expiry := (case ex of None \<Rightarrow> expiry r | Some n \<Rightarrow> (expiry r)(k \<mapsto> n))\<rparr>"

definition set_nx :: "redis \<Rightarrow> string \<Rightarrow> rval \<Rightarrow> int option \<Rightarrow> bool \<times> redis" where
  "set_nx r k v ex = (if strs r k \<noteq> None then (False, r) else (True, set_ex r k v ex))"

definition exists :: "redis \<Rightarrow> string \<Rightarrow> bool" where
  "exists r k \<longleftrightarrow> lists r k \<noteq> None \<or> zsets r k \<noteq> None \<or> sets r k \<noteq> None
     \<or> hashes r k \<noteq> None \<or> strs r k \<noteq> None"

definition delete_key :: "redis \<Rightarrow> string \<Rightarrow> redis" where
  "delete_key r k = r\<lparr>lists := (lists r)(k := None), zsets := (zsets r)(k := None),
     sets := (sets r)(k := None), hashes := (hashes r)(k := None), strs := (strs r)(k := None)\<rparr>"

definition incrby :: "redis \<Rightarrow> string \<Rightarrow> int \<Rightarrow> int \<times> redis" where
  "incrby r k n =
     (let current = (case strs r k of None \<Rightarrow> 0
                     | Some v \<Rightarrow> (case num_of v of None \<Rightarrow> 0 | Some i \<Rightarrow> i))
      in (current + n, r\<lparr>strs := (strs r)(k \<mapsto> RNum (current + n))\<rparr>))"

definition ttl :: "redis \<Rightarrow> string \<Rightarrow> int" where
  "ttl r k = (if \<not> exists r k then -2 else case expiry r k of None \<Rightarrow> -1 | Some n \<Rightarrow> n)"

definition expire :: "redis \<Rightarrow> string \<Rightarrow> int \<Rightarrow> redis" where
  "expire r k n = (if exists r k then r\<lparr>expiry := (expiry r)(k \<mapsto> n)\<rparr> else r)"

text \<open>The environment: a key whose expiry time has come is removed.\<close>

definition evict :: "redis \<Rightarrow> string \<Rightarrow> redis" where
  "evict r k = (delete_key r k)\<lparr>expiry := (expiry r)(k := None)\<rparr>"

subsection \<open>What each command changes\<close>

lemma zbucket_upd [store_simps]:
  "zbucket (zadd r k m s) k' = (if k' = k then AList.update m s (zbucket r k) else zbucket r k')"
  "zbucket (zrem r k m) k' = (if k' = k then AList.delete m (zbucket r k) else zbucket r k')"
  "zbucket (zremrangebyscore r k lo hi) k' =
     (if k' = k then filter (\<lambda>(m, s). \<not> (ge_bound s lo \<and> le_bound s hi)) (zbucket r k) else zbucket r k')"
  "zbucket (lpush r k v) k' = zbucket r k'"
  "zbucket (sadd r k a) k' = zbucket r k'"
  "zbucket (srem r k a) k' = zbucket r k'"
  "zbucket (hset r k f v) k' = zbucket r k'"
  "zbucket (hdel r k f) k' = zbucket r k'"
  "zbucket (hincrby r k f n) k' = zbucket r k'"
  "zbucket (set_ex r k v ex) k' = zbucket r k'"
  "zbucket (snd (set_nx r k v ex)) k' = zbucket r k'"
  "zbucket (snd (incrby r k n)) k' = zbucket r k'"
  "zbucket (expire r k n) k' = zbucket r k'"
  "zbucket (delete_key r k) k' = (if k' = k then [] else zbucket r k')"
  "zbucket (evict r k) k' = (if k' = k then [] else zbucket r k')"
  "zbucket (rpush r k v) k' = zbucket r k'"
  "zbucket (snd (lpop r k)) k' = zbucket r k'"
  by (auto simp: zbucket_def zadd_def zrem_def zremrangebyscore_def lpush_def sadd_def srem_def hset_def hdel_def hincrby_def
      set_ex_def set_nx_def incrby_def expire_def delete_key_def evict_def rpush_def lpop_def Let_def
      split: option.splits list.splits)

lemma hbucket_upd [store_simps]:
  "hbucket (hset r k f v) k' = (if k' = k then AList.update f v (hbucket r k) else hbucket r k')"
  "hbucket (zadd r k m s) k' = hbucket r k'"
  "hbucket (zrem r k m) k' = hbucket r k'"
  "hbucket (sadd r k a) k' = hbucket r k'"
  "hbucket (srem r k a) k' = hbucket r k'"
  "hbucket (set_ex r k v ex) k' = hbucket r k'"
  "hbucket (snd (set_nx r k v ex)) k' = hbucket r k'"
  "hbucket (snd (incrby r k n)) k' = hbucket r k'"
  "hbucket (expire r k n) k' = hbucket r k'"
  "hbucket (delete_key r k) k' = (if k' = k then [] else hbucket r k')"
  "hbucket (evict r k) k' = (if k' = k then [] else hbucket r k')"
  by (auto simp: hbucket_def zadd_def zrem_def sadd_def srem_def hset_def
      set_ex_def set_nx_def incrby_def expire_def delete_key_def evict_def Let_def
      split: option.splits)

lemma smembers_upd [store_simps]:
  "smembers (sadd r k a) k' = (if k' = k then List.insert a (smembers r k) else smembers r k')"
  "smembers (srem r k a) k' = (if k' = k then removeAll a (smembers r k) else smembers r k')"
  "smembers (zadd r k m s) k' = smembers r k'"
  "smembers (zrem r k m) k' = smembers r k'"
  "smembers (hset r k f v) k' = smembers r k'"
  "smembers (hincrby r k f n) k' = smembers r k'"
  "smembers (set_ex r k v ex) k' = smembers r k'"
  "smembers (expire r k n) k' = smembers r k'"
  "smembers (delete_key r k) k' = (if k' = k then [] else smembers r k')"
  by (auto simp: smembers_def zadd_def zrem_def sadd_def srem_def hset_def hincrby_def
      set_ex_def expire_def delete_key_def Let_def removeAll_id split: option.splits)

lemma get_upd [store_simps]:
  "get (set_ex r k v ex) k' = (if k' = k then Some v else get r k')"
  "get (snd (set_nx r k v ex)) k' = (if k' = k \<and> get r k = None then Some v else get r k')"
  "get (snd (incrby r k n)) k' = (if k' = k then Some (RNum (fst (incrby r k n))) else get r k')"
  "get (zadd r k m s) k' = get r k'"
  "get (zrem r k m) k' = get r k'"
  "get (sadd r k a) k' = get r k'"
  "get (srem r k a) k' = get r k'"
  "get (hset r k f v) k' = get r k'"
  "get (hincrby r k f n) k' = get r k'"
  "get (expire r k n) k' = get r k'"
  "get (delete_key r k) k' = (if k' = k then None else get r k')"
  "get (evict r k) k' = (if k' = k then None else get r k')"
  by (auto simp: get_def zadd_def zrem_def sadd_def srem_def hset_def hincrby_def
      set_ex_def set_nx_def incrby_def expire_def delete_key_def evict_def Let_def
      split: option.splits)

lemma hget_upd [store_simps]:
  "hget (hset r k f v) k' f' = (if k' = k \<and> f' = f then Some v else hget r k' f')"
  "hget (zadd r k m s) k' f' = hget r k' f'"
  "hget (zrem r k m) k' f' = hget r k' f'"
  "hget (sadd r k a) k' f' = hget r k' f'"
  "hget (set_ex r k v ex) k' f' = hget r k' f'"
  "hget (expire r k n) k' f' = hget r k' f'"
  by (auto simp: hget_def store_simps update_conv')

lemma hget_hincrby [store_simps]:
  "hget (hincrby r k g n) k' f' =
     (if k' = k \<and> f' = g
      then Some (RNum ((case hget r k g of None \<Rightarrow> 0
                        | Some v \<Rightarrow> (case num_of v of None \<Rightarrow> 0 | Some i \<Rightarrow> i)) + n))
      else hget r k' f')"
  by (simp add: hincrby_def store_simps Let_def)

lemma zcard_upd [store_simps]:
  "zcard (hset r k f v) k' = zcard r k'"
  "zcard (hincrby r k f n) k' = zcard r k'"
  "zcard (sadd r k a) k' = zcard r k'"
  "zcard (set_ex r k v ex) k' = zcard r k'"
  "zcard (expire r k n) k' = zcard r k'"
  "k' \<noteq> k \<Longrightarrow> zcard (zadd r k m s) k' = zcard r k'"
  "k' \<noteq> k \<Longrightarrow> zcard (zrem r k m) k' = zcard r k'"
  by (simp_all add: zcard_def store_simps)

lemma lbucket_upd [store_simps]:
  "lbucket (lpush r k v) k' = (if k' = k then v # lbucket r k else lbucket r k')"
  "lbucket (rpush r k v) k' = (if k' = k then lbucket r k @ [v] else lbucket r k')"
  "lbucket (snd (lpop r k)) k' = (if k' = k then tl (lbucket r k) else lbucket r k')"
  "lbucket (expire r k n) k' = lbucket r k'"
  by (auto simp: lbucket_def lpush_def rpush_def lpop_def expire_def split: option.splits list.splits)

text \<open>Every bucket is a dictionary: its members are distinct.\<close>

definition wf_redis :: "redis \<Rightarrow> bool" where
  "wf_redis r \<longleftrightarrow> (\<forall>k. distinct (map fst (zbucket r k))) \<and> (\<forall>k. distinct (map fst (hbucket r k)))
     \<and> (\<forall>k. distinct (smembers r k))"

lemma wf_empty_redis: "wf_redis empty_redis"
  by (simp add: wf_redis_def empty_redis_def zbucket_def hbucket_def smembers_def)

lemma wf_redis_upd [store_simps, intro]:
  assumes "wf_redis r"
  shows "wf_redis (zadd r k m s)" "wf_redis (zrem r k m)" "wf_redis (hset r k f v)"
    "wf_redis (sadd r k a)" "wf_redis (srem r k a)" "wf_redis (set_ex r k v ex)"
    "wf_redis (expire r k n)" "wf_redis (delete_key r k)" "wf_redis (hincrby r k f n)"
  using assms
  by (auto simp: wf_redis_def store_simps distinct_update distinct_delete hincrby_def
      distinct_removeAll Let_def)

lemma wf_redis_strs [store_simps, intro]:
  assumes "wf_redis r"
  shows "wf_redis (snd (incrby r k n))" "wf_redis (snd (set_nx r k v ex))"
  using assms
  by (simp_all add: wf_redis_def incrby_def set_nx_def set_ex_def zbucket_def hbucket_def
      smembers_def Let_def)

definition zmembers :: "redis \<Rightarrow> string \<Rightarrow> rval set" where
  "zmembers r k = fst ` set (zbucket r k)"

lemma zscore_iff_zmembers: "zscore r k m \<noteq> None \<longleftrightarrow> m \<in> zmembers r k"
  by (simp add: zscore_def zmembers_def map_of_eq_None_iff)

lemma zscore_upd [store_simps]:
  "zscore (zadd r k m s) k' m' = (if k' = k \<and> m' = m then Some s else zscore r k' m')"
  "zscore (zrem r k m) k' m' = (if k' = k \<and> m' = m then None else zscore r k' m')"
  "zscore (hset r k f v) k' m' = zscore r k' m'"
  "zscore (hincrby r k f n) k' m' = zscore r k' m'"
  "zscore (sadd r k a) k' m' = zscore r k' m'"
  "zscore (set_ex r k v ex) k' m' = zscore r k' m'"
  "zscore (expire r k n) k' m' = zscore r k' m'"
  by (auto simp: zscore_def store_simps update_conv' delete_conv')

lemma zcard_zadd:
  "zcard (zadd r k m s) k = (if m \<in> zmembers r k then zcard r k else Suc (zcard r k))"
  by (simp add: zcard_def zmembers_def store_simps length_update)

lemma zcard_zrem:
  "wf_redis r \<Longrightarrow> zcard (zrem r k m) k = (if m \<in> zmembers r k then zcard r k - 1 else zcard r k)"
  by (simp add: zcard_def zmembers_def store_simps length_delete wf_redis_def)

lemma zmembers_upd [store_simps]:
  "zmembers (zadd r k m s) k' = (if k' = k then insert m (zmembers r k) else zmembers r k')"
  "zmembers (zrem r k m) k' = (if k' = k then zmembers r k - {m} else zmembers r k')"
  "zmembers (hset r k f v) k' = zmembers r k'"
  "zmembers (hincrby r k f n) k' = zmembers r k'"
  "zmembers (sadd r k a) k' = zmembers r k'"
  "zmembers (set_ex r k v ex) k' = zmembers r k'"
  "zmembers (expire r k n) k' = zmembers r k'"
  by (simp_all add: zmembers_def store_simps)

lemma in_zrangebyscore:
  "wf_redis r \<Longrightarrow> (m, s) \<in> set (zrangebyscore r k lo hi) \<longleftrightarrow>
     zscore r k m = Some s \<and> ge_bound s lo \<and> le_bound s hi"
  by (auto simp: zrangebyscore_def zscore_def wf_redis_def)

lemma sorted_zrangebyscore: "sorted (map snd (zrangebyscore r k lo hi))"
  by (simp add: zrangebyscore_def)

lemma zrangebyscore_distinct: "wf_redis r \<Longrightarrow> distinct (map fst (zrangebyscore r k lo hi))"
proof -
  assume "wf_redis r"
  then have "distinct (map fst (filter (\<lambda>(m, s). ge_bound s lo \<and> le_bound s hi) (zbucket r k)))"
    by (intro distinct_map_filter) (simp add: wf_redis_def)
  then show ?thesis by (simp only: zrangebyscore_def distinct_map distinct_sort set_sort)
qed

lemma length_zrangebyscore_le: "length (zrangebyscore r k lo hi) \<le> zcard r k"
  by (simp add: zrangebyscore_def zcard_def)

subsection \<open>The sorted-set interface\<close>

text \<open>
  What the queue code relies on: the score of a member after an insertion or a removal,
  and a range query that returns exactly the members, in score order. \<open>scan_hit\<close> and
  \<open>scan_miss\<close> are the two facts a bounded scan of the range gives.
\<close>

locale sorted_set =
  fixes score :: "'r \<Rightarrow> string \<Rightarrow> rval \<Rightarrow> rat option"
    and add :: "'r \<Rightarrow> string \<Rightarrow> rval \<Rightarrow> rat \<Rightarrow> 'r"
    and rem :: "'r \<Rightarrow> string \<Rightarrow> rval \<Rightarrow> 'r"
    and range :: "'r \<Rightarrow> string \<Rightarrow> (rval \<times> rat) list"
    and invar :: "'r \<Rightarrow> bool"
  assumes score_add: "score (add r k m s) k' m' = (if k' = k \<and> m' = m then Some s else score r k' m')"
    and score_rem: "score (rem r k m) k' m' = (if k' = k \<and> m' = m then None else score r k' m')"
    and range_iff: "invar r \<Longrightarrow> (m, s) \<in> set (range r k) \<longleftrightarrow> score r k m = Some s"
    and range_sorted: "sorted (map snd (range r k))"
    and invar_add: "invar r \<Longrightarrow> invar (add r k m s)"
    and invar_rem: "invar r \<Longrightarrow> invar (rem r k m)"
begin

lemma scan_hit:
  assumes "invar r" and hit: "List.find P (take n (range r k)) = Some (m, s)"
  shows "score r k m = Some s" and "P (m, s)"
    and "score r k m' = Some s' \<Longrightarrow> P (m', s') \<Longrightarrow> s \<le> s'"
proof -
  have m: "(m, s) \<in> set (take n (range r k))" "P (m, s)"
    using find_Some_in [OF hit] by auto
  then show "score r k m = Some s" "P (m, s)"
    using range_iff [OF assms(1)] in_set_takeD by fastforce+
  assume "score r k m' = Some s'" and P': "P (m', s')"
  then have "(m', s') \<in> set (range r k)"
    by (simp add: range_iff [OF assms(1)])
  then consider "(m', s') \<in> set (take n (range r k))" | "(m', s') \<in> set (drop n (range r k))"
    by (metis Un_iff append_take_drop_id set_append)
  then show "s \<le> s'"
  proof cases
    case 1
    have "sorted (map snd (take n (range r k)))"
      using range_sorted by (metis sorted_wrt_take take_map)
    from sorted_find_min [OF this hit 1 P'] show ?thesis by simp
  next
    case 2
    from sorted_take_drop_le [OF range_sorted m(1) 2] show ?thesis by simp
  qed
qed

lemma scan_miss:
  assumes "invar r" and "List.find P (take n (range r k)) = None"
    and "score r k m = Some s" and "P (m, s)"
  shows "(m, s) \<in> set (drop n (range r k))"
proof -
  have "(m, s) \<in> set (range r k)"
    using assms by (simp add: range_iff)
  moreover have "(m, s) \<notin> set (take n (range r k))"
    using assms(2,4) by (auto simp: find_None_all)
  ultimately show ?thesis
    by (metis Un_iff append_take_drop_id set_append)
qed

lemma move_score:
  "k \<noteq> k' \<Longrightarrow> score (add (rem r k m) k' m s) k'' m' =
     (if m' = m \<and> k'' = k then None else if m' = m \<and> k'' = k' then Some s else score r k'' m')"
  by (simp add: score_add score_rem)

end

interpretation zs: sorted_set zscore zadd zrem "\<lambda>r k. zrangebyscore r k NegInf PosInf" wf_redis
  by unfold_locales (auto simp: store_simps in_zrangebyscore sorted_zrangebyscore)

end
