(* ===== verification/Dag_Model.thy ===== *)
theory Dag_Model
  imports Redis_Store
begin

text \<open>
  The domain models of a DAG (\<^verbatim>\<open>src/models/dag.py\<close>): enumerations, per-step
  configuration, step and DAG definitions and the execution context, field by field
  (\<open>ctx_vars\<close> is the field \<^verbatim>\<open>context\<close>).
\<close>

datatype ExecutionMode = SYNC | ASYNC | FLASK_WRAPPED

datatype OnFailureAction = ABORT | SKIP | FALLBACK

datatype MapErrorPolicy = ABORT_ALL | CONTINUE

datatype StepKind = TASK | DISPATCH | COLLECTOR | MAP | STREAMING

datatype DagStatus = DAG_PENDING | DAG_RUNNING | DAG_COMPLETED | DAG_FAILED | DAG_CANCELLED

record RetryPolicy =
  max_retries :: int
  retry_delay_seconds :: rat

record CheckpointConfig =
  cp_enabled :: bool
  interval_steps :: int
  storage_path :: string

record QueueStepConfig =
  qc_max_queue_depth :: int
  qc_max_concurrent :: int
  qps_limit :: "rat option"

text \<open>A fallback result is a dictionary of strings; it is used as a step result.\<close>

record FallbackConfig =
  fb_output_mapping :: "(string \<times> string) list"

record StreamingTrigger =
  buffer_key :: string
  trigger_condition :: string
  flush_on_complete :: bool
  downstream_steps :: "string list"

record DagStep =
  step_name :: string
  capability :: string
  step_kind :: StepKind
  depends_on :: "string list"
  collect_from :: "string list"
  execution_mode :: ExecutionMode
  timeout_seconds :: int
  retry_policy :: RetryPolicy
  input_mapping :: "(string \<times> string) list"
  output_mapping :: "(string \<times> string) list"
  artifact_output_fields :: "(string \<times> string) list"
  condition :: "string option"
  on_failure :: OnFailureAction
  fallback :: "FallbackConfig option"
  checkpoint :: "CheckpointConfig option"
  polling :: "rat option"
  flask :: "string option"
  queue_config :: "QueueStepConfig option"
  map_over :: "string option"
  max_concurrency :: nat
  map_error_policy :: MapErrorPolicy
  streaming_trigger :: "StreamingTrigger option"

record DagDefinition =
  dag_id :: string
  dag_tenant_id :: string
  dag_name :: string
  version :: string
  dag_timeout_seconds :: int
  enabled :: bool
  steps :: "DagStep list"
  dag_max_queue_depth :: "int option"
  dag_max_concurrent :: "int option"

record DagContext =
  schema_version :: int
  ctx_task_id :: string
  ctx_dag_id :: string
  ctx_tenant_id :: string
  input_data :: dict
  metadata :: dict
  ctx_vars :: dict
  step_results :: dict
  completed_steps :: "string list"
  status :: DagStatus

text \<open>A step with the defaults of the model.\<close>

definition new_DagStep :: "string \<Rightarrow> string \<Rightarrow> DagStep" where
  "new_DagStep name cap = \<lparr>step_name = name, capability = cap, step_kind = TASK, depends_on = [],
     collect_from = [], execution_mode = SYNC, timeout_seconds = 60,
     retry_policy = \<lparr>max_retries = 0, retry_delay_seconds = 1\<rparr>, input_mapping = [],
     output_mapping = [], artifact_output_fields = [], condition = None, on_failure = ABORT,
     fallback = None, checkpoint = None, polling = None, flask = None, queue_config = None,
     map_over = None, max_concurrency = 0, map_error_policy = ABORT_ALL,
     streaming_trigger = None\<rparr>"

definition new_DagDefinition :: "string \<Rightarrow> DagStep list \<Rightarrow> DagDefinition" where
  "new_DagDefinition i ss = \<lparr>dag_id = i, dag_tenant_id = [], dag_name = [], version = ''1.0'',
     dag_timeout_seconds = 3600, enabled = True, steps = ss, dag_max_queue_depth = None,
     dag_max_concurrent = None\<rparr>"

end
