(* ===== verification/Dag_Topology.thy ===== *)
theory Dag_Topology
  imports Dag_Model
begin

text \<open>
  \<^verbatim>\<open>DagEngine._topo_sort\<close>: Kahn's algorithm, one list of step names per wave. The two
  dictionaries are association lists; \<open>relax\<close> is the body of the innermost loop and
  \<open>topo_loop\<close> the \<^verbatim>\<open>while queue\<close> loop, which terminates because an in-degree reaches
  zero at most once.

  The result is characterised without any assumption on the graph but distinct step names:
  the waves hold exactly the steps that are \<open>runnable\<close> (all their dependencies, and the
  dependencies of these, are steps of the DAG and on no cycle), each once, and every step
  comes in the first wave after all its dependencies.
\<close>

definition init_degree :: "DagStep list \<Rightarrow> (string \<times> int) list" where
  "init_degree ss = foldl (\<lambda>d s. AList.update (step_name s) (int (length (depends_on s))) d) [] ss"

text \<open>\<^verbatim>\<open>adj\<close>: every step name first gets an empty list, then one entry per dependency.\<close>

definition add_edge :: "string \<Rightarrow> (string \<times> string list) list \<Rightarrow> string \<Rightarrow> (string \<times> string list) list" where
  "add_edge name adj dep = (case map_of adj dep of None \<Rightarrow> adj
     | Some ns \<Rightarrow> AList.update dep (ns @ [name]) adj)"

definition build_adj :: "DagStep list \<Rightarrow> (string \<times> string list) list" where
  "build_adj ss = foldl (\<lambda>adj s. foldl (add_edge (step_name s)) adj (depends_on s))
     (foldl (\<lambda>d s. AList.update (step_name s) [] d) [] ss) ss"

text \<open>
  In-degrees are \<open>int\<close>: with repeated step names the code can take one below zero, and it
  tests for equality with zero.
\<close>

definition relax :: "(string \<times> int) list \<times> string list \<Rightarrow> string \<Rightarrow> (string \<times> int) list \<times> string list" where
  "relax st nbr = (case map_of (fst st) nbr of None \<Rightarrow> st
     | Some d \<Rightarrow> (AList.update nbr (d - 1) (fst st), if d - 1 = 0 then snd st @ [nbr] else snd st))"

definition neighbours :: "(string \<times> string list) list \<Rightarrow> string \<Rightarrow> string list" where
  "neighbours adj sn = (case map_of adj sn of None \<Rightarrow> [] | Some ns \<Rightarrow> ns)"

definition next_wave ::
  "(string \<times> string list) list \<Rightarrow> string list \<Rightarrow> (string \<times> int) list \<Rightarrow> (string \<times> int) list \<times> string list" where
  "next_wave adj queue deg = foldl (\<lambda>st sn. foldl relax st (neighbours adj sn)) (deg, []) queue"

subsection \<open>One wave\<close>

definition positives :: "(string \<times> int) list \<Rightarrow> string set" where
  "positives deg = {n. \<exists>d. map_of deg n = Some d \<and> 0 < d}"

lemma finite_positives [simp]: "finite (positives deg)"
  by (rule finite_subset [OF _ finite_dom_map_of [of deg]]) (auto simp: positives_def)

lemma relax_cases:
  "map_of deg x = None \<Longrightarrow> relax (deg, nq) x = (deg, nq)"
  "map_of deg x = Some d \<Longrightarrow>
     relax (deg, nq) x = (AList.update x (d - 1) deg, if d - 1 = 0 then nq @ [x] else nq)"
  by (simp_all add: relax_def)

lemma relax_fold:
  "foldl relax (deg, nq) l = (deg', nq') \<Longrightarrow>
     map_of deg' n = map_option (\<lambda>d. d - int (count_list l n)) (map_of deg n) \<and>
     (\<exists>new. nq' = nq @ new \<and> distinct new \<and>
        set new = {n. \<exists>d. map_of deg n = Some d \<and> 0 < d \<and> d \<le> int (count_list l n)})"
proof (induction l arbitrary: deg nq)
  case Nil
  then show ?case by (auto simp: option.map_ident)
next
  case (Cons x l)
  show ?case
  proof (cases "map_of deg x")
    case None
    then have "foldl relax (deg, nq) l = (deg', nq')"
      using Cons.prems by (simp add: relax_cases)
    from Cons.IH [OF this] show ?thesis
      using None by (auto split: if_splits)
  next
    case (Some d)
    let ?deg = "AList.update x (d - 1) deg"
    let ?nq = "if d - 1 = 0 then nq @ [x] else nq"
    have "foldl relax (?deg, ?nq) l = (deg', nq')"
      using Cons.prems Some by (simp only: foldl.simps relax_cases)
    note IH = Cons.IH [OF this]
    then obtain new where new: "nq' = ?nq @ new" "distinct new"
      "set new = {n. \<exists>d. map_of ?deg n = Some d \<and> 0 < d \<and> d \<le> int (count_list l n)}" by blast
    have deg': "map_of deg' n = map_option (\<lambda>d. d - int (count_list (x # l) n)) (map_of deg n)"
      using IH Some by (auto simp: update_conv')
    have "\<exists>new. nq' = nq @ new \<and> distinct new \<and>
        set new = {n. \<exists>d. map_of deg n = Some d \<and> 0 < d \<and> d \<le> int (count_list (x # l) n)}"
    proof (cases "d = 1")
      case True
      then show ?thesis
        using new Some by (intro exI [of _ "x # new"]) (auto simp: update_conv' split: if_splits)
    next
      case False
      have "(\<exists>d. map_of ?deg n = Some d \<and> 0 < d \<and> d \<le> int (count_list l n)) \<longleftrightarrow>
          (\<exists>d. map_of deg n = Some d \<and> 0 < d \<and> d \<le> int (count_list (x # l) n))" for n
        using False Some by (cases "n = x") (auto simp: update_conv')
      then have "set new = {n. \<exists>d. map_of deg n = Some d \<and> 0 < d \<and> d \<le> int (count_list (x # l) n)}"
        unfolding new(3) by blast
      with False new(1,2) show ?thesis by simp
    qed
    with deg' show ?thesis by blast
  qed
qed

lemma next_wave_flat: "next_wave adj queue deg = foldl relax (deg, []) (concat (map (neighbours adj) queue))"
proof -
  have "foldl (\<lambda>st sn. foldl relax st (neighbours adj sn)) st queue =
      foldl relax st (concat (map (neighbours adj) queue))" for st
    by (induction queue arbitrary: st) auto
  then show ?thesis by (simp add: next_wave_def)
qed

lemma next_wave_positives:
  assumes "next_wave adj queue deg = (deg', nq)"
  shows "positives deg' \<subseteq> positives deg" and "nq \<noteq> [] \<Longrightarrow> positives deg' \<subset> positives deg"
proof -
  note fold = relax_fold [OF assms [unfolded next_wave_flat]]
  show sub: "positives deg' \<subseteq> positives deg"
    by (auto simp: positives_def fold [THEN conjunct1])
  assume "nq \<noteq> []"
  then obtain n where "n \<in> set nq" by (cases nq) auto
  with fold [THEN conjunct2] obtain d where "map_of deg n = Some d" "0 < d"
    "d \<le> int (count_list (concat (map (neighbours adj) queue)) n)" by auto
  then have "n \<in> positives deg" "n \<notin> positives deg'"
    by (auto simp: positives_def fold [THEN conjunct1])
  with sub show "positives deg' \<subset> positives deg" by blast
qed

function topo_loop :: "(string \<times> string list) list \<Rightarrow> string list \<Rightarrow> (string \<times> int) list \<Rightarrow> string list list" where
  "topo_loop adj queue deg =
     (if queue = [] then []
      else let (deg', next_q) = next_wave adj queue deg in queue # topo_loop adj next_q deg')"
  by pat_completeness auto

termination
proof (relation "inv_image (less_than <*lex*> less_than)
    (\<lambda>(adj, queue, deg). (card (positives deg), if queue = [] then 0 else 1))", goal_cases)
  case 1
  then show ?case by auto
next
  case (2 adj queue deg x deg' next_q)
  then have nw: "next_wave adj queue deg = (deg', next_q)" by simp
  show ?case
  proof (cases "next_q = []")
    case True
    then show ?thesis
      using 2 card_mono [OF finite_positives next_wave_positives(1) [OF nw]] by auto
  next
    case False
    then show ?thesis
      using psubset_card_mono [OF finite_positives next_wave_positives(2) [OF nw]] by auto
  qed
qed

declare topo_loop.simps [simp del]

definition topo_sort :: "DagStep list \<Rightarrow> string list list" where
  "topo_sort ss = (let in_degree = init_degree ss
     in topo_loop (build_adj ss) (map fst (filter (\<lambda>(sn, d). d = 0) in_degree)) in_degree)"

definition topological_sort :: "DagStep list \<Rightarrow> string list list" where
  "topological_sort = topo_sort"

subsection \<open>The initial dictionaries\<close>

definition edges :: "DagStep list \<Rightarrow> string \<rightharpoonup> string list" where
  "edges ss = map_of (map (\<lambda>s. (step_name s, depends_on s)) ss)"

lemma dom_edges: "dom (edges ss) = step_name ` set ss"
  by (auto simp: edges_def dom_map_of_conv_image_fst image_image)

lemma edges_step: "distinct (map step_name ss) \<Longrightarrow> s \<in> set ss \<Longrightarrow> edges ss (step_name s) = Some (depends_on s)"
  by (auto simp: edges_def comp_def intro!: map_of_is_SomeI)

lemma update_new_key: "k \<notin> fst ` set al \<Longrightarrow> AList.update k v al = al @ [(k, v)]"
  by (induction al) auto

lemma foldl_update_distinct:
  "distinct (map f ss) \<Longrightarrow> fst ` set al \<inter> f ` set ss = {} \<Longrightarrow>
   foldl (\<lambda>d s. AList.update (f s) (g s) d) al ss = al @ map (\<lambda>s. (f s, g s)) ss"
proof (induction ss arbitrary: al)
  case (Cons s ss)
  have "AList.update (f s) (g s) al = al @ [(f s, g s)]"
    using Cons.prems by (intro update_new_key) auto
  moreover have "fst ` set (al @ [(f s, g s)]) \<inter> f ` set ss = {}"
    using Cons.prems by auto
  ultimately show ?case using Cons.IH [of "al @ [(f s, g s)]"] Cons.prems(1) by simp
qed simp

lemma init_degree_eq:
  "distinct (map step_name ss) \<Longrightarrow> init_degree ss = map (\<lambda>s. (step_name s, int (length (depends_on s)))) ss"
  unfolding init_degree_def by (subst foldl_update_distinct) auto

lemma map_of_init_degree:
  "distinct (map step_name ss) \<Longrightarrow> map_of (init_degree ss) n = map_option (int \<circ> length) (edges ss n)"
  by (simp add: init_degree_eq edges_def map_of_map flip: comp_def)
     (induction ss, auto)

lemma add_edge_keys [simp]: "dom (map_of (add_edge name adj dep)) = dom (map_of adj)"
  by (auto simp: add_edge_def update_conv' split: option.splits if_splits)

lemma add_edges_keys [simp]: "dom (map_of (foldl (add_edge name) adj deps)) = dom (map_of adj)"
  by (induction deps arbitrary: adj) auto

lemma neighbours_add_edge:
  "sn \<in> dom (map_of adj) \<Longrightarrow>
   neighbours (add_edge name adj dep) sn = (if dep = sn then neighbours adj sn @ [name] else neighbours adj sn)"
  by (auto simp: neighbours_def add_edge_def update_conv' split: option.splits)

lemma neighbours_add_edges:
  "sn \<in> dom (map_of adj) \<Longrightarrow>
   neighbours (foldl (add_edge name) adj deps) sn = neighbours adj sn @ replicate (count_list deps sn) name"
  by (induction deps arbitrary: adj)
     (auto simp: neighbours_add_edge replicate_app_Cons_same)

lemma neighbours_fold:
  "sn \<in> dom (map_of adj) \<Longrightarrow>
   neighbours (foldl (\<lambda>adj s. foldl (add_edge (step_name s)) adj (depends_on s)) adj ss) sn =
     neighbours adj sn @ concat (map (\<lambda>s. replicate (count_list (depends_on s) sn) (step_name s)) ss)"
  by (induction ss arbitrary: adj) (auto simp: neighbours_add_edges)

lemma count_list_replicate: "count_list (replicate k x) n = (if x = n then k else 0)"
  by (induction k) auto

lemma count_neighbours:
  assumes "distinct (map step_name ss)" and "sn \<in> dom (edges ss)"
  shows "count_list (neighbours (build_adj ss) sn) n = (case edges ss n of None \<Rightarrow> 0 | Some ds \<Rightarrow> count_list ds sn)"
proof -
  have base: "foldl (\<lambda>d s. AList.update (step_name s) [] d) [] ss = map (\<lambda>s. (step_name s, [])) ss"
    using foldl_update_distinct [OF assms(1), of "[]" "\<lambda>s. []"] by simp
  have "sn \<in> dom (map_of (map (\<lambda>s. (step_name s, [] :: string list)) ss))"
    using assms(2) by (simp add: dom_edges dom_map_of_conv_image_fst image_image)
  moreover have "neighbours (map (\<lambda>s. (step_name s, [])) ss) sn = []"
    by (auto simp: neighbours_def split: option.splits dest: map_of_SomeD)
  ultimately have "neighbours (build_adj ss) sn =
      concat (map (\<lambda>s. replicate (count_list (depends_on s) sn) (step_name s)) ss)"
    by (simp add: build_adj_def base neighbours_fold)
  moreover have "count_list (concat (map (\<lambda>s. replicate (count_list (depends_on s) sn) (step_name s)) ss)) n =
      (case edges ss n of None \<Rightarrow> 0 | Some ds \<Rightarrow> count_list ds sn)"
    using assms(1)
  proof (induction ss)
    case (Cons s ss)
    have "edges ss (step_name s) = None"
      using Cons.prems by (simp add: edges_def map_of_eq_None_iff image_image)
    with Cons show ?case by (auto simp: edges_def count_list_replicate)
  qed (simp add: edges_def)
  ultimately show ?thesis by simp
qed

subsection \<open>Correctness of the waves\<close>

lemma count_distinct_filter:
  "distinct qs \<Longrightarrow> sum_list (map (count_list ds) qs) = length (filter (\<lambda>d. d \<in> set qs) ds)"
proof (induction qs)
  case (Cons q qs)
  have "length (filter (\<lambda>d. d = q \<or> d \<in> set qs) ds) =
      count_list ds q + length (filter (\<lambda>d. d \<in> set qs) ds)"
    using Cons.prems by (induction ds) auto
  then show ?case using Cons by simp
qed simp

text \<open>
  The state of the loop when the steps of \<open>done\<close> are in earlier waves: a degree counts the
  dependencies that are not done, and the queue holds the steps with none.
\<close>

definition topo_inv :: "DagStep list \<Rightarrow> string set \<Rightarrow> string list \<Rightarrow> (string \<times> int) list \<Rightarrow> bool" where
  "topo_inv ss dn queue deg \<longleftrightarrow>
     (\<forall>n. map_of deg n = map_option (\<lambda>ds. int (length (filter (\<lambda>d. d \<notin> dn) ds))) (edges ss n)) \<and>
     distinct queue \<and>
     set queue = {n. n \<notin> dn \<and> (\<exists>ds. edges ss n = Some ds \<and> set ds \<subseteq> dn)} \<and>
     (\<forall>n \<in> dn. \<exists>ds. edges ss n = Some ds \<and> set ds \<subseteq> dn)"

lemma topo_inv_init:
  assumes "distinct (map step_name ss)"
  shows "topo_inv ss {} (map fst (filter (\<lambda>(sn, d). d = 0) (init_degree ss))) (init_degree ss)"
proof -
  have "{n. \<exists>ds. edges ss n = Some ds \<and> set ds \<subseteq> {}} = step_name ` {s \<in> set ss. depends_on s = []}"
    using edges_step [OF assms] dom_edges [of ss] by (fastforce simp: image_iff)
  moreover have "fst ` {x \<in> set (init_degree ss). case x of (sn, d) \<Rightarrow> d = 0} =
      step_name ` {s \<in> set ss. depends_on s = []}"
    by (force simp: init_degree_eq [OF assms])
  moreover have "distinct (map fst (filter (\<lambda>(sn, d). d = 0) (init_degree ss)))"
    using assms by (intro distinct_map_filter) (simp add: init_degree_eq comp_def)
  ultimately show ?thesis
    using map_of_init_degree [OF assms] by (simp add: topo_inv_def comp_def)
qed

lemma count_list_concat: "count_list (concat xss) n = sum_list (map (\<lambda>xs. count_list xs n) xss)"
  by (induction xss) auto

lemma count_wave:
  assumes "distinct (map step_name ss)" and "distinct queue" and "set queue \<subseteq> dom (edges ss)"
  shows "count_list (concat (map (neighbours (build_adj ss)) queue)) n =
    (case edges ss n of None \<Rightarrow> 0 | Some ds \<Rightarrow> length (filter (\<lambda>d. d \<in> set queue) ds))"
proof -
  have "map (\<lambda>sn. count_list (neighbours (build_adj ss) sn) n) queue =
      map (\<lambda>sn. case edges ss n of None \<Rightarrow> 0 | Some ds \<Rightarrow> count_list ds sn) queue"
    using assms(3) by (intro map_cong refl count_neighbours [OF assms(1)]) auto
  then have "count_list (concat (map (neighbours (build_adj ss)) queue)) n =
      sum_list (map (\<lambda>sn. case edges ss n of None \<Rightarrow> 0 | Some ds \<Rightarrow> count_list ds sn) queue)"
    by (simp only: count_list_concat map_map comp_def)
  then show ?thesis
    using count_distinct_filter [OF assms(2)] by (cases "edges ss n") simp_all
qed

lemma topo_inv_step:
  assumes "distinct (map step_name ss)" and inv: "topo_inv ss dn queue deg"
    and nw: "next_wave (build_adj ss) queue deg = (deg', nq)"
  shows "topo_inv ss (dn \<union> set queue) nq deg' \<and>
    (\<forall>n \<in> set nq. \<forall>ds. edges ss n = Some ds \<longrightarrow> set ds \<inter> set queue \<noteq> {})"
proof -
  have q: "distinct queue" "set queue \<subseteq> dom (edges ss)" "set queue \<inter> dn = {}"
    and deg: "\<And>n. map_of deg n = map_option (\<lambda>ds. int (length (filter (\<lambda>d. d \<notin> dn) ds))) (edges ss n)"
    and setq: "set queue = {n. n \<notin> dn \<and> (\<exists>ds. edges ss n = Some ds \<and> set ds \<subseteq> dn)}"
    and closed: "\<forall>n \<in> dn. \<exists>ds. edges ss n = Some ds \<and> set ds \<subseteq> dn"
    using inv by (auto simp: topo_inv_def)
  let ?dn = "dn \<union> set queue"
  note fold = relax_fold [OF nw [unfolded next_wave_flat]] count_wave [OF assms(1) q(1,2)]
  have split: "length (filter (\<lambda>d. d \<notin> dn) ds) =
      length (filter (\<lambda>d. d \<in> set queue) ds) + length (filter (\<lambda>d. d \<notin> ?dn) ds)" for ds
    using q(3) by (induction ds) auto
  have zero: "length (filter (\<lambda>d. d \<notin> D) ds) = 0 \<longleftrightarrow> set ds \<subseteq> D" for D and ds :: "string list"
    by (auto simp: filter_empty_conv)
  have deg': "map_of deg' n = map_option (\<lambda>ds. int (length (filter (\<lambda>d. d \<notin> ?dn) ds))) (edges ss n)" for n
    using fold(1) [THEN conjunct1, of n] by (cases "edges ss n") (simp_all add: deg fold(2) split)
  have mem: "n \<in> set nq \<longleftrightarrow> (\<exists>ds. edges ss n = Some ds \<and> set ds \<subseteq> ?dn \<and> set ds \<inter> set queue \<noteq> {})"
    (is "_ \<longleftrightarrow> ?rhs n") and dist: "distinct nq" for n
  proof -
    have nq: "distinct nq"
      "set nq = {n. \<exists>d. map_of deg n = Some d \<and> 0 < d \<and>
         d \<le> int (count_list (concat (map (neighbours (build_adj ss)) queue)) n)}"
      using fold(1) [THEN conjunct2] by auto
    show "distinct nq" by (rule nq(1))
    have pos: "set ds \<inter> set queue \<noteq> {} \<longleftrightarrow> length (filter (\<lambda>d. d \<in> set queue) ds) \<noteq> 0" for ds
      by (auto simp: filter_empty_conv)
    have "0 < int (length (filter (\<lambda>d. d \<notin> dn) ds)) \<and>
        int (length (filter (\<lambda>d. d \<notin> dn) ds)) \<le> int (length (filter (\<lambda>d. d \<in> set queue) ds)) \<longleftrightarrow>
        set ds \<subseteq> ?dn \<and> set ds \<inter> set queue \<noteq> {}" for ds
      unfolding pos zero [symmetric] split by arith
    then show "n \<in> set nq \<longleftrightarrow> ?rhs n"
      unfolding nq(2) by (cases "edges ss n") (simp_all add: deg fold(2))
  qed
  have not_old: "n \<notin> ?dn" if "n \<in> set nq" for n
    using that closed setq q(3) unfolding mem by fastforce
  have new: "set ds \<inter> set queue \<noteq> {}" if "n \<notin> ?dn" "edges ss n = Some ds" "set ds \<subseteq> ?dn" for n ds
    using that setq by auto
  have "set nq = {n. n \<notin> ?dn \<and> (\<exists>ds. edges ss n = Some ds \<and> set ds \<subseteq> ?dn)}"
    using mem not_old new by blast
  moreover have "\<forall>n \<in> ?dn. \<exists>ds. edges ss n = Some ds \<and> set ds \<subseteq> ?dn"
    using closed setq by blast
  ultimately show ?thesis
    using mem dist deg' by (auto simp: topo_inv_def)
qed

text \<open>What the remaining waves are, from a state of the loop.\<close>

definition waves_ok :: "DagStep list \<Rightarrow> string set \<Rightarrow> string list list \<Rightarrow> bool" where
  "waves_ok ss dn ws \<longleftrightarrow> distinct (concat ws) \<and> dn \<inter> set (concat ws) = {} \<and>
     (\<forall>n ds. edges ss n = Some ds \<longrightarrow> set ds \<subseteq> dn \<union> set (concat ws) \<longrightarrow> n \<in> dn \<union> set (concat ws)) \<and>
     (\<forall>i < length ws. ws ! i \<noteq> [] \<and> (\<forall>n \<in> set (ws ! i). \<exists>ds. edges ss n = Some ds \<and>
        set ds \<subseteq> dn \<union> set (concat (take i ws)) \<and>
        (0 < i \<longrightarrow> set ds \<inter> set (ws ! (i - 1)) \<noteq> {})))"

lemma waves_ok_Cons:
  assumes "waves_ok ss (dn \<union> set q) ws" and "distinct q" and "q \<noteq> []" and "dn \<inter> set q = {}"
    and "\<forall>n \<in> set q. \<exists>ds. edges ss n = Some ds \<and> set ds \<subseteq> dn"
    and "ws \<noteq> [] \<Longrightarrow> \<forall>n \<in> set (hd ws). \<forall>ds. edges ss n = Some ds \<longrightarrow> set ds \<inter> set q \<noteq> {}"
  shows "waves_ok ss dn (q # ws)"
proof -
  note ok = assms(1) [unfolded waves_ok_def]
  have "\<exists>ds. edges ss n = Some ds \<and> set ds \<subseteq> dn \<union> set (concat (take i (q # ws))) \<and>
      (0 < i \<longrightarrow> set ds \<inter> set ((q # ws) ! (i - 1)) \<noteq> {})"
    if i: "i < length (q # ws)" and n: "n \<in> set ((q # ws) ! i)" for i n
  proof (cases i)
    case 0
    then show ?thesis using n assms(5) by auto
  next
    case (Suc j)
    then have "j < length ws" "n \<in> set (ws ! j)" using i n by simp_all
    then obtain ds where ds: "edges ss n = Some ds" "set ds \<subseteq> dn \<union> set q \<union> set (concat (take j ws))"
      "0 < j \<longrightarrow> set ds \<inter> set (ws ! (j - 1)) \<noteq> {}"
      using ok by blast
    show ?thesis
    proof (cases j)
      case 0
      with Suc i n have "n \<in> set (hd ws)" "ws \<noteq> []" by (auto simp: hd_conv_nth)
      then show ?thesis using assms(6) ds(1,2) Suc 0 by auto
    next
      case (Suc k)
      then show ?thesis using ds \<open>i = Suc j\<close> by auto
    qed
  qed
  moreover have "(q # ws) ! i \<noteq> []" if "i < length (q # ws)" for i
    using that ok assms(3) by (cases i) auto
  moreover have "distinct (concat (q # ws)) \<and> dn \<inter> set (concat (q # ws)) = {}"
    using ok assms(2,4) by auto
  moreover have "\<forall>n ds. edges ss n = Some ds \<longrightarrow> set ds \<subseteq> dn \<union> set (concat (q # ws)) \<longrightarrow>
      n \<in> dn \<union> set (concat (q # ws))"
    using ok by (simp add: Un_assoc)
  ultimately show ?thesis unfolding waves_ok_def by blast
qed

lemma topo_loop_waves:
  assumes "distinct (map step_name ss)"
  shows "topo_inv ss dn queue deg \<Longrightarrow> waves_ok ss dn (topo_loop (build_adj ss) queue deg)"
proof (induction "build_adj ss" queue deg arbitrary: dn rule: topo_loop.induct)
  case (1 queue deg)
  show ?case
  proof (cases "queue = []")
    case True
    then show ?thesis
      using "1.prems" by (auto simp: topo_loop.simps waves_ok_def topo_inv_def)
  next
    case False
    obtain deg' nq where nw: "next_wave (build_adj ss) queue deg = (deg', nq)" by fastforce
    note step = topo_inv_step [OF assms "1.prems" nw]
    let ?ws = "topo_loop (build_adj ss) nq deg'"
    have "waves_ok ss (dn \<union> set queue) ?ws"
      using "1.hyps" [OF False nw [symmetric] refl] step by blast
    moreover have "hd ?ws = nq" if "?ws \<noteq> []"
      using that topo_loop.simps [of "build_adj ss" nq deg'] by (auto simp: case_prod_unfold Let_def split: if_splits)
    ultimately have "waves_ok ss dn (queue # ?ws)"
      using "1.prems" step False by (intro waves_ok_Cons) (auto simp: topo_inv_def)
    with False nw show ?thesis by (subst topo_loop.simps) simp
  qed
qed

subsection \<open>Properties\<close>

text \<open>
  A step is runnable when it is a step of the DAG and all its dependencies are runnable:
  steps on or behind a cycle, or behind an unknown dependency, are not.
\<close>

inductive runnable :: "DagStep list \<Rightarrow> string \<Rightarrow> bool" for ss where
  "edges ss n = Some ds \<Longrightarrow> (\<And>d. d \<in> set ds \<Longrightarrow> runnable ss d) \<Longrightarrow> runnable ss n"

inductive_cases runnableE: "runnable ss n"

lemma runnable_step: "runnable ss n \<Longrightarrow> n \<in> step_name ` set ss"
  using dom_edges [of ss] by (auto elim!: runnableE)

lemma topo_sort_waves: "distinct (map step_name ss) \<Longrightarrow> waves_ok ss {} (topo_sort ss)"
  unfolding topo_sort_def Let_def by (intro topo_loop_waves topo_inv_init)

lemma waves_ok_member:
  assumes "waves_ok ss {} ws" and "i < length ws" and "n \<in> set (ws ! i)"
  obtains ds where "edges ss n = Some ds" and "set ds \<subseteq> set (concat (take i ws))"
proof -
  from assms obtain ds where "edges ss n = Some ds" "set ds \<subseteq> {} \<union> set (concat (take i ws))"
    unfolding waves_ok_def by blast
  then show thesis using that by simp
qed

lemma in_concat_take:
  assumes "i \<le> length ws"
  shows "x \<in> set (concat (take i ws)) \<longleftrightarrow> (\<exists>j < i. x \<in> set (ws ! j))"
proof -
  have "set (take i ws) = (\<lambda>j. ws ! j) ` {0..<i}" using nth_image [OF assms] by simp
  then show ?thesis by auto
qed

lemma topo_sort_runnable:
  assumes "distinct (map step_name ss)"
  shows "set (concat (topo_sort ss)) = {n. runnable ss n}"
proof -
  let ?ws = "topo_sort ss"
  note ok = topo_sort_waves [OF assms]
  have "runnable ss n" if "i < length ?ws" "n \<in> set (?ws ! i)" for i n
    using that
  proof (induction i arbitrary: n rule: less_induct)
    case (less i)
    obtain ds where ds: "edges ss n = Some ds" "set ds \<subseteq> set (concat (take i ?ws))"
      using waves_ok_member [OF ok less.prems] .
    have "runnable ss d" if "d \<in> set ds" for d
    proof -
      from that ds(2) obtain j where "j < i" "d \<in> set (?ws ! j)"
        using less.prems(1) in_concat_take [of i ?ws d] by auto
      with less.IH [of j d] less.prems(1) show ?thesis by simp
    qed
    with ds(1) show ?case by (rule runnable.intros)
  qed
  moreover have "n \<in> set (concat ?ws)" if "runnable ss n" for n
    using that
  proof induction
    case (1 n ds)
    then have "set ds \<subseteq> set (concat ?ws)" by blast
    with 1(1) ok show ?case unfolding waves_ok_def by blast
  qed
  ultimately show ?thesis
    using in_concat_take [of "length ?ws" ?ws] unfolding set_eq_iff mem_Collect_eq take_all_iff [THEN iffD2, OF order_refl]
    by blast
qed

text \<open>
  C12. For steps with distinct names, whatever their dependencies, the topological sort
  terminates with waves that together hold exactly the runnable steps, each once; every
  step comes after all its dependencies and directly after one of them, so it is in the
  earliest wave it can be in; and no wave is empty.
\<close>

theorem topo_sort_correct:
  assumes "distinct (map step_name ss)"
  shows "distinct (concat (topo_sort ss)) \<and> set (concat (topo_sort ss)) = {n. runnable ss n} \<and>
    (\<forall>i < length (topo_sort ss). topo_sort ss ! i \<noteq> [] \<and>
      (\<forall>n \<in> set (topo_sort ss ! i). \<exists>ds. edges ss n = Some ds \<and>
        set ds \<subseteq> set (concat (take i (topo_sort ss))) \<and>
        (0 < i \<longrightarrow> set ds \<inter> set (topo_sort ss ! (i - 1)) \<noteq> {})))"
  using topo_sort_runnable [OF assms] topo_sort_waves [OF assms, unfolded waves_ok_def Un_empty_left]
  by blast

text \<open>
  A well-formed DAG, with distinct step names, dependencies that are steps of the DAG
  and no cycle (some numbering of the steps increases along dependencies), is scheduled
  completely: the waves are a permutation of its steps.
\<close>

theorem topo_sort_complete:
  assumes "distinct (map step_name ss)"
    and "\<forall>s \<in> set ss. \<forall>d \<in> set (depends_on s). d \<in> step_name ` set ss \<and> (rank d :: nat) < rank (step_name s)"
  shows "distinct (concat (topo_sort ss)) \<and> set (concat (topo_sort ss)) = step_name ` set ss"
proof -
  have "runnable ss n" if "n \<in> step_name ` set ss" for n
    using that
  proof (induction "rank n" arbitrary: n rule: less_induct)
    case less
    then obtain s where s: "s \<in> set ss" "n = step_name s" by auto
    show ?case
    proof (rule runnable.intros)
      show "edges ss n = Some (depends_on s)" using s edges_step [OF assms(1)] by simp
      show "runnable ss d" if "d \<in> set (depends_on s)" for d
        using that s assms(2) by (intro less.hyps) auto
    qed
  qed
  moreover have "distinct (concat (topo_sort ss))"
    using topo_sort_waves [OF assms(1)] by (simp add: waves_ok_def)
  ultimately show ?thesis using topo_sort_runnable [OF assms(1)] runnable_step by blast
qed

definition demo_steps :: "DagStep list" where
  "demo_steps = [(new_DagStep ''load'' ''io''), (new_DagStep ''ocr'' ''gpu'')\<lparr>depends_on := [''load'']\<rparr>,
     (new_DagStep ''asr'' ''gpu'')\<lparr>depends_on := [''load'']\<rparr>,
     (new_DagStep ''merge'' ''cpu'')\<lparr>depends_on := [''ocr'', ''asr'']\<rparr>]"

lemma demo_steps_distinct: "distinct (map step_name demo_steps)"
  by code_simp

lemma demo_topo: "topo_sort demo_steps = [[''load''], [''ocr'', ''asr''], [''merge'']]"
  by code_simp

theorem topo_sort_correct_witness:
  "topo_sort demo_steps = [[''load''], [''ocr'', ''asr''], [''merge'']] \<and>
   {n. runnable demo_steps n} = {''load'', ''ocr'', ''asr'', ''merge''}"
proof -
  have "{n. runnable demo_steps n} = set (concat (topo_sort demo_steps))"
    using topo_sort_correct [OF demo_steps_distinct] by blast
  then show ?thesis by (auto simp: demo_topo)
qed

theorem topo_sort_complete_witness:
  "set (concat (topo_sort demo_steps)) = step_name ` set demo_steps"
proof -
  let ?rank = "\<lambda>n. if n = ''load'' then 0 else if n = ''merge'' then 2 else (1::nat)"
  have "\<forall>s \<in> set demo_steps. \<forall>d \<in> set (depends_on s).
      d \<in> step_name ` set demo_steps \<and> ?rank d < ?rank (step_name s)"
    by (simp add: demo_steps_def new_DagStep_def)
  from topo_sort_complete [OF demo_steps_distinct this] show ?thesis by blast
qed

text \<open>
  Steps on a cycle are dropped: two steps that depend on each other give no wave at all.
\<close>

lemma cyclic_steps_dropped:
  "topo_sort [(new_DagStep ''a'' ''x'')\<lparr>depends_on := [''b'']\<rparr>,
     (new_DagStep ''b'' ''x'')\<lparr>depends_on := [''a'']\<rparr>] = []"
  by code_simp

end
