(* ===== verification/Dag_Condition.thy ===== *)
theory Dag_Condition
  imports Dag_Model "HOL-Library.List_Lexorder" "HOL-Library.Char_ord" "HOL-Library.Sublist"
begin

text \<open>
  The condition evaluator of \<^verbatim>\<open>DagEngine\<close>: \<^verbatim>\<open>_eval_node\<close> walks the syntax tree of an
  expression, \<^verbatim>\<open>_safe_eval_condition\<close> turns any exception into \<^verbatim>\<open>True\<close>. Syntax trees are a
  datatype with one constructor per node class the evaluator distinguishes; every other
  node class is \<open>OtherNode\<close>. Evaluation returns \<open>None\<close> where the code raises. The parser of
  Python expressions is a parameter (\<open>None\<close>: a syntax error).

  The evaluator computes both sides of \<^verbatim>\<open>and\<close> and \<^verbatim>\<open>or\<close> and returns a truth value; Python's
  own operators stop early and return an operand. \<open>eval_node_python\<close> relates the two.
\<close>

subsection \<open>Comparison of Python values\<close>

fun num_val :: "pyval \<Rightarrow> rat option" where
  "num_val (PBool b) = Some (if b then 1 else 0)"
| "num_val (PInt i) = Some (of_int i)"
| "num_val (PFloat q) = Some q"
| "num_val _ = None"

fun py_eq :: "pyval \<Rightarrow> pyval \<Rightarrow> bool"
  and list_eq :: "pyval list \<Rightarrow> pyval list \<Rightarrow> bool"
  and dict_sub :: "dict \<Rightarrow> dict \<Rightarrow> bool"
where
  "py_eq PNone w = (w = PNone)"
| "py_eq (PStr s) w = (w = PStr s)"
| "py_eq (PList xs) w = (case w of PList ys \<Rightarrow> list_eq xs ys | _ \<Rightarrow> False)"
| "py_eq (PDict d) w = (case w of PDict e \<Rightarrow> length d = length e \<and> dict_sub d e | _ \<Rightarrow> False)"
| "py_eq v w = (num_val v = num_val w)"
| "list_eq [] ys = (ys = [])"
| "list_eq (x # xs) ys = (case ys of [] \<Rightarrow> False | y # ys' \<Rightarrow> py_eq x y \<and> list_eq xs ys')"
| "dict_sub [] e = True"
| "dict_sub ((k, v) # d) e = (case map_of e k of None \<Rightarrow> False | Some w \<Rightarrow> py_eq v w \<and> dict_sub d e)"

text \<open>\<^verbatim>\<open><\<close>: numbers, strings and lists; a \<^verbatim>\<open>TypeError\<close> otherwise.\<close>

fun py_less :: "pyval \<Rightarrow> pyval \<Rightarrow> bool option"
  and list_less :: "pyval list \<Rightarrow> pyval list \<Rightarrow> bool option"
where
  "py_less (PStr s) w = (case w of PStr t \<Rightarrow> Some (s < t) | _ \<Rightarrow> None)"
| "py_less (PList xs) w = (case w of PList ys \<Rightarrow> list_less xs ys | _ \<Rightarrow> None)"
| "py_less v w = (case (num_val v, num_val w) of (Some a, Some b) \<Rightarrow> Some (a < b) | _ \<Rightarrow> None)"
| "list_less [] ys = Some (ys \<noteq> [])"
| "list_less (x # xs) ys = (case ys of [] \<Rightarrow> Some False
     | y # ys' \<Rightarrow> if py_eq x y then list_less xs ys' else py_less x y)"

definition py_le :: "pyval \<Rightarrow> pyval \<Rightarrow> bool option" where
  "py_le v w = map_option (\<lambda>b. b \<or> py_eq v w) (py_less v w)"

text \<open>\<^verbatim>\<open>in\<close>: strings, lists and dictionaries with hashable keys; a \<^verbatim>\<open>TypeError\<close> otherwise.\<close>

fun py_in :: "pyval \<Rightarrow> pyval \<Rightarrow> bool option" where
  "py_in v (PStr t) = (case v of PStr s \<Rightarrow> Some (sublist s t) | _ \<Rightarrow> None)"
| "py_in v (PList ys) = Some (\<exists>y \<in> set ys. py_eq v y)"
| "py_in v (PDict d) = (case v of PList _ \<Rightarrow> None | PDict _ \<Rightarrow> None
     | PStr s \<Rightarrow> Some (s \<in> set (map fst d)) | _ \<Rightarrow> Some False)"
| "py_in v _ = None"

subsection \<open>Expressions\<close>

datatype cmpop = Eq | NotEq | Lt | LtE | Gt | GtE | In | NotIn | Is | IsNot
datatype boolop = And | Or
datatype unaryop = Not | UAdd | USub | Invert

datatype expr =
    Constant pyval
  | ConstantOther
  | Name string
  | Compare expr "(cmpop \<times> expr) list"
  | BoolOp boolop "expr list"
  | UnaryOp unaryop expr
  | Attribute expr string
  | OtherNode

text \<open>One comparison; the two membership tests catch the \<^verbatim>\<open>TypeError\<close>.\<close>

definition compare_op :: "cmpop \<Rightarrow> pyval \<Rightarrow> pyval \<Rightarrow> bool option" where
  "compare_op op l r = (case op of
      Eq \<Rightarrow> Some (py_eq l r) | NotEq \<Rightarrow> Some (\<not> py_eq l r)
    | Lt \<Rightarrow> py_less l r | LtE \<Rightarrow> py_le l r | Gt \<Rightarrow> py_less r l | GtE \<Rightarrow> py_le r l
    | In \<Rightarrow> Some (py_in l r = Some True)
    | NotIn \<Rightarrow> Some (py_in l r = Some False)
    | Is \<Rightarrow> None | IsNot \<Rightarrow> None)"

text \<open>
  \<^verbatim>\<open>result = result and (...)\<close> after the operator was recognised: once the result is false
  the operands are not compared any more, but an unsupported operator still raises.
\<close>

definition compare_and :: "bool \<Rightarrow> cmpop \<Rightarrow> pyval \<Rightarrow> pyval \<Rightarrow> bool option" where
  "compare_and res op l r = (if op = Is \<or> op = IsNot then None
     else if res then compare_op op l r else Some False)"

fun negate :: "pyval \<Rightarrow> pyval option" where
  "negate (PBool b) = Some (PInt (if b then -1 else 0))"
| "negate (PInt i) = Some (PInt (- i))"
| "negate (PFloat q) = Some (PFloat (- q))"
| "negate _ = None"

fun positive :: "pyval \<Rightarrow> pyval option" where
  "positive (PBool b) = Some (PInt (if b then 1 else 0))"
| "positive (PInt i) = Some (PInt i)"
| "positive (PFloat q) = Some (PFloat q)"
| "positive _ = None"

definition apply_unary :: "unaryop \<Rightarrow> pyval \<Rightarrow> pyval option" where
  "apply_unary op v = (case op of Not \<Rightarrow> Some (PBool (\<not> truthy v)) | UAdd \<Rightarrow> positive v
     | USub \<Rightarrow> negate v | Invert \<Rightarrow> None)"

definition get_attr :: "pyval \<Rightarrow> string \<Rightarrow> pyval option" where
  "get_attr v a = (case v of PDict d \<Rightarrow> Some (dict_get d a PNone) | _ \<Rightarrow> None)"

fun eval_node :: "dict \<Rightarrow> expr \<Rightarrow> pyval option"
  and eval_nodes :: "dict \<Rightarrow> expr list \<Rightarrow> pyval list option"
  and eval_chain :: "dict \<Rightarrow> pyval \<Rightarrow> bool \<Rightarrow> (cmpop \<times> expr) list \<Rightarrow> bool option"
where
  "eval_node vars (Constant v) = Some v"
| "eval_node vars ConstantOther = Some PNone"
| "eval_node vars (Name x) = Some (dict_get vars x PNone)"
| "eval_node vars (Compare l cs) = (case eval_node vars l of None \<Rightarrow> None
     | Some v \<Rightarrow> map_option PBool (eval_chain vars v True cs))"
| "eval_node vars (BoolOp op es) = (case eval_nodes vars es of None \<Rightarrow> None
     | Some vs \<Rightarrow> Some (PBool (case op of And \<Rightarrow> \<forall>v \<in> set vs. truthy v | Or \<Rightarrow> \<exists>v \<in> set vs. truthy v)))"
| "eval_node vars (UnaryOp op e) = (case eval_node vars e of None \<Rightarrow> None | Some v \<Rightarrow> apply_unary op v)"
| "eval_node vars (Attribute e a) = (case eval_node vars e of None \<Rightarrow> None | Some v \<Rightarrow> get_attr v a)"
| "eval_node vars OtherNode = None"
| "eval_nodes vars [] = Some []"
| "eval_nodes vars (e # es) = (case eval_node vars e of None \<Rightarrow> None
     | Some v \<Rightarrow> map_option (\<lambda>vs. v # vs) (eval_nodes vars es))"
| "eval_chain vars l res [] = Some res"
| "eval_chain vars l res ((op, e) # cs) = (case eval_node vars e of None \<Rightarrow> None
     | Some r \<Rightarrow> (case compare_and res op l r of None \<Rightarrow> None
         | Some res' \<Rightarrow> eval_chain vars r res' cs))"

definition safe_eval_condition :: "(string \<Rightarrow> expr option) \<Rightarrow> string \<Rightarrow> DagContext \<Rightarrow> bool" where
  "safe_eval_condition parse e ctx = (case parse e of None \<Rightarrow> True
     | Some tree \<Rightarrow> (case eval_node (dict_merge (ctx_vars ctx) (input_data ctx)) tree of
          None \<Rightarrow> True | Some v \<Rightarrow> truthy v))"

definition eval_condition :: "(string \<Rightarrow> expr option) \<Rightarrow> string \<Rightarrow> DagContext \<Rightarrow> bool" where
  "eval_condition = safe_eval_condition"

subsection \<open>Python's own evaluation order\<close>

text \<open>
  The same expressions with the operators of the language: \<^verbatim>\<open>and\<close>, \<^verbatim>\<open>or\<close> and chained
  comparisons stop at the first operand that decides, and \<^verbatim>\<open>and\<close> and \<^verbatim>\<open>or\<close> return it. Names
  and membership tests are as above.
\<close>

fun py_eval :: "dict \<Rightarrow> expr \<Rightarrow> pyval option"
  and py_bool :: "dict \<Rightarrow> boolop \<Rightarrow> expr list \<Rightarrow> pyval option"
  and py_chain :: "dict \<Rightarrow> pyval \<Rightarrow> (cmpop \<times> expr) list \<Rightarrow> bool option"
where
  "py_eval vars (Constant v) = Some v"
| "py_eval vars ConstantOther = Some PNone"
| "py_eval vars (Name x) = Some (dict_get vars x PNone)"
| "py_eval vars (Compare l cs) = (case py_eval vars l of None \<Rightarrow> None
     | Some v \<Rightarrow> map_option PBool (py_chain vars v cs))"
| "py_eval vars (BoolOp op es) = py_bool vars op es"
| "py_eval vars (UnaryOp op e) = (case py_eval vars e of None \<Rightarrow> None | Some v \<Rightarrow> apply_unary op v)"
| "py_eval vars (Attribute e a) = (case py_eval vars e of None \<Rightarrow> None | Some v \<Rightarrow> get_attr v a)"
| "py_eval vars OtherNode = None"
| "py_bool vars op [] = Some (PBool (op = And))"
| "py_bool vars op (e # es) = (case py_eval vars e of None \<Rightarrow> None
     | Some v \<Rightarrow> if es = [] \<or> truthy v = (op = Or) then Some v else py_bool vars op es)"
| "py_chain vars l [] = Some True"
| "py_chain vars l ((op, e) # cs) = (case py_eval vars e of None \<Rightarrow> None
     | Some r \<Rightarrow> (case compare_op op l r of None \<Rightarrow> None
         | Some b \<Rightarrow> if b then py_chain vars r cs else Some False))"

text \<open>
  Expressions in which \<^verbatim>\<open>and\<close> and \<^verbatim>\<open>or\<close> only occur where a truth value is expected.
\<close>

fun strict :: "expr \<Rightarrow> bool" where
  "strict (Compare l cs) = (strict l \<and> (\<forall>c \<in> set cs. strict (snd c)))"
| "strict (BoolOp _ _) = False"
| "strict (UnaryOp _ e) = strict e"
| "strict (Attribute e _) = strict e"
| "strict _ = True"

fun guard_expr :: "expr \<Rightarrow> bool" where
  "guard_expr (BoolOp _ es) = (\<forall>e \<in> set es. guard_expr e)"
| "guard_expr (UnaryOp Not e) = guard_expr e"
| "guard_expr e = strict e"

lemma chain_false: "eval_chain vars l False cs = Some b \<Longrightarrow> \<not> b"
  by (induction cs arbitrary: l) (auto simp: compare_and_def split: option.splits if_splits)

lemma eval_node_strict:
  "strict e \<Longrightarrow> eval_node vars e = Some v \<Longrightarrow> py_eval vars e = Some v"
  "(\<forall>e \<in> set es. strict e) \<Longrightarrow> eval_nodes vars es = Some vs \<Longrightarrow> list_all2 (\<lambda>e v. py_eval vars e = Some v) es vs"
  "(\<forall>c \<in> set cs. strict (snd c)) \<Longrightarrow> res \<Longrightarrow> eval_chain vars l res cs = Some b \<Longrightarrow> py_chain vars l cs = Some b"
proof (induction vars e and vars es and vars l res cs arbitrary: v and vs and b
    rule: eval_node_eval_nodes_eval_chain.induct)
  case (12 vars l res op e cs)
  then obtain r b' where r: "eval_node vars e = Some r" "compare_and True op l r = Some b'"
    "eval_chain vars r b' cs = Some b" by (auto split: option.splits)
  then have "compare_op op l r = Some b'" by (simp add: compare_and_def split: if_splits)
  with 12 r show ?case by (cases b') (auto dest: chain_false)
qed (auto split: option.splits)

lemma eval_nodes_all2: "eval_nodes vars es = Some vs \<longleftrightarrow> list_all2 (\<lambda>e v. eval_node vars e = Some v) es vs"
  by (induction es arbitrary: vs) (auto simp: list_all2_Cons1 split: option.splits)

lemma py_bool_agrees:
  assumes "\<And>e v. e \<in> set es \<Longrightarrow> eval_node vars e = Some v \<Longrightarrow> \<exists>v'. py_eval vars e = Some v' \<and> truthy v' = truthy v"
    and "list_all2 (\<lambda>e v. eval_node vars e = Some v) es vs"
  shows "\<exists>v'. py_bool vars op es = Some v' \<and>
    truthy v' = (case op of And \<Rightarrow> \<forall>v \<in> set vs. truthy v | Or \<Rightarrow> \<exists>v \<in> set vs. truthy v)"
  using assms(2,1)
proof (induction es vs rule: list_all2_induct)
  case Nil
  then show ?case by (cases op) auto
next
  case (Cons e es v vs)
  obtain v' where v': "py_eval vars e = Some v'" "truthy v' = truthy v"
    using Cons.prems Cons.hyps(1) by auto
  obtain w where w: "py_bool vars op es = Some w"
    "truthy w = (case op of And \<Rightarrow> \<forall>v \<in> set vs. truthy v | Or \<Rightarrow> \<exists>v \<in> set vs. truthy v)"
    using Cons.IH [OF Cons.prems [OF list.set_intros(2)]] by blast
  show ?case
  proof (cases "es = []")
    case True
    then have "vs = []" using Cons.hyps(2) by simp
    with True v' show ?thesis by (cases op) auto
  next
    case False
    then show ?thesis using v' w by (cases op) auto
  qed
qed

lemma eval_node_guard:
  "guard_expr e \<Longrightarrow> eval_node vars e = Some v \<Longrightarrow> \<exists>v'. py_eval vars e = Some v' \<and> truthy v' = truthy v"
proof (induction e arbitrary: v rule: guard_expr.induct)
  case (1 op es)
  then obtain vs where vs: "eval_nodes vars es = Some vs"
    "v = PBool (case op of And \<Rightarrow> \<forall>v \<in> set vs. truthy v | Or \<Rightarrow> \<exists>v \<in> set vs. truthy v)"
    by (auto split: option.splits)
  have "\<exists>v'. py_bool vars op es = Some v' \<and>
      truthy v' = (case op of And \<Rightarrow> \<forall>v \<in> set vs. truthy v | Or \<Rightarrow> \<exists>v \<in> set vs. truthy v)"
    using 1 vs(1) by (intro py_bool_agrees) (auto simp: eval_nodes_all2)
  with vs(2) show ?case by simp
next
  case (2 e)
  then show ?case by (fastforce simp: apply_unary_def split: option.splits)
qed (simp_all only: guard_expr.simps, (blast dest: eval_node_strict(1))+)


definition demo_expr :: expr where
  "demo_expr = BoolOp And [Name ''x'', Compare (Attribute (Name ''x'') ''y'') [(Gt, Constant (PInt 1))]]"

definition demo_ctx :: "dict \<Rightarrow> DagContext" where
  "demo_ctx vars = \<lparr>schema_version = 1, ctx_task_id = ''t'', ctx_dag_id = ''d'', ctx_tenant_id = [],
     input_data = vars, metadata = [], ctx_vars = vars, step_results = [], completed_steps = [],
     status = DAG_RUNNING\<rparr>"


text \<open>
  The guard \<^verbatim>\<open>x and x.y > 1\<close> does not protect its right side: with \<^verbatim>\<open>x\<close> absent Python's value
  is false, but the evaluator raises on the attribute access and the step runs.
\<close>

lemma guard_not_short_circuit:
  "eval_condition (\<lambda>s. Some demo_expr) ''x and x.y > 1'' (demo_ctx []) \<and>
   py_eval (dict_merge [] []) demo_expr = Some PNone"
  by code_simp

end
