(* ===== verification/Dag_Engine.thy ===== *)
theory Dag_Engine
  imports Dag_Topology Dag_Condition
begin

text \<open>
  \<^verbatim>\<open>DagEngine\<close>: running one step (\<^verbatim>\<open>_run_step\<close> with its MAP, STREAMING and normal branches)
  and running a DAG wave by wave (\<^verbatim>\<open>execute\<close>).

  What the engine calls is collected in a record \<open>env\<close> of operations on a world \<open>'w\<close>: the
  dispatch function, the HTTP call of wrapped Flask services, \<^verbatim>\<open>asyncio.sleep\<close>, the context
  store, \<^verbatim>\<open>async_blpop\<close> and \<^verbatim>\<open>delete\<close> on the streaming buffer, the clock of the event loop
  and the expression parser. An awaited call returns an error or a value; the timeouts of
  \<^verbatim>\<open>asyncio.wait_for\<close> are errors of the call. \<open>run_step\<close> is the sequential code of a step;
  the interleaving of the steps of a wave is in \<^verbatim>\<open>Dag_Runs\<close>.
\<close>

type_synonym exn = string

record 'w env =
  dispatch :: "'w \<Rightarrow> string \<Rightarrow> string \<Rightarrow> dict \<Rightarrow> (exn + dict) \<times> 'w"
  flask_dispatch :: "'w \<Rightarrow> string \<Rightarrow> dict \<Rightarrow> (exn + dict) \<times> 'w"
  sleep :: "'w \<Rightarrow> rat \<Rightarrow> 'w"
  save :: "'w \<Rightarrow> DagContext \<Rightarrow> exn option \<times> 'w"
  async_blpop :: "'w \<Rightarrow> string \<Rightarrow> int \<Rightarrow> rval option \<times> 'w"
  delete_buffer :: "'w \<Rightarrow> string \<Rightarrow> 'w"
  loop_time :: "'w \<Rightarrow> rat"
  parse_condition :: "string \<Rightarrow> expr option"

subsection \<open>Input and output mappings\<close>

text \<open>\<^verbatim>\<open>a or b\<close>.\<close>

definition py_or :: "pyval \<Rightarrow> pyval \<Rightarrow> pyval" where
  "py_or a b = (if truthy a then a else b)"

definition map_input :: "DagContext \<Rightarrow> dict \<Rightarrow> string \<times> string \<Rightarrow> dict" where
  "map_input ctx d m = (let (dst, src) = m;
       val = py_or (dict_get (ctx_vars ctx) src PNone) (dict_get (step_results ctx) src PNone)
     in if val \<noteq> PNone then dict_set d dst val else d)"

definition build_input :: "DagStep \<Rightarrow> DagContext \<Rightarrow> dict" where
  "build_input step ctx = foldl (map_input ctx) (input_data ctx) (input_mapping step)"

definition map_output :: "dict \<Rightarrow> dict \<Rightarrow> string \<times> string \<Rightarrow> dict" where
  "map_output result vars m = (case map_of result (snd m) of None \<Rightarrow> vars
     | Some v \<Rightarrow> dict_set vars (fst m) v)"

definition apply_output :: "DagStep \<Rightarrow> dict \<Rightarrow> dict \<Rightarrow> dict" where
  "apply_output step result vars = foldl (map_output result) vars (output_mapping step)"

subsection \<open>Failure policy\<close>

text \<open>What happens with an error once nothing is left to try.\<close>

definition handle_failure :: "DagStep \<Rightarrow> exn \<Rightarrow> exn + dict" where
  "handle_failure step e = (case (on_failure step, fallback step) of
      (FALLBACK, Some fb) \<Rightarrow> Inr (map (\<lambda>(k, v). (k, PStr v)) (fb_output_mapping fb))
    | (SKIP, _) \<Rightarrow> Inr []
    | _ \<Rightarrow> Inl e)"

subsection \<open>Normal steps\<close>

definition attempt :: "'w env \<Rightarrow> DagStep \<Rightarrow> dict \<Rightarrow> 'w \<Rightarrow> (exn + dict) \<times> 'w" where
  "attempt env step inp w = (case execution_mode step of
      SYNC \<Rightarrow> dispatch env w (capability step) (step_name step) inp
    | ASYNC \<Rightarrow> dispatch env w (capability step) (step_name step) inp
    | FLASK_WRAPPED \<Rightarrow> flask_dispatch env w (case flask step of None \<Rightarrow> [] | Some url \<Rightarrow> url) inp)"

text \<open>
  \<^verbatim>\<open>for attempt in range(max_retries + 1)\<close>; the number is that of the attempts left. With a
  negative number of retries the loop body never runs and the result stays empty.
\<close>

fun retry_loop :: "'w env \<Rightarrow> DagStep \<Rightarrow> dict \<Rightarrow> nat \<Rightarrow> 'w \<Rightarrow> (exn + dict) \<times> 'w" where
  "retry_loop env step inp 0 w = (Inr [], w)"
| "retry_loop env step inp (Suc n) w = (case attempt env step inp w of
      (Inr result, w') \<Rightarrow> (Inr result, w')
    | (Inl e, w') \<Rightarrow>
        if n > 0 then retry_loop env step inp n (sleep env w' (retry_delay_seconds (retry_policy step)))
        else (handle_failure step e, w'))"

definition run_normal :: "'w env \<Rightarrow> DagStep \<Rightarrow> dict \<Rightarrow> 'w \<Rightarrow> (exn + dict) \<times> 'w" where
  "run_normal env step inp w = retry_loop env step inp (nat (max_retries (retry_policy step) + 1)) w"

subsection \<open>MAP steps\<close>

definition map_items :: "string \<Rightarrow> dict \<Rightarrow> DagContext \<Rightarrow> pyval list" where
  "map_items key inp ctx =
     (case py_or (dict_get inp key PNone) (dict_get (ctx_vars ctx) key (PList [])) of
        PList xs \<Rightarrow> xs | v \<Rightarrow> [v])"

definition map_one :: "'w env \<Rightarrow> DagStep \<Rightarrow> string \<Rightarrow> dict \<Rightarrow> pyval \<Rightarrow> nat \<Rightarrow> 'w \<Rightarrow> (exn + dict) \<times> 'w" where
  "map_one env step key inp item idx w =
     (let item_input = dict_set (dict_set inp key item) ''_map_index'' (PInt (int idx))
      in case dispatch env w (capability step) (step_name step) item_input of
           (Inr r, w') \<Rightarrow> (Inr r, w')
         | (Inl e, w') \<Rightarrow>
             (if map_error_policy step = CONTINUE
              then Inr [(''__map_error__'', PStr e), (''_map_index'', PInt (int idx))] else Inl e, w'))"

text \<open>The items in order; \<^verbatim>\<open>asyncio.gather\<close> returns the outcomes in the order of the items.\<close>

fun map_all :: "'w env \<Rightarrow> DagStep \<Rightarrow> string \<Rightarrow> dict \<Rightarrow> nat \<Rightarrow> pyval list \<Rightarrow> 'w \<Rightarrow> (exn + dict) list \<times> 'w" where
  "map_all env step key inp i [] w = ([], w)"
| "map_all env step key inp i (x # xs) w =
     (let (r, w1) = map_one env step key inp x i w;
          (rs, w2) = map_all env step key inp (Suc i) xs w1
      in (r # rs, w2))"

definition map_errors :: "(exn + dict) list \<Rightarrow> exn list" where
  "map_errors rs = concat (map (\<lambda>r. case r of Inl e \<Rightarrow> [e] | Inr _ \<Rightarrow> []) rs)"

definition map_values :: "(exn + dict) list \<Rightarrow> dict list" where
  "map_values rs = concat (map (\<lambda>r. case r of Inl _ \<Rightarrow> [] | Inr d \<Rightarrow> [d]) rs)"

definition run_map :: "'w env \<Rightarrow> DagStep \<Rightarrow> string \<Rightarrow> dict \<Rightarrow> DagContext \<Rightarrow> 'w \<Rightarrow> (exn + dict) \<times> 'w" where
  "run_map env step key inp ctx w =
     (let (rs, w') = map_all env step key inp 0 (map_items key inp ctx) w
      in (if map_errors rs \<noteq> [] \<and> map_error_policy step = ABORT_ALL
          then handle_failure step (hd (map_errors rs))
          else Inr [(''results'', PList (map PDict (map_values rs)))], w'))"
subsection \<open>STREAMING steps\<close>

text \<open>\<^verbatim>\<open>s.replace(old, new)\<close> for a non-empty \<open>old\<close>.\<close>

function py_replace :: "string \<Rightarrow> string \<Rightarrow> string \<Rightarrow> string" where
  "py_replace old new s = (if old = [] \<or> s = [] then s
     else if prefix old s then new @ py_replace old new (drop (length old) s)
     else hd s # py_replace old new (tl s))"
  by pat_completeness auto

termination by (relation "measure (\<lambda>(old, new, s). length s)") auto

declare py_replace.simps [simp del]

definition stream_key :: "StreamingTrigger \<Rightarrow> DagContext \<Rightarrow> string" where
  "stream_key trigger ctx = py_replace ''{task_id}'' (ctx_task_id ctx) (buffer_key trigger)"

text \<open>\<^verbatim>\<open>orjson.loads(raw)\<close>, or the raw text under \<^verbatim>\<open>__raw__\<close>.\<close>

definition load_chunk :: "rval \<Rightarrow> pyval" where
  "load_chunk raw = (case raw of RJson v \<Rightarrow> v | RNum i \<Rightarrow> PInt i
     | RText t \<Rightarrow> PDict [(''__raw__'', PStr t)])"

text \<open>\<^verbatim>\<open>if src in summary: result[dst] = summary[src]\<close>, with the errors of both operations.\<close>

fun map_summary :: "(string \<times> string) list \<Rightarrow> pyval \<Rightarrow> dict \<Rightarrow> exn + dict" where
  "map_summary [] summary result = Inr result"
| "map_summary ((dst, src) # rest) summary result =
     (case py_in (PStr src) summary of
        None \<Rightarrow> Inl ''TypeError''
      | Some False \<Rightarrow> map_summary rest summary result
      | Some True \<Rightarrow> (case summary of
            PDict d \<Rightarrow> map_summary rest summary (dict_set result dst (dict_get d src PNone))
          | _ \<Rightarrow> Inl ''TypeError''))"

definition acc_key :: "string \<Rightarrow> string" where
  "acc_key ds = ''_streaming_results_'' @ ds"

text \<open>
  \<^verbatim>\<open>ctx.context[acc_key].append(ds_result)\<close>; appending to what is not a list raises, which is
  logged and dropped like an error of the dispatch.
\<close>

definition accumulate :: "string \<Rightarrow> dict \<Rightarrow> dict \<Rightarrow> dict" where
  "accumulate ds r vars = (case map_of vars (acc_key ds) of
      None \<Rightarrow> dict_set vars (acc_key ds) (PList [PDict r])
    | Some (PList xs) \<Rightarrow> dict_set vars (acc_key ds) (PList (xs @ [PDict r]))
    | Some _ \<Rightarrow> vars)"

fun fan_out :: "'w env \<Rightarrow> DagStep \<Rightarrow> dict \<Rightarrow> string list \<Rightarrow> dict \<Rightarrow> 'w \<Rightarrow> dict \<times> 'w" where
  "fan_out env step payload [] vars w = (vars, w)"
| "fan_out env step payload (ds # dss) vars w =
     (case dispatch env w (capability step) ds payload of
        (Inr r, w') \<Rightarrow> fan_out env step payload dss (accumulate ds r vars) w'
      | (Inl e, w') \<Rightarrow> fan_out env step payload dss vars w')"

text \<open>
  The \<^verbatim>\<open>while True\<close> loop. \<open>n\<close> is the number of chunks that may still be received: the code
  counts them up to \<^verbatim>\<open>max_chunks\<close> and raises there, so the loop always ends.
\<close>

fun stream_loop ::
  "'w env \<Rightarrow> DagStep \<Rightarrow> StreamingTrigger \<Rightarrow> string \<Rightarrow> dict \<Rightarrow> rat \<Rightarrow> nat \<Rightarrow> dict \<Rightarrow> 'w
   \<Rightarrow> (exn + dict) \<times> dict \<times> 'w" where
  "stream_loop env step trigger key enriched deadline n vars w =
     (if deadline - loop_time env w \<le> 0 then (Inl ''TimeoutError'', vars, delete_buffer env w key)
      else (case n of
        0 \<Rightarrow> (Inl ''RuntimeError'', vars, delete_buffer env w key)
      | Suc n' \<Rightarrow>
         (case async_blpop env w key (min 30 (\<lfloor>deadline - loop_time env w\<rfloor> + 1)) of
            (None, w1) \<Rightarrow> (Inl ''TimeoutError'', vars, w1)
          | (Some raw, w1) \<Rightarrow>
             (case load_chunk raw of
                PDict chunk \<Rightarrow>
                  if truthy (dict_get chunk ''__done__'' PNone) then
                    if truthy (dict_get chunk ''__error__'' PNone) then (Inl ''RuntimeError'', vars, w1)
                    else (case map_summary (output_mapping step) (dict_get chunk ''summary'' (PDict [])) [] of
                        Inl e \<Rightarrow> (Inl e, vars, w1)
                      | Inr result \<Rightarrow>
                          (Inr result, vars, if flush_on_complete trigger then delete_buffer env w1 key else w1))
                  else (case fan_out env step (dict_merge [(''chunk'', PDict chunk)] enriched)
                          (downstream_steps trigger) vars w1 of
                      (vars', w2) \<Rightarrow> stream_loop env step trigger key enriched deadline n' vars' w2)
              | _ \<Rightarrow> (Inl ''AttributeError'', vars, w1)))))"

declare stream_loop.simps [simp del]

definition max_chunks :: nat where
  "max_chunks = 100000"

definition run_streaming_step ::
  "'w env \<Rightarrow> DagStep \<Rightarrow> StreamingTrigger \<Rightarrow> dict \<Rightarrow> DagContext \<Rightarrow> 'w \<Rightarrow> (exn + dict) \<times> dict \<times> 'w" where
  "run_streaming_step env step trigger inp ctx w =
     (let key = stream_key trigger ctx;
          enriched = dict_set inp ''_streaming_buffer_key'' (PStr key)
      in case dispatch env w (capability step) (step_name step) enriched of
           (Inl e, w1) \<Rightarrow> (Inl e, ctx_vars ctx, w1)
         | (Inr r, w1) \<Rightarrow>
             let deadline = loop_time env w1 +
                   (if timeout_seconds step = 0 then 3600 else of_int (timeout_seconds step))
             in stream_loop env step trigger key enriched deadline max_chunks (ctx_vars ctx) w1)"

definition run_streaming ::
  "'w env \<Rightarrow> DagStep \<Rightarrow> StreamingTrigger \<Rightarrow> dict \<Rightarrow> DagContext \<Rightarrow> 'w \<Rightarrow> (exn + dict) \<times> dict \<times> 'w" where
  "run_streaming env step trigger inp ctx w =
     (case run_streaming_step env step trigger inp ctx w of
        (Inr result, vars, w') \<Rightarrow> (Inr result, vars, w')
      | (Inl e, vars, w') \<Rightarrow>
          (handle_failure step e, vars, delete_buffer env w' (stream_key trigger ctx)))"

subsection \<open>One step\<close>

definition is_skipped :: "'w env \<Rightarrow> DagStep \<Rightarrow> DagContext \<Rightarrow> bool" where
  "is_skipped env step ctx = (case condition step of None \<Rightarrow> False
     | Some c \<Rightarrow> c \<noteq> [] \<and> \<not> eval_condition (parse_condition env) c ctx)"

text \<open>The block under the semaphore: the outcome, the context variables, the world.\<close>

definition step_body :: "'w env \<Rightarrow> DagStep \<Rightarrow> dict \<Rightarrow> DagContext \<Rightarrow> 'w \<Rightarrow> (exn + dict) \<times> dict \<times> 'w" where
  "step_body env step inp ctx w =
     (case (step_kind step, map_over step, streaming_trigger step) of
        (MAP, Some (c # cs), _) \<Rightarrow>
          (let (r, w') = run_map env step (c # cs) inp ctx w in (r, ctx_vars ctx, w'))
      | (STREAMING, _, Some trigger) \<Rightarrow> run_streaming env step trigger inp ctx w
      | _ \<Rightarrow> (let (r, w') = run_normal env step inp w in (r, ctx_vars ctx, w')))"

definition mark_completed :: "DagStep \<Rightarrow> DagContext \<Rightarrow> DagContext" where
  "mark_completed step ctx = ctx\<lparr>completed_steps := completed_steps ctx @ [step_name step]\<rparr>"

text \<open>From the end of the block to the end of \<^verbatim>\<open>_run_step\<close>.\<close>

definition commit_step ::
  "'w env \<Rightarrow> DagStep \<Rightarrow> dict \<Rightarrow> DagContext \<Rightarrow> 'w \<Rightarrow> (exn + dict) \<times> DagContext \<times> 'w" where
  "commit_step env step result ctx w =
     (let ctx' = mark_completed step (ctx\<lparr>ctx_vars := apply_output step result (ctx_vars ctx),
                   step_results := dict_set (step_results ctx) (step_name step) (PDict result)\<rparr>);
          (err, w') = save env w ctx'
      in (case err of None \<Rightarrow> Inr result | Some e \<Rightarrow> Inl e, ctx', w'))"

definition finish_step ::
  "'w env \<Rightarrow> DagStep \<Rightarrow> dict \<Rightarrow> DagContext \<Rightarrow> 'w \<Rightarrow> (exn + dict) \<times> DagContext \<times> 'w" where
  "finish_step env step inp ctx w =
     (case step_body env step inp ctx w of
        (Inl e, vars, w') \<Rightarrow> (Inl e, ctx\<lparr>ctx_vars := vars\<rparr>, w')
      | (Inr result, vars, w') \<Rightarrow> commit_step env step result (ctx\<lparr>ctx_vars := vars\<rparr>) w')"

definition run_step :: "'w env \<Rightarrow> DagStep \<Rightarrow> DagContext \<Rightarrow> 'w \<Rightarrow> (exn + dict) \<times> DagContext \<times> 'w" where
  "run_step env step ctx w =
     (if is_skipped env step ctx then (Inr [], mark_completed step ctx, w)
      else finish_step env step (build_input step ctx) ctx w)"

subsection \<open>The DAG\<close>

definition step_map :: "DagStep list \<Rightarrow> string \<rightharpoonup> DagStep" where
  "step_map ss = map_of (rev (map (\<lambda>s. (step_name s, s)) ss))"

definition aborts :: "DagStep list \<Rightarrow> string \<Rightarrow> exn + dict \<Rightarrow> bool" where
  "aborts ss sn res = (isl res \<and> (case step_map ss sn of None \<Rightarrow> False | Some s \<Rightarrow> on_failure s = ABORT))"

fun run_wave ::
  "'w env \<Rightarrow> DagStep list \<Rightarrow> string list \<Rightarrow> DagContext \<Rightarrow> 'w \<Rightarrow> (string \<times> (exn + dict)) list \<times> DagContext \<times> 'w" where
  "run_wave env ss [] ctx w = ([], ctx, w)"
| "run_wave env ss (sn # sns) ctx w =
     (case step_map ss sn of None \<Rightarrow> ([], ctx, w)
      | Some step \<Rightarrow>
          (let (res, ctx1, w1) = run_step env step ctx w;
               (rs, ctx2, w2) = run_wave env ss sns ctx1 w1
           in ((sn, res) # rs, ctx2, w2)))"

fun run_waves :: "'w env \<Rightarrow> DagStep list \<Rightarrow> string list list \<Rightarrow> DagContext \<Rightarrow> 'w \<Rightarrow> DagContext \<times> 'w" where
  "run_waves env ss [] ctx w = (ctx\<lparr>status := DAG_COMPLETED\<rparr>, w)"
| "run_waves env ss (wave # waves) ctx w =
     (let (results, ctx', w') = run_wave env ss wave ctx w
      in if \<exists>(sn, res) \<in> set results. aborts ss sn res then (ctx'\<lparr>status := DAG_FAILED\<rparr>, w')
         else run_waves env ss waves ctx' w')"

text \<open>The context is validated when it is built: a task id must be a string.\<close>

definition initial_ctx :: "DagDefinition \<Rightarrow> dict \<Rightarrow> exn + DagContext" where
  "initial_ctx dag_def initial =
     (case py_or (dict_get initial ''task_id'' PNone) (PStr (dag_id dag_def)) of
        PStr t \<Rightarrow> Inr \<lparr>schema_version = 1, ctx_task_id = t, ctx_dag_id = dag_id dag_def,
          ctx_tenant_id = dag_tenant_id dag_def, input_data = initial, metadata = [],
          ctx_vars = initial, step_results = [], completed_steps = [], status = DAG_RUNNING\<rparr>
      | _ \<Rightarrow> Inl ''ValidationError'')"

definition execute :: "'w env \<Rightarrow> DagDefinition \<Rightarrow> dict \<Rightarrow> 'w \<Rightarrow> (exn + DagContext) \<times> 'w" where
  "execute env dag_def initial w =
     (case initial_ctx dag_def initial of
        Inl e \<Rightarrow> (Inl e, w)
      | Inr ctx \<Rightarrow>
          (let (ctx', w') = run_waves env (steps dag_def) (topo_sort (steps dag_def)) ctx w
           in (Inr ctx', w')))"

end
