(* ===== verification/Dag_Runs.thy ===== *)
theory Dag_Runs
  imports Dag_Engine
begin

text \<open>
  All schedules of a DAG run. \<^verbatim>\<open>execute\<close> starts the steps of a wave as concurrent tasks that
  share the context. A task first reads the context (condition and input), then waits for
  a slot of the semaphore, then runs, and writes the context when it is done; a wave ends
  when all its tasks are done. The step relation lets the tasks of a wave do this in any
  order, and the world change at any time. \<open>execute\<close>, which takes the tasks of a wave one
  after the other, is one of the schedules.
\<close>

datatype phase = Waiting | Prepared dict | Active dict | Finished "exn + dict"

record 'w run =
  waves :: "string list list"
  phases :: "string \<Rightarrow> phase"
  ctx :: DagContext
  world :: 'w

definition active :: "'w run \<Rightarrow> string set" where
  "active st = {sn. \<exists>inp. phases st sn = Active inp}"

definition wave_done :: "'w run \<Rightarrow> string list \<Rightarrow> bool" where
  "wave_done st wave \<longleftrightarrow> (\<forall>sn \<in> set wave. \<exists>r. phases st sn = Finished r)"

definition wave_aborts :: "DagStep list \<Rightarrow> 'w run \<Rightarrow> string list \<Rightarrow> bool" where
  "wave_aborts ss st wave \<longleftrightarrow> (\<exists>sn \<in> set wave. \<exists>r. phases st sn = Finished r \<and> aborts ss sn r)"

inductive dag_step :: "'w env \<Rightarrow> DagStep list \<Rightarrow> nat \<Rightarrow> 'w run \<Rightarrow> 'w run \<Rightarrow> bool" for env ss slots where
  skip: "status (ctx st) = DAG_RUNNING \<Longrightarrow> waves st = wave # ws \<Longrightarrow> sn \<in> set wave \<Longrightarrow>
    phases st sn = Waiting \<Longrightarrow> step_map ss sn = Some s \<Longrightarrow> is_skipped env s (ctx st) \<Longrightarrow>
    dag_step env ss slots st
      (st\<lparr>phases := (phases st)(sn := Finished (Inr [])), ctx := mark_completed s (ctx st)\<rparr>)"
| prepare: "status (ctx st) = DAG_RUNNING \<Longrightarrow> waves st = wave # ws \<Longrightarrow> sn \<in> set wave \<Longrightarrow>
    phases st sn = Waiting \<Longrightarrow> step_map ss sn = Some s \<Longrightarrow> \<not> is_skipped env s (ctx st) \<Longrightarrow>
    dag_step env ss slots st
      (st\<lparr>phases := (phases st)(sn := Prepared (build_input s (ctx st)))\<rparr>)"
| acquire: "status (ctx st) = DAG_RUNNING \<Longrightarrow> waves st = wave # ws \<Longrightarrow> sn \<in> set wave \<Longrightarrow>
    phases st sn = Prepared inp \<Longrightarrow> card (active st) < slots \<Longrightarrow>
    dag_step env ss slots st (st\<lparr>phases := (phases st)(sn := Active inp)\<rparr>)"
| finish: "status (ctx st) = DAG_RUNNING \<Longrightarrow> waves st = wave # ws \<Longrightarrow> sn \<in> set wave \<Longrightarrow>
    phases st sn = Active inp \<Longrightarrow> step_map ss sn = Some s \<Longrightarrow>
    finish_step env s inp (ctx st) (world st) = (r, c', w') \<Longrightarrow>
    dag_step env ss slots st
      (st\<lparr>phases := (phases st)(sn := Finished r), ctx := c', world := w'\<rparr>)"
| barrier: "status (ctx st) = DAG_RUNNING \<Longrightarrow> waves st = wave # ws \<Longrightarrow> wave_done st wave \<Longrightarrow>
    \<not> wave_aborts ss st wave \<Longrightarrow> dag_step env ss slots st (st\<lparr>waves := ws\<rparr>)"
| abort: "status (ctx st) = DAG_RUNNING \<Longrightarrow> waves st = wave # ws \<Longrightarrow> wave_done st wave \<Longrightarrow>
    wave_aborts ss st wave \<Longrightarrow>
    dag_step env ss slots st (st\<lparr>ctx := (ctx st)\<lparr>status := DAG_FAILED\<rparr>\<rparr>)"
| complete: "status (ctx st) = DAG_RUNNING \<Longrightarrow> waves st = [] \<Longrightarrow>
    dag_step env ss slots st (st\<lparr>ctx := (ctx st)\<lparr>status := DAG_COMPLETED\<rparr>\<rparr>)"
| environment: "dag_step env ss slots st (st\<lparr>world := w'\<rparr>)"

definition start_run :: "DagStep list \<Rightarrow> DagContext \<Rightarrow> 'w \<Rightarrow> 'w run" where
  "start_run ss c w = \<lparr>waves = topo_sort ss, phases = (\<lambda>_. Waiting), ctx = c, world = w\<rparr>"

inductive reachable :: "'w env \<Rightarrow> DagStep list \<Rightarrow> nat \<Rightarrow> 'w run \<Rightarrow> bool" for env ss slots where
  start: "status c = DAG_RUNNING \<Longrightarrow> completed_steps c = [] \<Longrightarrow> reachable env ss slots (start_run ss c w)"
| step: "reachable env ss slots st \<Longrightarrow> dag_step env ss slots st st' \<Longrightarrow> reachable env ss slots st'"

subsection \<open>What a step keeps of the context\<close>

lemma mark_completed_simps [simp]:
  "status (mark_completed s c) = status c"
  "completed_steps (mark_completed s c) = completed_steps c @ [step_name s]"
  "ctx_vars (mark_completed s c) = ctx_vars c" "step_results (mark_completed s c) = step_results c"
  "input_data (mark_completed s c) = input_data c"
  by (simp_all add: mark_completed_def)

lemma finish_step_ctx:
  assumes "finish_step env s inp c w = (r, c', w')"
  shows "status c' = status c" and "input_data c' = input_data c"
    and "completed_steps c' = completed_steps c \<or> completed_steps c' = completed_steps c @ [step_name s]"
    and "isl r \<or> completed_steps c' = completed_steps c @ [step_name s]"
  using assms
  by (auto simp: finish_step_def commit_step_def Let_def split: prod.splits sum.splits option.splits)

lemma step_map_name: "step_map ss sn = Some s \<Longrightarrow> s \<in> set ss \<and> step_name s = sn"
  by (auto simp: step_map_def dest: map_of_SomeD)

lemma step_map_distinct:
  "distinct (map step_name ss) \<Longrightarrow> s \<in> set ss \<Longrightarrow> step_map ss (step_name s) = Some s"
  unfolding step_map_def
  by (intro map_of_is_SomeI) (auto simp: rev_map comp_def distinct_map)

subsection \<open>The invariant\<close>

text \<open>Waves before the current one are done and did not abort; later ones have not begun.\<close>

definition inv_waves :: "DagStep list \<Rightarrow> 'w run \<Rightarrow> bool" where
  "inv_waves ss st \<longleftrightarrow> (\<exists>dn. topo_sort ss = dn @ waves st \<and>
     (\<forall>sn \<in> set (concat dn). \<exists>r. phases st sn = Finished r \<and> \<not> aborts ss sn r) \<and>
     (\<forall>sn. phases st sn \<noteq> Waiting \<longrightarrow> sn \<in> set (concat (dn @ take 1 (waves st)))))"

definition inv_slots :: "nat \<Rightarrow> 'w run \<Rightarrow> bool" where
  "inv_slots slots st \<longleftrightarrow> finite (active st) \<and> card (active st) \<le> slots"

definition inv_completed :: "'w run \<Rightarrow> bool" where
  "inv_completed st \<longleftrightarrow> distinct (completed_steps (ctx st)) \<and>
     (\<forall>sn d. phases st sn = Finished (Inr d) \<longrightarrow> sn \<in> set (completed_steps (ctx st))) \<and>
     (\<forall>sn \<in> set (completed_steps (ctx st)). \<exists>r. phases st sn = Finished r)"

definition inv_status :: "DagStep list \<Rightarrow> 'w run \<Rightarrow> bool" where
  "inv_status ss st \<longleftrightarrow> status (ctx st) = DAG_RUNNING \<or>
     status (ctx st) = DAG_COMPLETED \<and> waves st = [] \<or>
     status (ctx st) = DAG_FAILED \<and>
       (\<exists>wave ws. waves st = wave # ws \<and> wave_done st wave \<and> wave_aborts ss st wave)"

lemmas run_defs = wave_done_def wave_aborts_def active_def

lemma inv_waves_local:
  assumes "inv_waves ss st" and "waves st = wave # ws" and "sn \<in> set wave"
    and "distinct (concat (topo_sort ss))"
    and "waves st' = waves st" and "\<forall>x. x \<noteq> sn \<longrightarrow> phases st' x = phases st x"
  shows "inv_waves ss st'"
proof -
  obtain dn where dn: "topo_sort ss = dn @ waves st"
    "\<forall>sn \<in> set (concat dn). \<exists>r. phases st sn = Finished r \<and> \<not> aborts ss sn r"
    "\<forall>sn. phases st sn \<noteq> Waiting \<longrightarrow> sn \<in> set (concat (dn @ take 1 (waves st)))"
    using assms(1) unfolding inv_waves_def by blast
  have "sn \<notin> set (concat dn)" using assms(2-4) dn(1) by auto
  then have "\<forall>x \<in> set (concat dn). \<exists>r. phases st' x = Finished r \<and> \<not> aborts ss x r"
    using dn(2) assms(6) by metis
  moreover have "x \<in> set (concat (dn @ take 1 (waves st')))" if "phases st' x \<noteq> Waiting" for x
    using that dn(3) [rule_format, of x] assms(2,3,5) assms(6) [rule_format, of x]
    by (cases "x = sn") simp_all
  moreover have "topo_sort ss = dn @ waves st'" using dn(1) assms(5) by simp
  ultimately show ?thesis unfolding inv_waves_def by blast
qed

lemma inv_waves_same:
  "inv_waves ss st \<Longrightarrow> waves st' = waves st \<Longrightarrow> phases st' = phases st \<Longrightarrow> inv_waves ss st'"
  unfolding inv_waves_def by (simp only:)

lemma inv_waves_step:
  assumes "dag_step env ss slots st st'" and "distinct (concat (topo_sort ss))" and "inv_waves ss st"
  shows "inv_waves ss st'"
  using assms
proof cases
  case (barrier wave ws)
  obtain dn where dn: "topo_sort ss = dn @ waves st"
    "\<forall>sn \<in> set (concat dn). \<exists>r. phases st sn = Finished r \<and> \<not> aborts ss sn r"
    "\<forall>sn. phases st sn \<noteq> Waiting \<longrightarrow> sn \<in> set (concat (dn @ take 1 (waves st)))"
    using assms(3) unfolding inv_waves_def by blast
  have "\<forall>sn \<in> set (concat (dn @ [wave])). \<exists>r. phases st sn = Finished r \<and> \<not> aborts ss sn r"
    using dn(2) barrier by (auto simp: run_defs)
  moreover have "\<forall>sn. phases st sn \<noteq> Waiting \<longrightarrow> sn \<in> set (concat ((dn @ [wave]) @ take 1 ws))"
    using dn(3) barrier by auto
  ultimately show ?thesis
    unfolding inv_waves_def using dn(1) barrier by (intro exI [of _ "dn @ [wave]"]) simp
next
  case (skip wave ws sn s)
  then show ?thesis by (intro inv_waves_local [OF assms(3) _ _ assms(2)]) simp_all
next
  case (prepare wave ws sn s)
  then show ?thesis by (intro inv_waves_local [OF assms(3) _ _ assms(2)]) simp_all
next
  case (acquire wave ws sn inp)
  then show ?thesis by (intro inv_waves_local [OF assms(3) _ _ assms(2)]) simp_all
next
  case (finish wave ws sn inp s r c' w')
  then show ?thesis by (intro inv_waves_local [OF assms(3) _ _ assms(2)]) simp_all
qed (rule inv_waves_same [OF assms(3)]; simp)+

lemma inv_slots_step:
  assumes "dag_step env ss slots st st'" and "inv_slots slots st"
  shows "inv_slots slots st'"
proof (cases "active st' \<subseteq> active st")
  case True
  then show ?thesis
    using assms(2) unfolding inv_slots_def by (meson card_mono finite_subset order_trans)
next
  case False
  with assms(1) obtain sn where "active st' = insert sn (active st)" and "card (active st) < slots"
  proof cases
    case (acquire wave ws sn inp)
    then have "active st' = insert sn (active st)" by (auto simp: active_def)
    with acquire that show thesis by blast
  qed (auto simp: active_def split: if_splits)
  then show ?thesis
    using assms(2) by (simp add: inv_slots_def card_insert_if)
qed

lemma inv_completed_step:
  assumes "dag_step env ss slots st st'" and "inv_completed st"
  shows "inv_completed st'"
  using assms(1)
proof cases
  case (skip wave ws sn s)
  then have "sn \<notin> set (completed_steps (ctx st))"
    using assms(2) by (auto simp: inv_completed_def)
  then show ?thesis
    using assms(2) skip step_map_name [OF skip(6)] by (auto simp: inv_completed_def)
next
  case (finish wave ws sn inp s r c' w')
  have "sn \<notin> set (completed_steps (ctx st))"
    using assms(2) finish by (auto simp: inv_completed_def)
  then show ?thesis
    using assms(2) finish step_map_name [OF finish(6)] finish_step_ctx(3,4) [OF finish(7)]
    by (auto simp: inv_completed_def)
qed (use assms(2) in \<open>auto simp: inv_completed_def split: if_splits\<close>)

lemma inv_status_step:
  assumes "dag_step env ss slots st st'" and "inv_status ss st"
  shows "inv_status ss st'"
  using assms(1)
  by cases (use assms(2) in \<open>auto simp: inv_status_def run_defs finish_step_ctx(1)\<close>)

lemma reachable_invs:
  assumes "distinct (map step_name ss)" and "reachable env ss slots st"
  shows "inv_waves ss st \<and> inv_slots slots st \<and> inv_completed st \<and> inv_status ss st"
  using assms(2)
proof induction
  case (start c w)
  then show ?case
    by (simp add: start_run_def inv_waves_def inv_slots_def inv_completed_def inv_status_def active_def)
next
  case (step st st')
  have "distinct (concat (topo_sort ss))"
    using topo_sort_waves [OF assms(1)] by (simp add: waves_ok_def)
  with step show ?case
    using inv_waves_step inv_slots_step inv_completed_step inv_status_step by metis
qed

lemma inv_waves_started:
  assumes "inv_waves ss st" and "phases st n \<noteq> Waiting"
  shows "n \<in> set (concat (topo_sort ss))"
proof -
  obtain dn where "topo_sort ss = dn @ waves st" "n \<in> set (concat (dn @ take 1 (waves st)))"
    using assms unfolding inv_waves_def by blast
  then show ?thesis by (auto dest: in_set_takeD)
qed

lemma waves_in_steps:
  assumes "distinct (map step_name ss)" and "inv_waves ss st" and "waves st = wave # ws" and "sn \<in> set wave"
  shows "\<exists>s. step_map ss sn = Some s"
proof -
  have "sn \<in> set (concat (topo_sort ss))"
    using assms(2-4) by (auto simp: inv_waves_def)
  then have "sn \<in> step_name ` set ss"
    unfolding topo_sort_runnable [OF assms(1)] by (simp add: runnable_step)
  then show ?thesis using step_map_distinct [OF assms(1)] by auto
qed

subsection \<open>Safety\<close>

lemma inv_waves_dependencies:
  assumes "distinct (map step_name ss)" and "inv_waves ss st"
    and "phases st n \<noteq> Waiting" and "edges ss n = Some ds" and "d \<in> set ds"
  shows "\<exists>r. phases st d = Finished r \<and> \<not> aborts ss d r"
proof -
  obtain dn where dn: "topo_sort ss = dn @ waves st"
    "\<forall>sn \<in> set (concat dn). \<exists>r. phases st sn = Finished r \<and> \<not> aborts ss sn r"
    "n \<in> set (concat (dn @ take 1 (waves st)))"
    using assms(2,3) unfolding inv_waves_def by blast
  let ?ws = "topo_sort ss"
  let ?k = "min (Suc (length dn)) (length ?ws)"
  have "dn @ take 1 (waves st) = take ?k ?ws"
    using dn(1) by (cases "waves st") simp_all
  then obtain i where i: "i \<le> length dn" "i < length ?ws" "n \<in> set (?ws ! i)"
    using dn(3) in_concat_take [of ?k ?ws n] by (auto simp: less_Suc_eq_le)
  obtain ds' where "edges ss n = Some ds'" "set ds' \<subseteq> set (concat (take i ?ws))"
    using waves_ok_member [OF topo_sort_waves [OF assms(1)] i(2,3)] .
  then have "d \<in> set (concat (take i ?ws))" using assms(4,5) by auto
  moreover have "set (concat (take i ?ws)) \<subseteq> set (concat dn)"
    using i(1) dn(1) by (auto dest: in_set_takeD)
  ultimately show ?thesis using dn(2) by blast
qed

text \<open>
  C9. No step starts before its dependencies are done, in every schedule: once a step has
  read the context (or was skipped, or is running or done), each of its dependencies has
  finished and did not fail with the policy to abort.
\<close>

theorem dag_dependencies_first:
  assumes "distinct (map step_name ss)" and "reachable env ss slots st"
    and "phases st n \<noteq> Waiting" and "edges ss n = Some ds" and "d \<in> set ds"
  shows "\<exists>r. phases st d = Finished r \<and> \<not> aborts ss d r"
  using inv_waves_dependencies reachable_invs assms by blast

text \<open>
  C10. How a run ends, in every schedule. A run that reports COMPLETED has finished exactly
  the runnable steps and none of them failed with the policy to abort; a run that reports
  FAILED has a step that did. A step never completes twice, every step with a result is in
  the list of completed steps, and at most as many steps as there are slots run at once.
\<close>

theorem dag_run_outcome:
  assumes "distinct (map step_name ss)" and "reachable env ss slots st"
  shows "(status (ctx st) = DAG_COMPLETED \<longrightarrow>
      (\<forall>n. runnable ss n \<longleftrightarrow> (\<exists>r. phases st n = Finished r)) \<and>
      (\<forall>n r. phases st n = Finished r \<longrightarrow> \<not> aborts ss n r)) \<and>
    (status (ctx st) = DAG_FAILED \<longrightarrow> (\<exists>n r. phases st n = Finished r \<and> aborts ss n r)) \<and>
    distinct (completed_steps (ctx st)) \<and>
    (\<forall>n d. phases st n = Finished (Inr d) \<longrightarrow> n \<in> set (completed_steps (ctx st))) \<and>
    card (active st) \<le> slots"
proof -
  note invs = reachable_invs [OF assms]
  have "(\<forall>n. runnable ss n \<longleftrightarrow> (\<exists>r. phases st n = Finished r)) \<and>
      (\<forall>n r. phases st n = Finished r \<longrightarrow> \<not> aborts ss n r)" if "status (ctx st) = DAG_COMPLETED"
  proof -
    have "waves st = []" using invs that by (auto simp: inv_status_def)
    with invs have fin: "\<forall>sn \<in> set (concat (topo_sort ss)). \<exists>r. phases st sn = Finished r \<and> \<not> aborts ss sn r"
      and all: "\<forall>sn. phases st sn \<noteq> Waiting \<longrightarrow> sn \<in> set (concat (topo_sort ss))"
      by (auto simp: inv_waves_def)
    show ?thesis
      using fin all topo_sort_runnable [OF assms(1)] by (metis mem_Collect_eq phase.distinct(5) phase.inject(3))
  qed
  moreover have "\<exists>n r. phases st n = Finished r \<and> aborts ss n r" if "status (ctx st) = DAG_FAILED"
    using invs that by (auto simp: inv_status_def wave_aborts_def)
  ultimately show ?thesis
    using invs by (simp add: inv_completed_def inv_slots_def)
qed

subsection \<open>Progress and termination\<close>

fun work :: "phase \<Rightarrow> nat" where
  "work Waiting = 3" | "work (Prepared _) = 2" | "work (Active _) = 1" | "work (Finished _) = 0"

definition remaining :: "DagStep list \<Rightarrow> 'w run \<Rightarrow> nat" where
  "remaining ss st = (\<Sum>n \<in> set (concat (topo_sort ss)). work (phases st n)) + length (waves st) +
     (if status (ctx st) = DAG_RUNNING then 1 else 0)"

lemma remaining_phase:
  assumes "sn \<in> set (concat (topo_sort ss))" and "work p < work (phases st sn)"
    and "phases st' = (phases st)(sn := p)" and "waves st' = waves st" and "status (ctx st') = status (ctx st)"
  shows "remaining ss st' < remaining ss st"
proof -
  have "(\<Sum>n \<in> set (concat (topo_sort ss)). work (phases st' n)) <
      (\<Sum>n \<in> set (concat (topo_sort ss)). work (phases st n))"
    using assms(1,2,3) by (intro sum_strict_mono_ex1) auto
  then show ?thesis by (simp add: remaining_def assms(4,5))
qed

lemma dag_step_remaining:
  assumes "dag_step env ss slots st st'" and "inv_waves ss st"
  shows "(\<exists>w. st' = st\<lparr>world := w\<rparr>) \<or> remaining ss st' < remaining ss st"
proof -
  have mem: "sn \<in> set (concat (topo_sort ss))" if "waves st = wave # ws" "sn \<in> set wave" for sn wave ws
    using assms(2) that by (auto simp: inv_waves_def)
  show ?thesis
    using assms(1)
  proof cases
    case (skip wave ws sn s)
    then have "remaining ss st' < remaining ss st"
      by (intro remaining_phase [OF mem [OF skip(3,4)]]) simp_all
    then show ?thesis ..
  next
    case (prepare wave ws sn s)
    then have "remaining ss st' < remaining ss st"
      by (intro remaining_phase [OF mem [OF prepare(3,4)]]) simp_all
    then show ?thesis ..
  next
    case (acquire wave ws sn inp)
    then have "remaining ss st' < remaining ss st"
      by (intro remaining_phase [OF mem [OF acquire(3,4)]]) simp_all
    then show ?thesis ..
  next
    case (finish wave ws sn inp s r c' w')
    then have "remaining ss st' < remaining ss st"
      using finish_step_ctx(1) [OF finish(7)]
      by (intro remaining_phase [OF mem [OF finish(3,4)]]) simp_all
    then show ?thesis ..
  next
    case (environment w')
    then show ?thesis by blast
  qed (simp_all add: remaining_def)
qed

lemma dag_not_stuck:
  assumes "distinct (map step_name ss)" and "inv_waves ss st" and "status (ctx st) = DAG_RUNNING" and "0 < slots"
  shows "\<exists>st'. dag_step env ss slots st st' \<and> remaining ss st' < remaining ss st"
proof -
  have "\<exists>st'. dag_step env ss slots st st' \<and> (\<forall>w. st' \<noteq> st\<lparr>world := w\<rparr>)"
  proof (cases "waves st")
    case Nil
    then have "dag_step env ss slots st (st\<lparr>ctx := (ctx st)\<lparr>status := DAG_COMPLETED\<rparr>\<rparr>)"
      using assms(3) by (intro dag_step.complete)
    moreover have "st\<lparr>ctx := (ctx st)\<lparr>status := DAG_COMPLETED\<rparr>\<rparr> \<noteq> st\<lparr>world := w\<rparr>" for w
      using assms(3) by (auto dest: arg_cong [where f = "\<lambda>s. status (ctx s)"])
    ultimately show ?thesis by blast
  next
    case (Cons wave ws)
    have steps: "\<exists>s. step_map ss sn = Some s" if "sn \<in> set wave" for sn
      using waves_in_steps [OF assms(1,2) Cons that] .
    have moved: "\<exists>st'. dag_step env ss slots st st' \<and> (\<forall>w. st' \<noteq> st\<lparr>world := w\<rparr>)"
      if "dag_step env ss slots st st'" and "phases st' sn = p" and "p \<noteq> phases st sn" for st' sn p
    proof -
      have "st' \<noteq> st\<lparr>world := w\<rparr>" for w using that(2,3) by auto
      with that(1) show ?thesis by blast
    qed
    consider sn where "sn \<in> set wave" "phases st sn = Waiting"
      | sn inp where "sn \<in> set wave" "phases st sn = Active inp"
      | sn inp where "sn \<in> set wave" "phases st sn = Prepared inp" "\<forall>n \<in> set wave. \<forall>i. phases st n \<noteq> Active i"
      | "wave_done st wave"
      unfolding wave_done_def by (metis phase.exhaust)
    then show ?thesis
    proof cases
      case 1
      with steps obtain s where s: "step_map ss sn = Some s" by blast
      show ?thesis
      proof (cases "is_skipped env s (ctx st)")
        case True
        from dag_step.skip [OF assms(3) Cons 1 s True] show ?thesis
          by (rule moved [where p = "Finished (Inr [])" and sn = sn]) (simp_all add: 1(2))
      next
        case False
        from dag_step.prepare [OF assms(3) Cons 1 s False] show ?thesis
          by (rule moved [where p = "Prepared (build_input s (ctx st))" and sn = sn]) (simp_all add: 1(2))
      qed
    next
      case 2
      with steps obtain s where s: "step_map ss sn = Some s" by blast
      obtain r c' w' where "finish_step env s inp (ctx st) (world st) = (r, c', w')"
        by (metis prod_cases3)
      from dag_step.finish [OF assms(3) Cons 2 s this] show ?thesis
        by (rule moved [where p = "Finished r" and sn = sn]) (simp_all add: 2(2))
    next
      case 3
      have "active st = {}"
      proof -
        have "n \<in> set wave" if act: "phases st n = Active i" for n i
        proof -
          have "phases st n \<noteq> Waiting" using act by simp
          then obtain dn where "\<forall>sn \<in> set (concat dn). \<exists>r. phases st sn = Finished r \<and> \<not> aborts ss sn r"
            "n \<in> set (concat (dn @ take 1 (waves st)))"
            using assms(2) unfolding inv_waves_def by blast
          moreover have "\<not> (\<exists>r. phases st n = Finished r)" using act by simp
          ultimately have "n \<notin> set (concat dn)" "n \<in> set (concat dn) \<union> set wave"
            using Cons by (blast, simp)
          then show ?thesis by blast
        qed
        with 3(3) show ?thesis by (auto simp: active_def)
      qed
      then have "card (active st) < slots" using assms(4) by simp
      from dag_step.acquire [OF assms(3) Cons 3(1,2) this] show ?thesis
        by (rule moved [where p = "Active inp" and sn = sn]) (simp_all add: 3(2))
    next
      case 4
      show ?thesis
      proof (cases "wave_aborts ss st wave")
        case True
        from dag_step.abort [OF assms(3) Cons 4 True]
        have "dag_step env ss slots st (st\<lparr>ctx := (ctx st)\<lparr>status := DAG_FAILED\<rparr>\<rparr>)" .
        moreover have "st\<lparr>ctx := (ctx st)\<lparr>status := DAG_FAILED\<rparr>\<rparr> \<noteq> st\<lparr>world := w\<rparr>" for w
          using assms(3) by (auto dest: arg_cong [where f = "\<lambda>s. status (ctx s)"])
        ultimately show ?thesis by blast
      next
        case False
        from dag_step.barrier [OF assms(3) Cons 4 False] have "dag_step env ss slots st (st\<lparr>waves := ws\<rparr>)" .
        moreover have "st\<lparr>waves := ws\<rparr> \<noteq> st\<lparr>world := w\<rparr>" for w
          using Cons by (auto dest: arg_cong [where f = waves])
        ultimately show ?thesis by blast
      qed
    qed
  qed
  then show ?thesis using dag_step_remaining [OF _ assms(2)] by blast
qed

text \<open>
  C13. A run always makes progress and ends. In every reachable state of a running DAG some
  task can take a step (with at least one slot there is no deadlock), and every step, apart
  from changes of the world, decreases a measure, so that a run has only finitely many.
\<close>

theorem dag_run_terminates:
  assumes "distinct (map step_name ss)" and "reachable env ss slots st"
  shows "(status (ctx st) = DAG_RUNNING \<and> 0 < slots \<longrightarrow>
      (\<exists>st'. dag_step env ss slots st st' \<and> remaining ss st' < remaining ss st)) \<and>
    (\<forall>st'. dag_step env ss slots st st' \<longrightarrow>
      (\<exists>w. st' = st\<lparr>world := w\<rparr>) \<or> remaining ss st' < remaining ss st)"
  using dag_not_stuck dag_step_remaining reachable_invs assms by blast

subsection \<open>The sequential schedule\<close>

lemma reachable_steps:
  "(dag_step env ss slots)\<^sup>*\<^sup>* st st' \<Longrightarrow> reachable env ss slots st \<Longrightarrow> reachable env ss slots st'"
  by (induction rule: rtranclp_induct) (blast intro: reachable.step)+

lemma run_step_steps:
  assumes "status (ctx st) = DAG_RUNNING" and "waves st = wave # ws" and "sn \<in> set wave"
    and "phases st sn = Waiting" and "step_map ss sn = Some s" and "active st = {}" and "0 < slots"
    and "run_step env s (ctx st) (world st) = (r, c', w')"
  shows "(dag_step env ss slots)\<^sup>*\<^sup>* st (st\<lparr>phases := (phases st)(sn := Finished r), ctx := c', world := w'\<rparr>)"
proof (cases "is_skipped env s (ctx st)")
  case True
  then have "r = Inr []" "c' = mark_completed s (ctx st)" "w' = world st"
    using assms(8) by (auto simp: run_step_def)
  with dag_step.skip [OF assms(1-5) True] show ?thesis by auto
next
  case False
  let ?inp = "build_input s (ctx st)"
  let ?st1 = "st\<lparr>phases := (phases st)(sn := Prepared ?inp)\<rparr>"
  let ?st2 = "?st1\<lparr>phases := (phases ?st1)(sn := Active ?inp)\<rparr>"
  have "active ?st1 = {}" using assms(6) by (auto simp: active_def)
  then have card: "card (active ?st1) < slots" using assms(7) by simp
  have fin: "finish_step env s ?inp (ctx st) (world st) = (r, c', w')"
    using assms(8) False by (simp add: run_step_def)
  have "dag_step env ss slots st ?st1"
    by (rule dag_step.prepare [OF assms(1-5) False])
  moreover have "dag_step env ss slots ?st1 ?st2"
    by (rule dag_step.acquire [where wave = wave]) (use assms card in simp_all)
  moreover have "dag_step env ss slots ?st2
      (?st2\<lparr>phases := (phases ?st2)(sn := Finished r), ctx := c', world := w'\<rparr>)"
    by (rule dag_step.finish [where wave = wave]) (use assms fin in simp_all)
  ultimately show ?thesis by (auto intro: converse_rtranclp_into_rtranclp)
qed

lemma run_step_status: "run_step env s c w = (r, c', w') \<Longrightarrow> status c' = status c"
  by (auto simp: run_step_def finish_step_ctx(1) split: if_splits)

lemma run_wave_steps:
  assumes "status (ctx st) = DAG_RUNNING" and "waves st = wave # ws" and "set sns \<subseteq> set wave"
    and "distinct sns" and "\<forall>sn \<in> set sns. phases st sn = Waiting \<and> step_map ss sn \<noteq> None"
    and "active st = {}" and "0 < slots"
    and "run_wave env ss sns (ctx st) (world st) = (rs, c', w')"
  shows "\<exists>st'. (dag_step env ss slots)\<^sup>*\<^sup>* st st' \<and> waves st' = waves st \<and> ctx st' = c' \<and> world st' = w' \<and>
    status c' = DAG_RUNNING \<and> active st' = {} \<and> map fst rs = sns \<and>
    (\<forall>(sn, r) \<in> set rs. phases st' sn = Finished r) \<and> (\<forall>sn. sn \<notin> set sns \<longrightarrow> phases st' sn = phases st sn)"
  using assms
proof (induction sns arbitrary: st rs)
  case Nil
  then show ?case by (intro exI [of _ st]) simp
next
  case (Cons sn sns)
  obtain s where s: "step_map ss sn = Some s" using Cons.prems(5) by auto
  obtain r c1 w1 where r: "run_step env s (ctx st) (world st) = (r, c1, w1)" by (metis prod_cases3)
  obtain rs' c2 w2 where rs': "run_wave env ss sns c1 w1 = (rs', c2, w2)" by (metis prod_cases3)
  have res: "rs = (sn, r) # rs'" "c' = c2" "w' = w2"
    using Cons.prems(8) by (simp_all add: s r rs')
  let ?st = "st\<lparr>phases := (phases st)(sn := Finished r), ctx := c1, world := w1\<rparr>"
  have "(dag_step env ss slots)\<^sup>*\<^sup>* st ?st"
    using Cons.prems s r by (intro run_step_steps [where wave = wave]) simp_all
  moreover have "active ?st = {}" using Cons.prems(6) by (auto simp: active_def split: if_splits)
  moreover obtain st' where st': "(dag_step env ss slots)\<^sup>*\<^sup>* ?st st'" "waves st' = waves st" "ctx st' = c2"
    "world st' = w2" "status c2 = DAG_RUNNING" "active st' = {}" "map fst rs' = sns"
    "\<forall>(sn, r) \<in> set rs'. phases st' sn = Finished r" "\<forall>x. x \<notin> set sns \<longrightarrow> phases st' x = phases ?st x"
  proof -
    have "\<forall>x \<in> set sns. phases ?st x = Waiting \<and> step_map ss x \<noteq> None"
      using Cons.prems(4,5) by auto
    from Cons.IH [OF _ _ _ _ this, of rs']
    have "\<exists>st'. (dag_step env ss slots)\<^sup>*\<^sup>* ?st st' \<and> waves st' = waves ?st \<and> ctx st' = c2 \<and> world st' = w2 \<and>
        status c2 = DAG_RUNNING \<and> active st' = {} \<and> map fst rs' = sns \<and>
        (\<forall>(sn, r) \<in> set rs'. phases st' sn = Finished r) \<and> (\<forall>x. x \<notin> set sns \<longrightarrow> phases st' x = phases ?st x)"
      using Cons.prems(1-4,7) run_step_status [OF r] rs' \<open>active ?st = {}\<close> res by simp
    then show thesis using that by (elim exE conjE) simp
  qed
  ultimately show ?case
    using res Cons.prems(4) by (intro exI [of _ st']) auto
qed

lemma run_waves_steps:
  assumes "distinct (map step_name ss)" and "0 < slots"
  shows "reachable env ss slots st \<Longrightarrow> status (ctx st) = DAG_RUNNING \<Longrightarrow> waves st = ws \<Longrightarrow> active st = {} \<Longrightarrow>
    (\<forall>sn \<in> set (concat ws). phases st sn = Waiting) \<Longrightarrow>
    run_waves env ss ws (ctx st) (world st) = (c', w') \<Longrightarrow>
    \<exists>st'. reachable env ss slots st' \<and> ctx st' = c' \<and> world st' = w' \<and> status c' \<noteq> DAG_RUNNING"
proof (induction ws arbitrary: st)
  case Nil
  then show ?case
    by (intro exI [of _ "st\<lparr>ctx := (ctx st)\<lparr>status := DAG_COMPLETED\<rparr>\<rparr>"])
       (auto intro: reachable.step dag_step.complete)
next
  case (Cons wave ws)
  note inv = reachable_invs [OF assms(1) Cons.prems(1)]
  have dist: "distinct (concat (wave # ws))"
  proof -
    obtain dn where "topo_sort ss = dn @ wave # ws"
      using inv Cons.prems(3) by (auto simp: inv_waves_def)
    moreover have "distinct (concat (topo_sort ss))"
      using topo_sort_waves [OF assms(1)] by (simp add: waves_ok_def)
    ultimately show ?thesis by simp
  qed
  obtain rs c1 w1 where rw: "run_wave env ss wave (ctx st) (world st) = (rs, c1, w1)" by (metis prod_cases3)
  have "\<forall>sn \<in> set wave. phases st sn = Waiting \<and> step_map ss sn \<noteq> None"
    using waves_in_steps [OF assms(1) inv [THEN conjunct1] Cons.prems(3)] Cons.prems(5) by auto
  then obtain st1 where st1: "(dag_step env ss slots)\<^sup>*\<^sup>* st st1" "waves st1 = wave # ws" "ctx st1 = c1"
    "world st1 = w1" "status c1 = DAG_RUNNING" "active st1 = {}" "map fst rs = wave"
    "\<forall>(sn, r) \<in> set rs. phases st1 sn = Finished r" "\<forall>sn. sn \<notin> set wave \<longrightarrow> phases st1 sn = phases st sn"
    using run_wave_steps [of st wave ws wave ss slots env rs c1 w1] Cons.prems dist assms(2) rw by auto
  have reach: "reachable env ss slots st1"
    using reachable_steps [OF st1(1) Cons.prems(1)] .
  have member: "\<exists>r. (sn, r) \<in> set rs" if "sn \<in> set wave" for sn
    using st1(7) that by force
  have fin: "phases st1 sn = Finished r" "sn \<in> set wave" if "(sn, r) \<in> set rs" for sn r
    using st1(7,8) that by (auto simp flip: st1(7) intro: rev_image_eqI)
  have wd: "wave_done st1 wave"
    unfolding wave_done_def using member fin(1) by blast
  have wa: "wave_aborts ss st1 wave \<longleftrightarrow> (\<exists>(sn, r) \<in> set rs. aborts ss sn r)"
    unfolding wave_aborts_def using member fin by fastforce
  show ?case
  proof (cases "wave_aborts ss st1 wave")
    case True
    then have "c' = c1\<lparr>status := DAG_FAILED\<rparr>" "w' = w1"
      using Cons.prems(6) by (simp_all add: rw flip: wa)
    moreover have "reachable env ss slots (st1\<lparr>ctx := (ctx st1)\<lparr>status := DAG_FAILED\<rparr>\<rparr>)"
      using dag_step.abort [OF _ st1(2) wd True] st1(3,5) by (intro reachable.step [OF reach]) simp
    ultimately show ?thesis
      using st1(3,4) by (intro exI [of _ "st1\<lparr>ctx := (ctx st1)\<lparr>status := DAG_FAILED\<rparr>\<rparr>"]) simp
  next
    case False
    let ?st = "st1\<lparr>waves := ws\<rparr>"
    have "reachable env ss slots ?st"
      using dag_step.barrier [OF _ st1(2) wd False] st1(3,5) by (intro reachable.step [OF reach]) simp
    moreover have "run_waves env ss ws c1 w1 = (c', w')"
      using Cons.prems(6) False by (simp add: rw flip: wa)
    moreover have "\<forall>sn \<in> set (concat ws). phases st1 sn = Waiting"
    proof
      fix sn
      assume sn: "sn \<in> set (concat ws)"
      then have "sn \<notin> set wave" using dist by auto
      then have "phases st1 sn = phases st sn" using st1(9) by blast
      then show "phases st1 sn = Waiting" using Cons.prems(5) sn by simp
    qed
    moreover have "active ?st = {}" using st1(6) by (simp add: active_def)
    ultimately show ?thesis
      using Cons.IH [of ?st] st1(3,4,5) by simp
  qed
qed


subsection \<open>A run\<close>

text \<open>A world that logs the dispatched steps; the step \<^verbatim>\<open>asr\<close> always fails.\<close>

definition demo_env :: "string list env" where
  "demo_env = \<lparr>dispatch = (\<lambda>w cap sn inp. (if sn = ''asr'' then Inl ''boom'' else Inr [(''out'', PStr sn)], w @ [sn])),
     flask_dispatch = (\<lambda>w url inp. (Inr [], w)), sleep = (\<lambda>w d. w), save = (\<lambda>w c. (None, w)),
     async_blpop = (\<lambda>w k t. (None, w)), delete_buffer = (\<lambda>w k. w), loop_time = (\<lambda>w. 0),
     parse_condition = (\<lambda>s. None)\<rparr>"

abbreviation demo_dag :: DagDefinition where
  "demo_dag \<equiv> new_DagDefinition ''d'' demo_steps"

lemma demo_dag_distinct: "distinct (map step_name (steps demo_dag))"
  by code_simp

lemma demo_execute:
  "map_prod (map_sum id (\<lambda>c. (status c, completed_steps c))) id (execute demo_env demo_dag [] []) =
     (Inr (DAG_FAILED, [''load'', ''ocr'']), [''load'', ''ocr'', ''asr''])"
  by code_simp


abbreviation demo_start :: "string list run" where
  "demo_start \<equiv> start_run demo_steps (demo_ctx []) []"

abbreviation demo_prepared :: "string list run" where
  "demo_prepared \<equiv> demo_start\<lparr>phases := (phases demo_start)(''load'' := Prepared [])\<rparr>"

lemma demo_start_reachable: "reachable demo_env demo_steps 1 demo_start"
  by (rule reachable.start) (simp_all add: demo_ctx_def)

lemma demo_prepared_reachable: "reachable demo_env demo_steps 1 demo_prepared"
proof (rule reachable.step [OF demo_start_reachable])
  have s: "step_map demo_steps ''load'' = Some (new_DagStep ''load'' ''io'')"
    by code_simp
  have "dag_step demo_env demo_steps 1 demo_start (demo_start\<lparr>phases := (phases demo_start)
      (''load'' := Prepared (build_input (new_DagStep ''load'' ''io'') (ctx demo_start)))\<rparr>)"
    by (rule dag_step.prepare [where wave = "[''load'']" and ws = "[[''ocr'', ''asr''], [''merge'']]"])
       (simp_all add: s start_run_def demo_topo demo_ctx_def is_skipped_def new_DagStep_def)
  then show "dag_step demo_env demo_steps 1 demo_start demo_prepared"
    by (simp add: build_input_def new_DagStep_def start_run_def demo_ctx_def)
qed

theorem dag_run_outcome_witness:
  "card (active demo_prepared) \<le> 1 \<and> distinct (completed_steps (ctx demo_prepared))"
  using dag_run_outcome [OF demo_steps_distinct demo_prepared_reachable] by blast

theorem dag_run_terminates_witness:
  "\<exists>st'. dag_step demo_env demo_steps 1 demo_prepared st' \<and>
     remaining demo_steps st' < remaining demo_steps demo_prepared"
proof -
  have "status (ctx demo_prepared) = DAG_RUNNING" by (simp add: start_run_def demo_ctx_def)
  then show ?thesis
    using dag_run_terminates [OF demo_steps_distinct demo_prepared_reachable] by simp
qed

lemma demo_second_wave:
  "\<exists>st. reachable demo_env demo_steps 1 st \<and> phases st ''ocr'' \<noteq> Waiting"
proof -
  let ?s = "new_DagStep ''load'' ''io''"
  let ?o = "(new_DagStep ''ocr'' ''gpu'')\<lparr>depends_on := [''load'']\<rparr>"
  have maps: "step_map demo_steps ''load'' = Some ?s" "step_map demo_steps ''ocr'' = Some ?o"
    by code_simp+
  obtain r c1 w1 where r: "run_step demo_env ?s (ctx demo_start) (world demo_start) = (r, c1, w1)"
    by (metis prod_cases3)
  have "isl (fst (run_step demo_env ?s (demo_ctx []) [])) = False" by code_simp
  then have ok: "\<not> isl r" using r by (simp add: start_run_def)
  let ?st1 = "demo_start\<lparr>phases := (phases demo_start)(''load'' := Finished r), ctx := c1, world := w1\<rparr>"
  let ?st2 = "?st1\<lparr>waves := [[''ocr'', ''asr''], [''merge'']]\<rparr>"
  have run: "status c1 = DAG_RUNNING" using run_step_status [OF r] by (simp add: start_run_def demo_ctx_def)
  have "(dag_step demo_env demo_steps 1)\<^sup>*\<^sup>* demo_start ?st1"
    by (rule run_step_steps [OF _ _ _ _ maps(1) _ _ r, where wave = "[''load'']"])
       (simp_all add: start_run_def demo_ctx_def demo_topo active_def)
  then have "reachable demo_env demo_steps 1 ?st1" using reachable_steps demo_start_reachable by blast
  moreover have "dag_step demo_env demo_steps 1 ?st1 ?st2"
    by (rule dag_step.barrier [where wave = "[''load'']"])
       (use run ok in \<open>simp_all add: start_run_def demo_topo wave_done_def wave_aborts_def aborts_def\<close>)
  moreover have "dag_step demo_env demo_steps 1 ?st2
      (?st2\<lparr>phases := (phases ?st2)(''ocr'' := Prepared (build_input ?o (ctx ?st2)))\<rparr>)"
    by (rule dag_step.prepare [where wave = "[''ocr'', ''asr'']"])
       (use run maps in \<open>simp_all add: start_run_def is_skipped_def new_DagStep_def\<close>)
  ultimately have "reachable demo_env demo_steps 1
      (?st2\<lparr>phases := (phases ?st2)(''ocr'' := Prepared (build_input ?o (ctx ?st2)))\<rparr>)"
    by (blast intro: reachable.step)
  then show ?thesis by (intro exI conjI) (assumption, simp)
qed

theorem dag_dependencies_first_witness:
  "\<exists>st. reachable demo_env demo_steps 1 st \<and> phases st ''ocr'' \<noteq> Waiting \<and>
     (\<exists>r. phases st ''load'' = Finished r \<and> \<not> aborts demo_steps ''load'' r)"
proof -
  obtain st where st: "reachable demo_env demo_steps 1 st" "phases st ''ocr'' \<noteq> Waiting"
    using demo_second_wave by blast
  have "edges demo_steps ''ocr'' = Some [''load'']" by code_simp
  from dag_dependencies_first [OF demo_steps_distinct st this, of "''load''"] st show ?thesis by auto
qed

end
