(* ===== verification/Dag_Steps.thy ===== *)
theory Dag_Steps
  imports Dag_Engine
begin

text \<open>
  What one step does: retries and the failure policy, scatter and gather, streaming, and
  the effect on the shared context.
\<close>

subsection \<open>Retries\<close>

text \<open>The outcomes of the attempts that are made, the last one first to succeed if any does.\<close>

fun attempt_outcomes :: "'w env \<Rightarrow> DagStep \<Rightarrow> dict \<Rightarrow> nat \<Rightarrow> 'w \<Rightarrow> (exn + dict) list" where
  "attempt_outcomes env step inp 0 w = []"
| "attempt_outcomes env step inp (Suc n) w = (case attempt env step inp w of
      (Inr r, w') \<Rightarrow> [Inr r]
    | (Inl e, w') \<Rightarrow> Inl e # attempt_outcomes env step inp n (sleep env w' (retry_delay_seconds (retry_policy step))))"

lemma attempt_outcomes_not_Nil: "0 < n \<Longrightarrow> attempt_outcomes env step inp n w \<noteq> []"
  by (cases n) (auto split: prod.splits sum.splits)

lemma retry_loop_outcomes:
  "0 < n \<Longrightarrow>
   length (attempt_outcomes env step inp n w) \<le> n \<and>
   (\<forall>r \<in> set (butlast (attempt_outcomes env step inp n w)). isl r) \<and>
   (isl (last (attempt_outcomes env step inp n w)) \<longrightarrow> length (attempt_outcomes env step inp n w) = n) \<and>
   fst (retry_loop env step inp n w) = (case last (attempt_outcomes env step inp n w) of
       Inr r \<Rightarrow> Inr r | Inl e \<Rightarrow> handle_failure step e)"
proof (induction n arbitrary: w)
  case (Suc n)
  obtain o' w' where att: "attempt env step inp w = (o', w')" by fastforce
  show ?case
  proof (cases o')
    case (Inr r)
    then show ?thesis by (simp add: att)
  next
    case (Inl e)
    show ?thesis
    proof (cases "n = 0")
      case True
      then show ?thesis by (simp add: att Inl)
    next
      case False
      then show ?thesis
        using Suc.IH [of "sleep env w' (retry_delay_seconds (retry_policy step))"]
          attempt_outcomes_not_Nil [of n env step inp "sleep env w' (retry_delay_seconds (retry_policy step))"]
        by (simp add: att Inl)
    qed
  qed
qed simp

text \<open>
  A normal step is attempted until an attempt succeeds and at most
  \<^verbatim>\<open>max_retries + 1\<close> times; its result is that of the first successful attempt. When all
  of them fail, exactly \<^verbatim>\<open>max_retries + 1\<close> attempts were made and the failure policy decides:
  a fallback result, an empty result when the step may be skipped, or the last error.
\<close>

theorem retry_until_success:
  assumes "0 \<le> max_retries (retry_policy step)"
    and "outs = attempt_outcomes env step inp (nat (max_retries (retry_policy step) + 1)) w"
  shows "outs \<noteq> [] \<and> int (length outs) \<le> max_retries (retry_policy step) + 1 \<and>
    (\<forall>r \<in> set (butlast outs). isl r) \<and>
    (case last outs of
       Inr r \<Rightarrow> fst (run_normal env step inp w) = Inr r
     | Inl e \<Rightarrow> int (length outs) = max_retries (retry_policy step) + 1 \<and>
         fst (run_normal env step inp w) =
           (if on_failure step = SKIP then Inr []
            else case (on_failure step, fallback step) of
              (FALLBACK, Some fb) \<Rightarrow> Inr (map (\<lambda>(k, v). (k, PStr v)) (fb_output_mapping fb))
            | _ \<Rightarrow> Inl e))"
proof -
  have pos: "0 < nat (max_retries (retry_policy step) + 1)" using assms(1) by simp
  show ?thesis
    using retry_loop_outcomes [OF pos, of env step inp w] attempt_outcomes_not_Nil [OF pos, of env step inp w] assms(1)
    unfolding assms(2) run_normal_def
    by (auto simp: handle_failure_def split: sum.splits OnFailureAction.splits option.splits)
qed

text \<open>A dispatch that fails twice and then succeeds; the world counts the calls.\<close>

definition flaky_env :: "nat env" where
  "flaky_env = \<lparr>dispatch = (\<lambda>w cap sn inp. (if w < 2 then Inl ''boom'' else Inr [(''n'', PInt (int w))], Suc w)),
     flask_dispatch = (\<lambda>w url inp. (Inr [], w)), sleep = (\<lambda>w d. w), save = (\<lambda>w c. (None, w)),
     async_blpop = (\<lambda>w k t. (None, w)), delete_buffer = (\<lambda>w k. w), loop_time = (\<lambda>w. 0),
     parse_condition = (\<lambda>s. None)\<rparr>"

definition flaky_step :: "int \<Rightarrow> DagStep" where
  "flaky_step n = (new_DagStep ''s'' ''cap'')\<lparr>retry_policy := \<lparr>max_retries = n, retry_delay_seconds = 1\<rparr>\<rparr>"

theorem retry_until_success_witness:
  "fst (run_normal flaky_env (flaky_step 3) [] 0) = Inr [(''n'', PInt 2)]"
proof -
  have outs: "attempt_outcomes flaky_env (flaky_step 3) [] (nat (max_retries (retry_policy (flaky_step 3)) + 1)) 0 =
      [Inl ''boom'', Inl ''boom'', Inr [(''n'', PInt 2)]]" by code_simp
  have "0 \<le> max_retries (retry_policy (flaky_step 3))" by code_simp
  from retry_until_success [OF this refl, of flaky_env "[]" 0] show ?thesis unfolding outs by simp
qed

subsection \<open>Scatter and gather\<close>

lemma map_all_length: "length (fst (map_all env step key inp i xs w)) = length xs"
  by (induction xs arbitrary: i w) (auto simp: case_prod_unfold Let_def)

lemma map_all_continue:
  "map_error_policy step = CONTINUE \<Longrightarrow> r \<in> set (fst (map_all env step key inp i xs w)) \<Longrightarrow> \<not> isl r"
  by (induction xs arbitrary: i w)
     (auto simp: case_prod_unfold Let_def map_one_def split: sum.splits prod.splits)

lemma no_errors: "(\<forall>r \<in> set rs. \<not> isl r) \<Longrightarrow> map_errors rs = [] \<and> length (map_values rs) = length rs"
  by (induction rs) (auto simp: map_errors_def map_values_def split: sum.splits)

lemma map_errors_Nil: "map_errors rs = [] \<longleftrightarrow> (\<forall>r \<in> set rs. \<not> isl r)"
  by (induction rs) (auto simp: map_errors_def split: sum.splits)

text \<open>
  A MAP step dispatches once per item. If no item fails, or failures are recorded in
  place because the policy is to continue, the result holds one entry per item, in the
  order of the items; if some item fails under the policy to abort, the first error in
  item order goes to the failure policy of the step.
\<close>

theorem map_step_results:
  assumes "rs = fst (map_all env step key inp 0 (map_items key inp ctx) w)"
  shows "length rs = length (map_items key inp ctx) \<and>
    ((\<forall>r \<in> set rs. \<not> isl r) \<longrightarrow>
       fst (run_map env step key inp ctx w) = Inr [(''results'', PList (map (PDict \<circ> projr) rs))]) \<and>
    (map_error_policy step = CONTINUE \<longrightarrow> (\<forall>r \<in> set rs. \<not> isl r)) \<and>
    (map_error_policy step = ABORT_ALL \<longrightarrow>
       (\<forall>i < length rs. isl (rs ! i) \<and> (\<forall>j < i. \<not> isl (rs ! j)) \<longrightarrow>
          fst (run_map env step key inp ctx w) = handle_failure step (projl (rs ! i))))"
proof -
  have run: "fst (run_map env step key inp ctx w) =
      (if map_errors rs \<noteq> [] \<and> map_error_policy step = ABORT_ALL then handle_failure step (hd (map_errors rs))
       else Inr [(''results'', PList (map PDict (map_values rs)))])"
    by (simp add: run_map_def assms case_prod_unfold Let_def)
  have vals: "map_values rs = map projr rs" if "\<forall>r \<in> set rs. \<not> isl r" for rs :: "(exn + dict) list"
    using that by (induction rs) (auto simp: map_values_def split: sum.splits)
  have first: "hd (map_errors rs) = projl (rs ! i)" if "i < length rs" "isl (rs ! i)" "\<forall>j < i. \<not> isl (rs ! j)"
    for rs :: "(exn + dict) list" and i
    using that
  proof (induction rs arbitrary: i)
    case (Cons r rs)
    show ?case
    proof (cases i)
      case 0
      with Cons.prems show ?thesis by (auto simp: map_errors_def split: sum.splits)
    next
      case (Suc j)
      moreover have "\<not> isl r" using Cons.prems(3) [rule_format, of 0] Suc by simp
      moreover have "hd (map_errors rs) = projl (rs ! j)"
      proof (rule Cons.IH)
        show "\<forall>k < j. \<not> isl (rs ! k)"
        proof (intro allI impI)
          fix k
          assume "k < j"
          then show "\<not> isl (rs ! k)" using Cons.prems(3) [rule_format, of "Suc k"] Suc by simp
        qed
      qed (use Cons.prems(1,2) Suc in simp_all)
      ultimately show ?thesis by (auto simp: map_errors_def split: sum.splits)
    qed
  qed simp
  have "fst (run_map env step key inp ctx w) = Inr [(''results'', PList (map (PDict \<circ> projr) rs))]"
    if "\<forall>r \<in> set rs. \<not> isl r"
    using that by (simp add: run vals no_errors)
  moreover have "fst (run_map env step key inp ctx w) = handle_failure step (projl (rs ! i))"
    if "map_error_policy step = ABORT_ALL" "i < length rs" "isl (rs ! i)" "\<forall>j < i. \<not> isl (rs ! j)" for i
  proof -
    have "map_errors rs \<noteq> []" using that(2,3) nth_mem by (auto simp: map_errors_Nil)
    then show ?thesis using first [OF that(2-4)] that(1) by (simp add: run)
  qed
  moreover have "map_error_policy step = CONTINUE \<longrightarrow> (\<forall>r \<in> set rs. \<not> isl r)"
    unfolding assms by (intro impI ballI map_all_continue)
  moreover have "length rs = length (map_items key inp ctx)"
    unfolding assms by (rule map_all_length)
  ultimately show ?thesis by blast
qed
definition pick_env :: "string list env" where
  "pick_env = \<lparr>dispatch = (\<lambda>w cap sn inp. (if dict_get inp ''x'' PNone = PInt 2 then Inl ''odd one'' else Inr inp, w @ [sn])),
     flask_dispatch = (\<lambda>w url inp. (Inr [], w)), sleep = (\<lambda>w d. w), save = (\<lambda>w c. (None, w)),
     async_blpop = (\<lambda>w k t. (None, w)), delete_buffer = (\<lambda>w k. w), loop_time = (\<lambda>w. 0),
     parse_condition = (\<lambda>s. None)\<rparr>"

theorem map_step_results_witness:
  "fst (run_map pick_env (new_DagStep ''m'' ''cap'') ''x'' [(''x'', PList [PInt 1, PInt 2])] (demo_ctx []) []) =
     handle_failure (new_DagStep ''m'' ''cap'') ''odd one''"
proof -
  let ?rs = "fst (map_all pick_env (new_DagStep ''m'' ''cap'') ''x'' [(''x'', PList [PInt 1, PInt 2])] 0
      (map_items ''x'' [(''x'', PList [PInt 1, PInt 2])] (demo_ctx [])) [])"
  have rs: "?rs = [Inr [(''x'', PInt 1), (''_map_index'', PInt 0)], Inl ''odd one'']" by code_simp
  have "map_error_policy (new_DagStep ''m'' ''cap'') = ABORT_ALL" by code_simp
  moreover have "1 < length ?rs" "isl (?rs ! 1)" "projl (?rs ! 1) = ''odd one''" "\<forall>j < 1. \<not> isl (?rs ! j)"
    by (simp_all add: rs)
  ultimately show ?thesis
    using map_step_results [OF refl, of pick_env "new_DagStep ''m'' ''cap''" "''x''"
        "[(''x'', PList [PInt 1, PInt 2])]" "demo_ctx []" "[]", THEN conjunct2, THEN conjunct2, THEN conjunct2,
        THEN mp, THEN spec, THEN mp, THEN mp, of 1] by simp
qed

subsection \<open>Streaming\<close>

text \<open>What a list of accumulated results is, read as empty when absent.\<close>

definition acc_list :: "dict \<Rightarrow> string \<Rightarrow> pyval list option" where
  "acc_list vars ds = (case map_of vars (acc_key ds) of None \<Rightarrow> Some []
     | Some (PList xs) \<Rightarrow> Some xs | Some _ \<Rightarrow> None)"

lemma acc_key_inj [simp]: "acc_key a = acc_key b \<longleftrightarrow> a = b"
  by (simp add: acc_key_def)

lemma acc_list_accumulate:
  "acc_list (accumulate ds r vars) ds' =
     (if ds' = ds then map_option (\<lambda>xs. xs @ [PDict r]) (acc_list vars ds) else acc_list vars ds')"
  by (auto simp: acc_list_def accumulate_def split: option.splits pyval.splits)

lemma fan_out_collects:
  assumes "\<And>w c s i. fst (dispatch env w c s i) = Inr (reply s i)"
    and "\<And>w c s i. buf (snd (dispatch env w c s i)) = buf w" and "distinct dss"
  shows "acc_list (fst (fan_out env step payload dss vars w)) ds =
      (if ds \<in> set dss then map_option (\<lambda>xs. xs @ [PDict (reply ds payload)]) (acc_list vars ds)
       else acc_list vars ds)"
    and "buf (snd (fan_out env step payload dss vars w)) = buf w"
proof -
  have step: "fan_out env step payload (d # dss) vars w =
      fan_out env step payload dss (accumulate d (reply d payload) vars) (snd (dispatch env w (capability step) d payload))"
    for d dss vars w
    using assms(1) [of w "capability step" d payload]
    by (cases "dispatch env w (capability step) d payload") simp
  show "acc_list (fst (fan_out env step payload dss vars w)) ds =
      (if ds \<in> set dss then map_option (\<lambda>xs. xs @ [PDict (reply ds payload)]) (acc_list vars ds)
       else acc_list vars ds)"
    using assms(3)
  proof (induction dss arbitrary: vars w)
    case (Cons d dss)
    then show ?case unfolding step by (auto simp: acc_list_accumulate)
  qed simp
  show "buf (snd (fan_out env step payload dss vars w)) = buf w"
    by (induction dss arbitrary: vars w) (simp_all add: step assms(2) del: fan_out.simps(2))
qed

lemma stream_loop_end:
  assumes "loop_time env w < deadline"
    and "async_blpop env w key (min 30 (\<lfloor>deadline - loop_time env w\<rfloor> + 1)) = (Some (RJson (PDict chunk)), w1)"
    and "truthy (dict_get chunk ''__done__'' PNone)" and "\<not> truthy (dict_get chunk ''__error__'' PNone)"
  shows "fst (stream_loop env step trigger key enriched deadline (Suc m) vars w) =
      map_summary (output_mapping step) (dict_get chunk ''summary'' (PDict [])) []"
    and "fst (snd (stream_loop env step trigger key enriched deadline (Suc m) vars w)) = vars"
  by (subst stream_loop.simps, use assms in \<open>simp add: load_chunk_def split: sum.splits\<close>)+

lemma stream_loop_chunk:
  assumes "loop_time env w < deadline"
    and "async_blpop env w key (min 30 (\<lfloor>deadline - loop_time env w\<rfloor> + 1)) = (Some (RJson (PDict chunk)), w1)"
    and "\<not> truthy (dict_get chunk ''__done__'' PNone)"
    and "fan_out env step (dict_merge [(''chunk'', PDict chunk)] enriched) (downstream_steps trigger) vars w1 = (vars', w2)"
  shows "stream_loop env step trigger key enriched deadline (Suc m) vars w =
      stream_loop env step trigger key enriched deadline m vars' w2"
  by (subst stream_loop.simps) (use assms in \<open>simp add: load_chunk_def\<close>)

text \<open>
  A streaming step consumes its buffer up to the end marker. If the buffer holds
  fewer chunks than the cap followed by an end marker without error, popping takes the
  elements in order, the deadline is not reached and downstream dispatches succeed, the
  step ends with the mapped summary, and every downstream step has received every chunk
  once, in order.
\<close>

theorem streaming_collects:
  assumes pop: "\<And>w x xs t. buf w = x # xs \<Longrightarrow>
      fst (async_blpop env w key t) = Some x \<and> buf (snd (async_blpop env w key t)) = xs"
    and disp: "\<And>w c s i. fst (dispatch env w c s i) = Inr (reply s i)"
      "\<And>w c s i. buf (snd (dispatch env w c s i)) = buf w"
    and time: "\<And>w. loop_time env w < deadline"
    and buffer: "buf w = map (\<lambda>c. RJson (PDict c)) chunks @ [RJson (PDict final)]"
    and chunks: "\<forall>c \<in> set chunks. \<not> truthy (dict_get c ''__done__'' PNone)"
    and final: "truthy (dict_get final ''__done__'' PNone)" "\<not> truthy (dict_get final ''__error__'' PNone)"
    and "length chunks < n" and "distinct (downstream_steps trigger)"
  shows "fst (stream_loop env step trigger key enriched deadline n vars w) =
      map_summary (output_mapping step) (dict_get final ''summary'' (PDict [])) [] \<and>
    (\<forall>ds \<in> set (downstream_steps trigger).
      acc_list (fst (snd (stream_loop env step trigger key enriched deadline n vars w))) ds =
        map_option (\<lambda>xs. xs @ map (\<lambda>c. PDict (reply ds (dict_merge [(''chunk'', PDict c)] enriched))) chunks)
          (acc_list vars ds))"
  using buffer chunks \<open>length chunks < n\<close>
proof (induction chunks arbitrary: n vars w)
  case Nil
  then obtain m where n: "n = Suc m" by (cases n) auto
  let ?t = "min 30 (\<lfloor>deadline - loop_time env w\<rfloor> + 1)"
  have "fst (async_blpop env w key ?t) = Some (RJson (PDict final))"
    using pop [of w "RJson (PDict final)" "[]" ?t] Nil.prems(1) by simp
  then have "async_blpop env w key ?t = (Some (RJson (PDict final)), snd (async_blpop env w key ?t))"
    by (metis prod.collapse)
  note stream_loop_end [OF time this final, of step trigger enriched m vars]
  then show ?case by (simp add: n option.map_ident)
next
  case (Cons c chunks)
  then obtain m where n: "n = Suc m" by (cases n) auto
  let ?rest = "map (\<lambda>c. RJson (PDict c)) chunks @ [RJson (PDict final)]"
  let ?payload = "dict_merge [(''chunk'', PDict c)] enriched"
  let ?t = "min 30 (\<lfloor>deadline - loop_time env w\<rfloor> + 1)"
  let ?w1 = "snd (async_blpop env w key ?t)"
  obtain vars' w2 where fo: "fan_out env step ?payload (downstream_steps trigger) vars ?w1 = (vars', w2)"
    by fastforce
  have popped: "fst (async_blpop env w key ?t) = Some (RJson (PDict c))" "buf ?w1 = ?rest"
    using pop [of w "RJson (PDict c)" ?rest ?t] Cons.prems(1) by simp_all
  then have "async_blpop env w key ?t = (Some (RJson (PDict c)), ?w1)"
    by (metis prod.collapse)
  then have unfold: "stream_loop env step trigger key enriched deadline n vars w =
      stream_loop env step trigger key enriched deadline m vars' w2"
    unfolding n using Cons.prems(2) fo by (intro stream_loop_chunk [OF time]) simp_all
  note fan = fan_out_collects [of env reply buf "downstream_steps trigger" step ?payload vars ?w1,
      OF disp \<open>distinct (downstream_steps trigger)\<close>, unfolded fo]
  have "buf w2 = ?rest" using fan(2) popped(2) by simp
  from Cons.IH [OF this] Cons.prems(2,3)
  have IH: "fst (stream_loop env step trigger key enriched deadline m vars' w2) =
      map_summary (output_mapping step) (dict_get final ''summary'' (PDict [])) []"
    "\<forall>ds \<in> set (downstream_steps trigger).
      acc_list (fst (snd (stream_loop env step trigger key enriched deadline m vars' w2))) ds =
        map_option (\<lambda>xs. xs @ map (\<lambda>c. PDict (reply ds (dict_merge [(''chunk'', PDict c)] enriched))) chunks)
          (acc_list vars' ds)"
    by (simp_all add: n)
  then show ?case unfolding unfold using fan(1) by (simp add: option.map_comp comp_def)
qed

text \<open>A world that is the buffer itself.\<close>

definition buffer_env :: "rval list env" where
  "buffer_env = \<lparr>dispatch = (\<lambda>w cap sn inp. (Inr inp, w)),
     flask_dispatch = (\<lambda>w url inp. (Inr [], w)), sleep = (\<lambda>w d. w), save = (\<lambda>w c. (None, w)),
     async_blpop = (\<lambda>w k t. case w of [] \<Rightarrow> (None, []) | x # xs \<Rightarrow> (Some x, xs)),
     delete_buffer = (\<lambda>w k. []), loop_time = (\<lambda>w. 0), parse_condition = (\<lambda>s. None)\<rparr>"

definition demo_trigger :: StreamingTrigger where
  "demo_trigger = \<lparr>buffer_key = ''buf:{task_id}'', trigger_condition = ''chunk_ready'',
     flush_on_complete = True, downstream_steps = [''index'']\<rparr>"

definition demo_final :: dict where
  "demo_final = [(''__done__'', PBool True), (''summary'', PDict [(''n'', PInt 1)])]"

theorem streaming_collects_witness:
  "fst (stream_loop buffer_env ((new_DagStep ''s'' ''cap'')\<lparr>output_mapping := [(''total'', ''n'')]\<rparr>) demo_trigger
      ''k'' [] 60 max_chunks [] [RJson (PDict [(''a'', PInt 1)]), RJson (PDict demo_final)]) =
     Inr [(''total'', PInt 1)]"
proof -
  let ?step = "(new_DagStep ''s'' ''cap'')\<lparr>output_mapping := [(''total'', ''n'')]\<rparr>"
  have "fst (stream_loop buffer_env ?step demo_trigger ''k'' [] 60 max_chunks []
      [RJson (PDict [(''a'', PInt 1)]), RJson (PDict demo_final)]) =
      map_summary (output_mapping ?step) (dict_get demo_final ''summary'' (PDict [])) []"
    by (rule streaming_collects [where buf = id and reply = "\<lambda>s i. i" and chunks = "[[(''a'', PInt 1)]]", THEN conjunct1])
       (simp_all add: buffer_env_def demo_final_def demo_trigger_def dict_get_def max_chunks_def)
  also have "\<dots> = Inr [(''total'', PInt 1)]" by code_simp
  finally show ?thesis .
qed

text \<open>
  The result of a streaming step is keyed by the names of the outputs, and is then mapped
  again by the names of the sources: when no output is named like a source, nothing of the
  summary reaches the context.
\<close>

lemma map_summary_keys:
  "map_summary om summary res = Inr res' \<Longrightarrow> fst ` set res' \<subseteq> fst ` set res \<union> fst ` set om"
proof (induction om arbitrary: res)
  case (Cons m om)
  obtain dst src where m: "m = (dst, src)" by (cases m)
  obtain res1 where "map_summary om summary res1 = Inr res'" and "fst ` set res1 \<subseteq> fst ` set res \<union> {dst}"
    using Cons.prems
    by (auto simp: m dict_set_def fst_set_update split: option.splits bool.splits pyval.splits)
  with Cons.IH [of res1] show ?case by (auto simp: m)
qed simp

lemma streaming_output_lost:
  assumes "map_summary (output_mapping step) summary [] = Inr result"
    and "fst ` set (output_mapping step) \<inter> snd ` set (output_mapping step) = {}"
  shows "apply_output step result vars = vars"
proof -
  have "map_of result (snd m) = None" if "m \<in> set (output_mapping step)" for m
    using map_summary_keys [OF assms(1)] assms(2) that by (auto simp: map_of_eq_None_iff)
  then have "foldl (map_output result) vars om = vars" if "set om \<subseteq> set (output_mapping step)" for om
    using that by (induction om) (auto simp: map_output_def)
  then show ?thesis by (simp add: apply_output_def)
qed

end
