(* ===== verification/Dag_Loader.thy ===== *)
theory Dag_Loader
  imports Redis_Store
begin

text \<open>
  \<^verbatim>\<open>DagLoader\<close> (\<^verbatim>\<open>src/platform/dag_loader.py\<close>): a definition is looked up in Redis, then in the
  YAML files, then in the database; what is found behind Redis is cached there. The content
  of the files and of the database table are parameters: \<open>yaml\<close> is what reading a candidate
  file gives (\<open>None\<close> when it does not exist, \<open>Some None\<close> when reading it raises), \<open>table\<close> the
  text of the selected row.
\<close>

definition dag_key :: "string \<Rightarrow> string \<Rightarrow> string" where
  "dag_key tenant dag_id = ''dag_def:'' @ tenant @ '':'' @ dag_id"

record DagLoader =
  config_dir :: string
  dl_redis :: bool
  dl_db :: bool

definition load_from_redis :: "redis \<Rightarrow> string \<Rightarrow> string \<Rightarrow> pyval" where
  "load_from_redis r dag_id tenant = (case get r (dag_key tenant dag_id) of
      Some (RJson v) \<Rightarrow> v | Some (RNum i) \<Rightarrow> PInt i | _ \<Rightarrow> PNone)"

definition candidates :: "DagLoader \<Rightarrow> string \<Rightarrow> string list" where
  "candidates dl dag_id = [config_dir dl @ ''/'' @ dag_id @ ''.yaml'', config_dir dl @ ''/'' @ dag_id @ ''.yml'']"

fun first_file :: "(string \<Rightarrow> pyval option option) \<Rightarrow> string list \<Rightarrow> pyval" where
  "first_file yaml [] = PNone"
| "first_file yaml (f # fs) = (case yaml f of Some (Some v) \<Rightarrow> v | _ \<Rightarrow> first_file yaml fs)"

definition load_from_yaml :: "DagLoader \<Rightarrow> (string \<Rightarrow> pyval option option) \<Rightarrow> string \<Rightarrow> pyval" where
  "load_from_yaml dl yaml dag_id = first_file yaml (candidates dl dag_id)"

definition cache_in_redis :: "redis \<Rightarrow> string \<Rightarrow> string \<Rightarrow> pyval \<Rightarrow> redis" where
  "cache_in_redis r dag_id tenant v = set_ex r (dag_key tenant dag_id) (RJson v) (Some 259200)"

text \<open>An exception of the query or of decoding is logged and gives None.\<close>

definition load_from_db :: "(string \<Rightarrow> string \<Rightarrow> rval option) \<Rightarrow> string \<Rightarrow> string \<Rightarrow> pyval" where
  "load_from_db table dag_id tenant = (case table dag_id tenant of
      Some (RJson v) \<Rightarrow> v | Some (RNum i) \<Rightarrow> PInt i | _ \<Rightarrow> PNone)"

definition load ::
  "DagLoader \<Rightarrow> (string \<Rightarrow> pyval option option) \<Rightarrow> (string \<Rightarrow> string \<Rightarrow> rval option) \<Rightarrow> redis \<Rightarrow> string \<Rightarrow> string \<Rightarrow> pyval \<times> redis" where
  "load dl yaml table r dag_id tenant =
     (let cache = (\<lambda>v. if dl_redis dl then cache_in_redis r dag_id tenant v else r);
          hot = (if dl_redis dl then load_from_redis r dag_id tenant else PNone);
          file = load_from_yaml dl yaml dag_id;
          cold = (if dl_db dl then load_from_db table dag_id tenant else PNone)
      in if truthy hot then (hot, r)
         else if truthy file then (file, cache file)
         else if truthy cold then (cold, cache cold)
         else (PNone, r))"

definition register_dag :: "DagLoader \<Rightarrow> redis \<Rightarrow> string \<Rightarrow> string \<Rightarrow> pyval \<Rightarrow> string + redis" where
  "register_dag dl r dag_id tenant v =
     (if \<not> dl_redis dl then Inl ''RuntimeError'' else Inr (cache_in_redis r dag_id tenant v))"

definition delete_dag :: "DagLoader \<Rightarrow> redis \<Rightarrow> string \<Rightarrow> string \<Rightarrow> bool \<times> redis" where
  "delete_dag dl r dag_id tenant =
     (if \<not> dl_redis dl then (False, r)
      else (exists r (dag_key tenant dag_id), delete_key r (dag_key tenant dag_id)))"

text \<open>
  Loading is consistent: a loaded definition is one of the three sources' and, with
  Redis, loading it again gives the same definition whatever has become of the files and the
  table; a registered definition is what is loaded next, and after a deletion the other
  sources decide again.
\<close>

theorem dag_load_cached:
  assumes "dl_redis dl"
  shows "(fst (load dl yaml table r dag_id tenant) \<noteq> PNone \<longrightarrow>
      fst (load dl yaml' table' (snd (load dl yaml table r dag_id tenant)) dag_id tenant) = fst (load dl yaml table r dag_id tenant))
    \<and> (truthy v \<longrightarrow> (\<exists>r'. register_dag dl r dag_id tenant v = Inr r' \<and> load dl yaml table r' dag_id tenant = (v, r')))
    \<and> fst (load dl yaml table (snd (delete_dag dl r dag_id tenant)) dag_id tenant) =
        (if truthy (load_from_yaml dl yaml dag_id) then load_from_yaml dl yaml dag_id
         else if dl_db dl \<and> truthy (load_from_db table dag_id tenant) then load_from_db table dag_id tenant else PNone)"
  using assms
  by (auto simp: load_def Let_def load_from_redis_def cache_in_redis_def register_dag_def delete_dag_def store_simps)

theorem dag_load_cached_witness:
  "fst (load \<lparr>config_dir = ''d'', dl_redis = True, dl_db = False\<rparr> (\<lambda>f. None) (\<lambda>d t. None)
     (snd (load \<lparr>config_dir = ''d'', dl_redis = True, dl_db = False\<rparr> (\<lambda>f. Some (Some (PInt 7))) (\<lambda>d t. None) empty_redis ''x'' ''t''))
     ''x'' ''t'') = PInt 7"
proof -
  have "fst (load \<lparr>config_dir = ''d'', dl_redis = True, dl_db = False\<rparr> (\<lambda>f. Some (Some (PInt 7))) (\<lambda>d t. None) empty_redis ''x'' ''t'') = PInt 7"
    by code_simp
  then show ?thesis
    using dag_load_cached [of "\<lparr>config_dir = ''d'', dl_redis = True, dl_db = False\<rparr>" "\<lambda>f. Some (Some (PInt 7))" "\<lambda>d t. None"
        empty_redis "''x''" "''t''" "\<lambda>f. None" "\<lambda>d t. None"] by simp
qed

end
