(* ===== verification/Circuit_Breaker.thy ===== *)
theory Circuit_Breaker
  imports Redis_Store
begin

text \<open>
  The Redis-backed circuit breaker (\<^verbatim>\<open>src/platform/circuit_breaker.py\<close>): the three Lua
  scripts as functions on the store, the Python methods that call them, and a step
  relation that interleaves them with the expiry of keys. The state of a capability's
  breaker is three string keys: the state text, the failure counter and the half-open
  attempt counter.
\<close>

subsection \<open>Keys\<close>

record CircuitBreaker =
  prefix :: string
  threshold :: int
  open_duration :: int
  half_open_max :: int

definition state_key :: "CircuitBreaker \<Rightarrow> string \<Rightarrow> string" where
  "state_key cb cap = prefix cb @ '':'' @ cap @ '':cb:state''"

definition count_key :: "CircuitBreaker \<Rightarrow> string \<Rightarrow> string" where
  "count_key cb cap = prefix cb @ '':'' @ cap @ '':cb:failures''"

definition half_open_key :: "CircuitBreaker \<Rightarrow> string \<Rightarrow> string" where
  "half_open_key cb cap = prefix cb @ '':'' @ cap @ '':cb:half_open''"

subsection \<open>Lua scripts\<close>

abbreviation st_closed :: rval where "st_closed \<equiv> RText ''closed''"
abbreviation st_open :: rval where "st_open \<equiv> RText ''open''"
abbreviation st_half_open :: rval where "st_half_open \<equiv> RText ''half_open''"

definition lua_record_failure :: "redis \<Rightarrow> string \<Rightarrow> string \<Rightarrow> int \<Rightarrow> int \<Rightarrow> rval \<times> redis" where
  "lua_record_failure r skey ckey thr open_ttl =
     (let state = (case get r skey of None \<Rightarrow> st_closed | Some v \<Rightarrow> v)
      in if state = st_open then (state, r)
         else let (count, r1) = incrby r ckey 1;
                  r2 = expire r1 ckey (open_ttl * 4)
              in if count \<ge> thr \<or> state = st_half_open
                 then (st_open, delete_key (expire (set_ex r2 skey st_open None) skey open_ttl) ckey)
                 else (st_closed, r2))"

definition lua_record_success :: "redis \<Rightarrow> string \<Rightarrow> string \<Rightarrow> rval \<times> redis" where
  "lua_record_success r skey ckey =
     (let state = (case get r skey of None \<Rightarrow> st_closed | Some v \<Rightarrow> v)
      in if state = st_half_open
         then (st_closed, delete_key (set_ex r skey st_closed None) ckey)
         else (state, delete_key r ckey))"

definition lua_check_state :: "redis \<Rightarrow> string \<Rightarrow> string \<Rightarrow> int \<Rightarrow> rval \<times> redis" where
  "lua_check_state r skey hkey ho_max =
     (case get r skey of
        None \<Rightarrow> (st_closed, r)
      | Some state \<Rightarrow>
          if state = st_open then (st_open, r)
          else if state = st_half_open
          then (let attempts = (case get r hkey of None \<Rightarrow> 0
                                | Some v \<Rightarrow> (case num_of v of None \<Rightarrow> 0 | Some i \<Rightarrow> i))
                in if attempts \<ge> ho_max then (st_open, r)
                   else (st_half_open, expire (snd (incrby r hkey 1)) hkey 120))
          else (st_closed, r))"

subsection \<open>Public methods\<close>

definition record_failure :: "CircuitBreaker \<Rightarrow> redis \<Rightarrow> string \<Rightarrow> rval \<times> redis" where
  "record_failure cb r cap =
     lua_record_failure r (state_key cb cap) (count_key cb cap) (threshold cb) (open_duration cb)"

definition record_success :: "CircuitBreaker \<Rightarrow> redis \<Rightarrow> string \<Rightarrow> rval \<times> redis" where
  "record_success cb r cap = lua_record_success r (state_key cb cap) (count_key cb cap)"

definition get_state :: "CircuitBreaker \<Rightarrow> redis \<Rightarrow> string \<Rightarrow> rval \<times> redis" where
  "get_state cb r cap =
     lua_check_state r (state_key cb cap) (half_open_key cb cap) (half_open_max cb)"

definition is_open :: "CircuitBreaker \<Rightarrow> redis \<Rightarrow> string \<Rightarrow> bool \<times> redis" where
  "is_open cb r cap = (let (state, r') = get_state cb r cap in (state = st_open, r'))"

definition allow_request :: "CircuitBreaker \<Rightarrow> redis \<Rightarrow> string \<Rightarrow> bool \<times> redis" where
  "allow_request cb r cap =
     (let (state, r') = get_state cb r cap in (state \<in> {st_closed, st_half_open}, r'))"

subsection \<open>Key lemmas\<close>

lemma cb_keys_last:
  "last (state_key cb c) = CHR ''e''" "last (count_key cb c) = CHR ''s''"
  "last (half_open_key cb c) = CHR ''n''"
  by (simp_all add: state_key_def count_key_def half_open_key_def)

lemma cb_keys_neq [key_simps]:
  "state_key cb c \<noteq> count_key cb' c'" "count_key cb c \<noteq> state_key cb' c'"
  "state_key cb c \<noteq> half_open_key cb' c'" "half_open_key cb c \<noteq> state_key cb' c'"
  "count_key cb c \<noteq> half_open_key cb' c'" "half_open_key cb c \<noteq> count_key cb' c'"
  by (auto dest!: arg_cong [where f = last] simp: cb_keys_last)

lemma cb_keys_inj [key_simps]:
  "state_key cb c = state_key cb c' \<longleftrightarrow> c = c'"
  "count_key cb c = count_key cb c' \<longleftrightarrow> c = c'"
  "half_open_key cb c = half_open_key cb c' \<longleftrightarrow> c = c'"
  by (simp_all add: state_key_def count_key_def half_open_key_def)

lemmas cb_defs = record_failure_def record_success_def get_state_def
  lua_record_failure_def lua_record_success_def lua_check_state_def

subsection \<open>The breaker as a state machine\<close>

text \<open>
  One step: a client reports a failure or a success, or asks for the state; or one of the
  breaker's keys that has an expiry time runs out.
\<close>

inductive cb_step :: "CircuitBreaker \<Rightarrow> string \<Rightarrow> redis \<Rightarrow> redis \<Rightarrow> bool" for cb cap where
  failure: "cb_step cb cap r (snd (record_failure cb r cap))"
| success: "cb_step cb cap r (snd (record_success cb r cap))"
| check: "cb_step cb cap r (snd (get_state cb r cap))"
| cooldown: "expiry r (state_key cb cap) \<noteq> None \<Longrightarrow> cb_step cb cap r (evict r (state_key cb cap))"
| forget: "expiry r (count_key cb cap) \<noteq> None \<Longrightarrow> cb_step cb cap r (evict r (count_key cb cap))"

inductive cb_reachable :: "CircuitBreaker \<Rightarrow> string \<Rightarrow> redis \<Rightarrow> bool" for cb cap where
  init: "get r (state_key cb cap) = None \<Longrightarrow> get r (count_key cb cap) = None \<Longrightarrow> cb_reachable cb cap r"
| step: "cb_reachable cb cap r \<Longrightarrow> cb_step cb cap r r' \<Longrightarrow> cb_reachable cb cap r'"

text \<open>
  The state key is absent or open; the counter, when present, is below the threshold, and
  it is absent while the breaker is open.
\<close>

definition cb_inv :: "CircuitBreaker \<Rightarrow> string \<Rightarrow> redis \<Rightarrow> bool" where
  "cb_inv cb cap r \<longleftrightarrow>
     (case get r (state_key cb cap) of
        None \<Rightarrow> (case get r (count_key cb cap) of None \<Rightarrow> True
                 | Some v \<Rightarrow> \<exists>n. v = RNum n \<and> 1 \<le> n \<and> n < threshold cb)
      | Some s \<Rightarrow> s = st_open \<and> get r (count_key cb cap) = None)"

lemma fst_incrby: "get r k = None \<Longrightarrow> fst (incrby r k n) = n"
  "get r k = Some (RNum i) \<Longrightarrow> fst (incrby r k n) = i + n"
  by (simp_all add: incrby_def get_def Let_def)

lemma cb_inv_step: "cb_step cb cap r r' \<Longrightarrow> cb_inv cb cap r \<Longrightarrow> cb_inv cb cap r'"
proof (induction rule: cb_step.induct)
  case (failure r)
  then show ?case
    by (auto simp: cb_inv_def cb_defs store_simps key_simps fst_incrby Let_def case_prod_unfold
        split: option.splits)
next
  case (success r)
  then show ?case
    by (auto simp: cb_inv_def cb_defs store_simps key_simps Let_def split: option.splits)
next
  case (check r)
  then show ?case
    by (auto simp: cb_inv_def cb_defs store_simps key_simps Let_def split: option.splits)
qed (auto simp: cb_inv_def store_simps key_simps split: option.splits)

lemma cb_reachable_inv: "cb_reachable cb cap r \<Longrightarrow> cb_inv cb cap r"
proof (induction rule: cb_reachable.induct)
  case (init r)
  then show ?case by (simp add: cb_inv_def)
next
  case (step r r')
  then show ?case by (blast intro: cb_inv_step)
qed

subsection \<open>Consecutive failures\<close>

fun failures :: "CircuitBreaker \<Rightarrow> string \<Rightarrow> nat \<Rightarrow> redis \<Rightarrow> redis" where
  "failures cb cap 0 r = r"
| "failures cb cap (Suc n) r = snd (record_failure cb (failures cb cap n r) cap)"

lemma cb_reachable_failures: "cb_reachable cb cap r \<Longrightarrow> cb_reachable cb cap (failures cb cap n r)"
proof (induction n)
  case (Suc n)
  then show ?case using cb_step.failure by (auto intro: cb_reachable.step)
qed simp

lemma record_failure_closed:
  assumes "get r (state_key cb cap) = None"
    and "fst (incrby r (count_key cb cap) 1) = c"
  shows "fst (record_failure cb r cap) = (if c \<ge> threshold cb then st_open else st_closed)"
    and "get (snd (record_failure cb r cap)) (state_key cb cap) =
     (if c \<ge> threshold cb then Some st_open else None)"
    and "get (snd (record_failure cb r cap)) (count_key cb cap) =
     (if c \<ge> threshold cb then None else Some (RNum c))"
  using assms
  by (simp_all add: cb_defs store_simps key_simps Let_def case_prod_unfold)

lemma failures_below:
  assumes "get r (state_key cb cap) = None" and "get r (count_key cb cap) = None"
    and "int n < threshold cb"
  shows "get (failures cb cap n r) (state_key cb cap) = None \<and>
     get (failures cb cap n r) (count_key cb cap) = (if n = 0 then None else Some (RNum (int n)))"
  using assms(3)
proof (induction n)
  case 0
  then show ?case using assms by simp
next
  case (Suc n)
  let ?r = "failures cb cap n r"
  from Suc have IH: "get ?r (state_key cb cap) = None"
    and c: "get ?r (count_key cb cap) = (if n = 0 then None else Some (RNum (int n)))" by auto
  have "fst (incrby ?r (count_key cb cap) 1) = int (Suc n)"
    using c by (cases "n = 0") (auto simp: fst_incrby)
  from record_failure_closed (2,3) [OF IH this] Suc.prems show ?case by simp
qed

lemma failures_at_threshold:
  assumes "get r (state_key cb cap) = None" and "get r (count_key cb cap) = None"
    and "1 \<le> threshold cb"
  shows "get (failures cb cap (nat (threshold cb)) r) (state_key cb cap) = Some st_open"
proof -
  let ?m = "nat (threshold cb) - 1"
  let ?r = "failures cb cap ?m r"
  have "int ?m < threshold cb" using assms(3) by simp
  from failures_below [OF assms(1,2) this]
  have s: "get ?r (state_key cb cap) = None"
    and c: "get ?r (count_key cb cap) = (if ?m = 0 then None else Some (RNum (int ?m)))" by auto
  have "fst (incrby ?r (count_key cb cap) 1) = threshold cb"
    using c assms(3) by (cases "?m = 0") (auto simp: fst_incrby)
  from record_failure_closed (2) [OF s this]
  have "get (failures cb cap (Suc ?m) r) (state_key cb cap) = Some st_open" by simp
  moreover have "Suc ?m = nat (threshold cb)" using assms(3) by simp
  ultimately show ?thesis by simp
qed

lemma allow_request_iff:
  "fst (allow_request cb r cap) \<longleftrightarrow> fst (get_state cb r cap) \<noteq> st_open"
  by (auto simp: allow_request_def cb_defs Let_def case_prod_unfold split: option.splits)

lemma allow_request_absent:
  "get r (state_key cb cap) = None \<Longrightarrow> allow_request cb r cap = (True, r)"
  by (simp add: allow_request_def cb_defs)

lemma allow_request_open:
  "get r (state_key cb cap) = Some st_open \<Longrightarrow> allow_request cb r cap = (False, r)"
  by (simp add: allow_request_def cb_defs)

text \<open>The other capabilities' keys are untouched by a step of this one.\<close>

lemma cb_step_frame:
  assumes "cb_step cb cap r r'" and "cap \<noteq> cap'"
  shows "get r' (state_key cb cap') = get r (state_key cb cap')"
    and "get r' (half_open_key cb cap') = get r (half_open_key cb cap')"
    and "get r' (count_key cb cap') = get r (count_key cb cap')"
  using assms
  by (induction rule: cb_step.induct)
    (auto simp: cb_defs store_simps key_simps Let_def case_prod_unfold split: option.splits)

subsection \<open>Properties\<close>

text \<open>
  The half-open state is never entered: in every state the breaker can reach from a
  fresh store, by failures, successes, state checks and key expiry, the state it reports
  is closed or open. (The cooldown of an open breaker leads straight back to closed,
  unlike the diagram in the module's comment.)
\<close>

theorem cb_never_half_open:
  assumes "cb_reachable cb cap r"
  shows "fst (get_state cb r cap) = st_closed \<or> fst (get_state cb r cap) = st_open"
  using cb_reachable_inv [OF assms]
  by (auto simp: cb_inv_def cb_defs split: option.splits)

definition demo_cb :: CircuitBreaker where
  "demo_cb = \<lparr>prefix = ''queue:cb'', threshold = 2, open_duration = 60, half_open_max = 1\<rparr>"

theorem cb_never_half_open_witness:
  "fst (get_state demo_cb (snd (record_failure demo_cb empty_redis ''ocr'')) ''ocr'') = st_closed \<or>
   fst (get_state demo_cb (snd (record_failure demo_cb empty_redis ''ocr'')) ''ocr'') = st_open"
proof (rule cb_never_half_open)
  have "cb_reachable demo_cb ''ocr'' empty_redis"
    by (rule cb_reachable.init) (simp_all add: get_def empty_redis_def)
  then show "cb_reachable demo_cb ''ocr'' (snd (record_failure demo_cb empty_redis ''ocr''))"
    by (rule cb_reachable.step) (rule cb_step.failure)
qed

text \<open>
  From a fresh store the breaker opens at exactly the configured number of
  consecutive failures: with fewer it lets every request through, and with that many it
  refuses them.
\<close>

theorem cb_opens_at_threshold:
  assumes "get r (state_key cb cap) = None" and "get r (count_key cb cap) = None"
    and "1 \<le> threshold cb"
  shows "(\<forall>n. int n < threshold cb \<longrightarrow> fst (allow_request cb (failures cb cap n r) cap)) \<and>
    \<not> fst (allow_request cb (failures cb cap (nat (threshold cb)) r) cap)"
  using failures_below [OF assms(1,2)] failures_at_threshold [OF assms]
  by (simp add: allow_request_absent allow_request_open)

theorem cb_opens_at_threshold_witness:
  "fst (allow_request demo_cb (failures demo_cb ''ocr'' 1 empty_redis) ''ocr'') \<and>
   \<not> fst (allow_request demo_cb (failures demo_cb ''ocr'' (nat (threshold demo_cb)) empty_redis) ''ocr'')"
proof -
  have "get empty_redis k = None" for k by (simp add: get_def empty_redis_def)
  moreover have "1 \<le> threshold demo_cb" by (simp add: demo_cb_def)
  ultimately have "(\<forall>n. int n < threshold demo_cb \<longrightarrow>
      fst (allow_request demo_cb (failures demo_cb ''ocr'' n empty_redis) ''ocr'')) \<and>
    \<not> fst (allow_request demo_cb (failures demo_cb ''ocr'' (nat (threshold demo_cb)) empty_redis) ''ocr'')"
    by (intro cb_opens_at_threshold)
  moreover have "int 1 < threshold demo_cb" by (simp add: demo_cb_def)
  ultimately show ?thesis by blast
qed

text \<open>
  An open breaker refuses requests and ignores further failures until its state key
  expires; the expiry forgets everything, so that again fewer than threshold failures
  leave it closed.
\<close>

theorem cb_open_until_cooldown:
  assumes "cb_reachable cb cap r" and "get r (state_key cb cap) = Some st_open"
  shows "\<not> fst (allow_request cb r cap) \<and> record_failure cb r cap = (st_open, r) \<and>
     (\<forall>n. int n < threshold cb \<longrightarrow>
        fst (allow_request cb (failures cb cap n (evict r (state_key cb cap))) cap))"
proof -
  have "get r (count_key cb cap) = None"
    using cb_reachable_inv [OF assms(1)] assms(2) by (simp add: cb_inv_def)
  then have c: "get (evict r (state_key cb cap)) (count_key cb cap) = None"
    by (simp add: store_simps)
  have s: "get (evict r (state_key cb cap)) (state_key cb cap) = None"
    by (simp add: store_simps)
  show ?thesis
    using assms(2) failures_below [OF s c]
    by (simp add: allow_request_open allow_request_absent cb_defs)
qed

theorem cb_open_until_cooldown_witness:
  "\<exists>r. cb_reachable demo_cb ''ocr'' r \<and> get r (state_key demo_cb ''ocr'') = Some st_open \<and>
     \<not> fst (allow_request demo_cb r ''ocr'')"
proof -
  let ?r = "failures demo_cb ''ocr'' 2 empty_redis"
  have none: "get empty_redis k = None" for k by (simp add: get_def empty_redis_def)
  have "cb_reachable demo_cb ''ocr'' empty_redis"
    by (rule cb_reachable.init) (simp_all add: none)
  then have reach: "cb_reachable demo_cb ''ocr'' ?r"
    by (rule cb_reachable_failures)
  have "get ?r (state_key demo_cb ''ocr'') = Some st_open"
    using failures_at_threshold [of empty_redis demo_cb "''ocr''"] none by (simp add: demo_cb_def)
  with reach cb_open_until_cooldown [OF reach this] show ?thesis by blast
qed

text \<open>
  Breakers are independent: no step of one capability's breaker changes whether
  another capability's requests are let through.
\<close>

theorem cb_isolation:
  assumes "cb_step cb cap r r'" and "cap \<noteq> cap'"
  shows "fst (allow_request cb r' cap') = fst (allow_request cb r cap')"
  using cb_step_frame [OF assms]
  by (auto simp: allow_request_def cb_defs Let_def case_prod_unfold split: option.splits)

theorem cb_isolation_witness:
  "fst (allow_request demo_cb (snd (record_failure demo_cb empty_redis ''ocr'')) ''asr'') =
   fst (allow_request demo_cb empty_redis ''asr'')"
  by (rule cb_isolation [OF cb_step.failure]) simp

end
