(* ===== verification/Queue_Manager.thy ===== *)
theory Queue_Manager
  imports Circuit_Breaker
begin

text \<open>
  The priority queue (\<^verbatim>\<open>src/platform/queue_manager.py\<close> and its key names,
  \<^verbatim>\<open>src/platform/queue_keys.py\<close>). Per capability Redis holds a sorted set of waiting tasks
  (score: priority rank times ten to the thirteenth plus the time in milliseconds from which the task may
  run), a sorted set of running tasks, a hash of counters, a hash of limits, and a second
  sorted set and hash for step-level slots. Each Lua script is one function on the store;
  each Python method is a function that also threads the manager object, whose only
  mutable part is the statistics cache.
\<close>

subsection \<open>Keys\<close>

definition pending :: "string \<Rightarrow> string" where
  "pending cap = ''{queue:'' @ cap @ ''}:pending''"

definition running :: "string \<Rightarrow> string" where
  "running cap = ''{queue:'' @ cap @ ''}:running''"

definition stats :: "string \<Rightarrow> string" where
  "stats cap = ''{queue:'' @ cap @ ''}:stats''"

definition config :: "string \<Rightarrow> string" where
  "config cap = ''{queue:'' @ cap @ ''}:config''"

definition slot_running :: "string \<Rightarrow> string" where
  "slot_running cap = ''{slot:'' @ cap @ ''}:running''"

definition slot_config :: "string \<Rightarrow> string" where
  "slot_config cap = ''{slot:'' @ cap @ ''}:config''"

definition capabilities_key :: string where
  "capabilities_key = ''queue:capabilities:registry''"

lemma queue_keys_inj [key_simps]:
  "pending c = pending c' \<longleftrightarrow> c = c'" "running c = running c' \<longleftrightarrow> c = c'"
  "stats c = stats c' \<longleftrightarrow> c = c'" "config c = config c' \<longleftrightarrow> c = c'"
  "slot_running c = slot_running c' \<longleftrightarrow> c = c'" "slot_config c = slot_config c' \<longleftrightarrow> c = c'"
  by (simp_all add: pending_def running_def stats_def config_def slot_running_def slot_config_def)

lemma queue_keys_suffix:
  "rev (pending c) ! 3 = CHR ''d''" "rev (running c) ! 3 = CHR ''n''"
  "rev (stats c) ! 3 = CHR ''t''" "rev (config c) ! 3 = CHR ''n''"
  "rev (slot_running c) ! 3 = CHR ''n''" "rev (slot_config c) ! 3 = CHR ''n''"
  "running c ! Suc 0 = CHR ''q''" "config c ! Suc 0 = CHR ''q''"
  "slot_running c ! Suc 0 = CHR ''s''" "slot_config c ! Suc 0 = CHR ''s''"
  by (simp_all add: pending_def running_def stats_def config_def slot_running_def slot_config_def
      nth_append)

lemma queue_keys_neq [key_simps]:
  "pending c \<noteq> running c'" "running c \<noteq> pending c'"
  "pending c \<noteq> slot_running c'" "slot_running c \<noteq> pending c'"
  "running c \<noteq> slot_running c'" "slot_running c \<noteq> running c'"
  "stats c \<noteq> config c'" "config c \<noteq> stats c'"
  "stats c \<noteq> slot_config c'" "slot_config c \<noteq> stats c'"
  "config c \<noteq> slot_config c'" "slot_config c \<noteq> config c'"
proof -
  have neq3: "\<And>a b. rev a ! 3 \<noteq> rev b ! 3 \<Longrightarrow> a \<noteq> (b::string)" by auto
  have neq1: "\<And>a b. a ! Suc 0 \<noteq> b ! Suc 0 \<Longrightarrow> a \<noteq> (b::string)" by auto
  show "pending c \<noteq> running c'" "running c \<noteq> pending c'"
    "pending c \<noteq> slot_running c'" "slot_running c \<noteq> pending c'"
    "stats c \<noteq> config c'" "config c \<noteq> stats c'" "stats c \<noteq> slot_config c'" "slot_config c \<noteq> stats c'"
    by (rule neq3; simp add: queue_keys_suffix)+
  show "running c \<noteq> slot_running c'" "slot_running c \<noteq> running c'"
    "config c \<noteq> slot_config c'" "slot_config c \<noteq> config c'"
    by (rule neq1; simp add: queue_keys_suffix)+
qed

subsection \<open>Scores\<close>

definition ts_base :: int where
  "ts_base = 10000000000000"

definition encode_score :: "int \<Rightarrow> int \<Rightarrow> rat" where
  "encode_score priority ts = of_int (priority * ts_base + ts)"

text \<open>\<^verbatim>\<open>sc % 10000000000000\<close> in Lua.\<close>

definition score_ts :: "rat \<Rightarrow> rat" where
  "score_ts sc = sc - of_int ts_base * of_int \<lfloor>sc / of_int ts_base\<rfloor>"

subsection \<open>Lua scripts\<close>

text \<open>
  \<^verbatim>\<open>tonumber(redis.call('HGET', key, field) or default)\<close>, and the same followed by
  \<^verbatim>\<open>if not n or n <= 0 then n = default end\<close>.
\<close>

definition hget_number :: "redis \<Rightarrow> string \<Rightarrow> string \<Rightarrow> int \<Rightarrow> int option" where
  "hget_number r k f dflt = (case hget r k f of None \<Rightarrow> Some dflt | Some v \<Rightarrow> num_of v)"

definition limit :: "redis \<Rightarrow> string \<Rightarrow> string \<Rightarrow> int \<Rightarrow> int" where
  "limit r k f dflt = (case hget_number r k f dflt of
      None \<Rightarrow> dflt | Some n \<Rightarrow> if n \<le> 0 then dflt else n)"

definition refresh_ttl :: "int \<Rightarrow> string \<Rightarrow> redis \<Rightarrow> redis" where
  "refresh_ttl t k r = (let remaining = ttl r k
     in if remaining = -1 \<or> 2 * remaining < t then expire r k t else r)"

definition lua_enqueue ::
  "redis \<Rightarrow> string \<Rightarrow> string \<Rightarrow> string \<Rightarrow> rval \<Rightarrow> rat \<Rightarrow> int \<Rightarrow> int \<Rightarrow> (int \<times> int) \<times> redis" where
  "lua_enqueue r pkey skey ckey task score default_depth t =
     (let max_depth = limit r ckey ''max_queue_depth'' default_depth;
          cur = int (zcard r pkey)
      in if cur \<ge> max_depth then ((-1, cur), r)
         else let r1 = hincrby (zadd r pkey task score) skey ''total_enqueued'' 1;
                  cnt = int (zcard r1 pkey);
                  r2 = refresh_ttl t ckey (refresh_ttl t skey (refresh_ttl t pkey r1))
              in ((cur + 1, cnt), r2))"

definition lua_dequeue_ready ::
  "redis \<Rightarrow> string \<Rightarrow> string \<Rightarrow> string \<Rightarrow> string \<Rightarrow> int \<Rightarrow> int \<Rightarrow> nat \<Rightarrow> rval option \<times> redis" where
  "lua_dequeue_ready r pkey rkey skey ckey default_mc now_ms limit_n =
     (let max_concurrent = limit r ckey ''max_concurrent'' default_mc
      in if int (zcard r rkey) \<ge> max_concurrent then (None, r)
         else case List.find (\<lambda>(tid, sc). score_ts sc \<le> of_int now_ms)
                     (take limit_n (zrangebyscore r pkey NegInf PosInf)) of
                None \<Rightarrow> (None, r)
              | Some (tid, sc) \<Rightarrow>
                  (Some tid, hincrby (zadd (zrem r pkey tid) rkey tid (of_int now_ms))
                               skey ''total_dequeued'' 1))"

definition lua_cancel :: "redis \<Rightarrow> string \<Rightarrow> string \<Rightarrow> rval \<Rightarrow> int \<times> redis" where
  "lua_cancel r pkey rkey task =
     (if zrem_reply r pkey task = 1 then (1, zrem r pkey task)
      else (zrem_reply r rkey task, zrem r rkey task))"

definition lua_complete :: "redis \<Rightarrow> string \<Rightarrow> string \<Rightarrow> rval \<Rightarrow> string \<Rightarrow> redis" where
  "lua_complete r rkey skey task counter = hincrby (zrem r rkey task) skey counter 1"

definition lua_adjust_concurrent :: "redis \<Rightarrow> string \<Rightarrow> int \<Rightarrow> int \<Rightarrow> int \<times> redis" where
  "lua_adjust_concurrent r ckey delta default_val =
     (let cur = (case hget_number r ckey ''max_concurrent'' default_val of
                   None \<Rightarrow> default_val | Some n \<Rightarrow> n);
          new_val = max 1 (cur + delta)
      in (new_val, hset r ckey ''max_concurrent'' (RNum new_val)))"

definition lua_acquire_slot ::
  "redis \<Rightarrow> string \<Rightarrow> string \<Rightarrow> rval \<Rightarrow> int \<Rightarrow> int \<Rightarrow> int \<Rightarrow> int \<times> redis" where
  "lua_acquire_slot r rkey ckey slot default_mc now_ts t =
     (let max_concurrent = (case hget_number r ckey ''max_concurrent'' default_mc of
                              None \<Rightarrow> default_mc | Some n \<Rightarrow> n)
      in if int (zcard r rkey) \<ge> max_concurrent then (-1, r)
         else let r1 = zadd r rkey slot (of_int now_ts);
                  remaining = ttl r1 rkey
              in (1, if remaining = -1 \<or> 2 * remaining < t
                     then expire (expire r1 rkey t) ckey t else r1))"

definition lua_recover_concurrent :: "redis \<Rightarrow> string \<Rightarrow> int \<Rightarrow> int \<times> redis" where
  "lua_recover_concurrent r ckey default_baseline =
     (let baseline = (case hget_number r ckey ''max_concurrent_baseline'' default_baseline of
                        None \<Rightarrow> default_baseline | Some n \<Rightarrow> n);
          cur = (case hget_number r ckey ''max_concurrent'' baseline of
                   None \<Rightarrow> baseline | Some n \<Rightarrow> n)
      in if cur < baseline
         then (cur + 1, hset r ckey ''max_concurrent'' (RNum (cur + 1)))
         else (cur, r))"

subsection \<open>The manager object\<close>

record queue_stats =
  qs_capability :: string
  qs_pending :: int
  qs_running :: int
  total_enqueued :: int
  total_dequeued :: int
  total_completed :: int
  total_failed :: int

record QueueManager =
  cb :: "CircuitBreaker option"
  default_depth :: int
  default_mc :: int
  qm_ttl :: int
  scan_limit :: nat
  stats_cache :: "(string \<times> queue_stats) list"
  stats_cache_time :: time
  stats_cache_ttl :: time

text \<open>\<^verbatim>\<open>QueueManager.__init__\<close> with its default arguments.\<close>

definition new_QueueManager :: "CircuitBreaker option \<Rightarrow> QueueManager" where
  "new_QueueManager breaker = \<lparr>cb = breaker, default_depth = 1000, default_mc = 8, qm_ttl = 3600,
     scan_limit = 50, stats_cache = [], stats_cache_time = 0, stats_cache_ttl = 10\<rparr>"

datatype queue_error = CircuitOpen string

record enqueue_result =
  accepted :: bool
  queue_position :: int
  pending_count :: int

definition invalidate_stats_cache :: "QueueManager \<Rightarrow> QueueManager" where
  "invalidate_stats_cache qm = qm\<lparr>stats_cache_time := 0\<rparr>"

text \<open>\<^verbatim>\<open>self._cb is None or await self._cb.allow_request(capability)\<close>.\<close>

definition admit :: "QueueManager \<Rightarrow> redis \<Rightarrow> string \<Rightarrow> bool \<times> redis" where
  "admit qm r cap = (case cb qm of None \<Rightarrow> (True, r) | Some b \<Rightarrow> allow_request b r cap)"

definition ready_ts :: "int \<Rightarrow> time \<Rightarrow> int" where
  "ready_ts execute_after_ms now =
     (if execute_after_ms > ms now then execute_after_ms else ms now)"

definition enqueue ::
  "QueueManager \<Rightarrow> redis \<Rightarrow> time \<Rightarrow> string \<Rightarrow> string \<Rightarrow> int \<Rightarrow> int
   \<Rightarrow> (queue_error + enqueue_result) \<times> QueueManager \<times> redis" where
  "enqueue qm r now cap task_id priority execute_after_ms =
     (let (ok, r0) = admit qm r cap
      in if \<not> ok then (Inl (CircuitOpen cap), qm, r0)
         else let score = encode_score priority (ready_ts execute_after_ms now);
                  (reply, r1) = lua_enqueue r0 (pending cap) (stats cap) (config cap)
                                  (RText task_id) score (default_depth qm) (qm_ttl qm)
              in if fst reply = -1
                 then (Inr \<lparr>accepted = False, queue_position = -1, pending_count = snd reply\<rparr>, qm, r1)
                 else (Inr \<lparr>accepted = True, queue_position = fst reply, pending_count = snd reply\<rparr>,
                       invalidate_stats_cache qm, sadd r1 capabilities_key cap))"

definition dequeue_ready ::
  "QueueManager \<Rightarrow> redis \<Rightarrow> time \<Rightarrow> string \<Rightarrow> rval option \<times> redis" where
  "dequeue_ready qm r now cap =
     (let (ok, r0) = admit qm r cap
      in if \<not> ok then (None, r0)
         else lua_dequeue_ready r0 (pending cap) (running cap) (stats cap) (config cap)
                (default_mc qm) (ms now) (scan_limit qm))"

definition cancel :: "redis \<Rightarrow> string \<Rightarrow> string \<Rightarrow> bool \<times> redis" where
  "cancel r cap task_id =
     (let (removed, r') = lua_cancel r (pending cap) (running cap) (RText task_id)
      in (removed \<noteq> 0, r'))"

definition complete :: "QueueManager \<Rightarrow> redis \<Rightarrow> string \<Rightarrow> string \<Rightarrow> QueueManager \<times> redis" where
  "complete qm r cap task_id =
     (let r1 = lua_complete r (running cap) (stats cap) (RText task_id) ''total_completed'';
          r2 = (case cb qm of None \<Rightarrow> r1 | Some b \<Rightarrow> snd (record_success b r1 cap))
      in (invalidate_stats_cache qm, r2))"

definition fail :: "QueueManager \<Rightarrow> redis \<Rightarrow> string \<Rightarrow> string \<Rightarrow> QueueManager \<times> redis" where
  "fail qm r cap task_id =
     (let r1 = lua_complete r (running cap) (stats cap) (RText task_id) ''total_failed'';
          r2 = (case cb qm of None \<Rightarrow> r1 | Some b \<Rightarrow> snd (record_failure b r1 cap))
      in (invalidate_stats_cache qm, r2))"

definition release_running_slot :: "redis \<Rightarrow> string \<Rightarrow> string \<Rightarrow> redis" where
  "release_running_slot r cap task_id = zrem r (running cap) (RText task_id)"

definition adjust_concurrent :: "QueueManager \<Rightarrow> redis \<Rightarrow> string \<Rightarrow> int \<Rightarrow> bool \<Rightarrow> int \<times> redis" where
  "adjust_concurrent qm r cap delta slot =
     lua_adjust_concurrent r (if slot then slot_config cap else config cap) delta (default_mc qm)"

definition try_recover_concurrent :: "QueueManager \<Rightarrow> redis \<Rightarrow> string \<Rightarrow> int \<times> redis" where
  "try_recover_concurrent qm r cap = lua_recover_concurrent r (config cap) (default_mc qm)"

definition acquire_concurrency_slot ::
  "QueueManager \<Rightarrow> redis \<Rightarrow> time \<Rightarrow> string \<Rightarrow> string \<Rightarrow> int option \<Rightarrow> bool \<times> redis" where
  "acquire_concurrency_slot qm r now cap slot_id max_concurrent =
     (let mc = (case max_concurrent of None \<Rightarrow> default_mc qm
                | Some n \<Rightarrow> if n = 0 then default_mc qm else n);
          (reply, r') = lua_acquire_slot r (slot_running cap) (slot_config cap)
                          (RText slot_id) mc (ms now) (qm_ttl qm)
      in (reply = 1, r'))"

definition release_slot :: "redis \<Rightarrow> string \<Rightarrow> string \<Rightarrow> redis" where
  "release_slot r cap slot_id = zrem r (slot_running cap) (RText slot_id)"

text \<open>
  \<^verbatim>\<open>cleanup_stale_running\<close> and \<^verbatim>\<open>cleanup_stale_slots\<close>: one range query, then one removal
  per member found.
\<close>

definition cleanup_stale :: "redis \<Rightarrow> time \<Rightarrow> string \<Rightarrow> rat \<Rightarrow> nat \<times> redis" where
  "cleanup_stale r now key max_age =
     (let cutoff_ms = ms (now - max_age);
          stale = map fst (zrangebyscore r key NegInf (Score (of_int cutoff_ms)))
      in if stale = [] then (0, r)
         else (length stale, foldl (\<lambda>r m. zrem r key m) r stale))"

definition cleanup_stale_running :: "redis \<Rightarrow> time \<Rightarrow> string \<Rightarrow> rat \<Rightarrow> nat \<times> redis" where
  "cleanup_stale_running r now cap max_age = cleanup_stale r now (running cap) max_age"

definition cleanup_stale_slots :: "redis \<Rightarrow> time \<Rightarrow> string \<Rightarrow> rat \<Rightarrow> nat \<times> redis" where
  "cleanup_stale_slots r now cap max_age = cleanup_stale r now (slot_running cap) max_age"

record queue_snapshot =
  snap_capability :: string
  snap_pending :: int
  snap_running :: int
  max_queue_depth :: int
  max_concurrent :: int

text \<open>
  \<^verbatim>\<open>int(raw or default)\<close>; \<^verbatim>\<open>int\<close> raises on a text that is no number, which is \<open>None\<close>.
\<close>

definition int_or :: "rval option \<Rightarrow> int \<Rightarrow> int option" where
  "int_or raw dflt = (case raw of None \<Rightarrow> Some dflt | Some v \<Rightarrow>
     if v = RText [] then Some dflt else num_of v)"

definition get_queue_snapshot :: "QueueManager \<Rightarrow> redis \<Rightarrow> string \<Rightarrow> queue_snapshot option" where
  "get_queue_snapshot qm r cap =
     (case (int_or (hget r (config cap) ''max_queue_depth'') (default_depth qm),
            int_or (hget r (config cap) ''max_concurrent'') (default_mc qm)) of
        (Some d, Some m) \<Rightarrow> Some \<lparr>snap_capability = cap, snap_pending = int (zcard r (pending cap)),
            snap_running = int (zcard r (running cap)), max_queue_depth = d, max_concurrent = m\<rparr>
      | _ \<Rightarrow> None)"

subsection \<open>Capability discovery\<close>

text \<open>\<^verbatim>\<open>str.lstrip(chars)\<close> drops leading characters that occur in \<open>chars\<close>.\<close>

definition lstrip :: "string \<Rightarrow> string \<Rightarrow> string" where
  "lstrip chars s = dropWhile (\<lambda>c. c \<in> set chars) s"

definition strip :: "string \<Rightarrow> string \<Rightarrow> string" where
  "strip chars s = rev (lstrip chars (rev (lstrip chars s)))"

definition cap_of_key :: "string \<Rightarrow> string" where
  "cap_of_key key =
     strip ''{'' (lstrip ''queue:'' (lstrip ''{queue:'' (takeWhile (\<lambda>c. c \<noteq> CHR ''}'') key)))"

text \<open>
  \<open>scanned\<close> is what \<^verbatim>\<open>SCAN\<close> returns for the pattern \<^verbatim>\<open>*:pending\<close>; it is read only when
  the registry set is empty.
\<close>

definition discover_queue_capabilities :: "redis \<Rightarrow> string list \<Rightarrow> string list \<times> redis" where
  "discover_queue_capabilities r scanned =
     (let members = smembers r capabilities_key
      in if members \<noteq> [] then (members, r)
         else let caps = remdups (filter (\<lambda>c. c \<noteq> []) (map cap_of_key scanned))
              in (caps, foldl (\<lambda>r c. sadd r capabilities_key c) r caps))"

subsection \<open>Statistics cache\<close>

text \<open>
  The counters are only ever written by \<^verbatim>\<open>HINCRBY\<close>, so a field is absent or a number.
\<close>

definition stat_field :: "redis \<Rightarrow> string \<Rightarrow> string \<Rightarrow> int" where
  "stat_field r cap f = (case hget r (stats cap) f of None \<Rightarrow> 0
     | Some v \<Rightarrow> (case num_of v of None \<Rightarrow> 0 | Some i \<Rightarrow> i))"

definition read_stats :: "redis \<Rightarrow> string \<Rightarrow> queue_stats" where
  "read_stats r cap = \<lparr>qs_capability = cap, qs_pending = int (zcard r (pending cap)),
     qs_running = int (zcard r (running cap)),
     total_enqueued = stat_field r cap ''total_enqueued'',
     total_dequeued = stat_field r cap ''total_dequeued'',
     total_completed = stat_field r cap ''total_completed'',
     total_failed = stat_field r cap ''total_failed''\<rparr>"

definition refresh_stats_cache ::
  "QueueManager \<Rightarrow> redis \<Rightarrow> time \<Rightarrow> string list \<Rightarrow> QueueManager \<times> redis" where
  "refresh_stats_cache qm r now scanned =
     (let (caps, r') = discover_queue_capabilities r scanned;
          caps' = take 2000 caps
      in if caps' = [] then (qm\<lparr>stats_cache := []\<rparr>, r')
         else (qm\<lparr>stats_cache := map (\<lambda>c. (c, read_stats r' c)) caps', stats_cache_time := now\<rparr>, r'))"

definition zero_stats :: "string \<Rightarrow> queue_stats" where
  "zero_stats cap = \<lparr>qs_capability = cap, qs_pending = 0, qs_running = 0, total_enqueued = 0,
     total_dequeued = 0, total_completed = 0, total_failed = 0\<rparr>"

definition cache_stale :: "QueueManager \<Rightarrow> time \<Rightarrow> bool" where
  "cache_stale qm now \<longleftrightarrow> stats_cache qm = [] \<or> now - stats_cache_time qm > stats_cache_ttl qm"

definition get_queue_stats ::
  "QueueManager \<Rightarrow> redis \<Rightarrow> time \<Rightarrow> string list \<Rightarrow> string \<Rightarrow> queue_stats \<times> QueueManager \<times> redis" where
  "get_queue_stats qm r now scanned cap =
     (let (qm', r') = (if cache_stale qm now then refresh_stats_cache qm r now scanned else (qm, r))
      in (case map_of (stats_cache qm') cap of None \<Rightarrow> zero_stats cap | Some st \<Rightarrow> st, qm', r'))"

definition get_all_queue_stats ::
  "QueueManager \<Rightarrow> redis \<Rightarrow> time \<Rightarrow> string list
   \<Rightarrow> (string \<times> queue_stats) list \<times> QueueManager \<times> redis" where
  "get_all_queue_stats qm r now scanned =
     (let (qm', r') = (if cache_stale qm now then refresh_stats_cache qm r now scanned else (qm, r))
      in (stats_cache qm', qm', r'))"

text \<open>\<^verbatim>\<open>dequeue\<close>: the alias the consumer calls.\<close>

definition dequeue :: "QueueManager \<Rightarrow> redis \<Rightarrow> time \<Rightarrow> string \<Rightarrow> (rval \<times> string) option \<times> redis" where
  "dequeue qm r now cap =
     (let (t, r') = dequeue_ready qm r now cap
      in (case t of None \<Rightarrow> None | Some tid \<Rightarrow> Some (tid, cap), r'))"

end
