(* ===== verification/Queue_Properties.thy ===== *)
theory Queue_Properties
  imports Queue_Manager
begin

text \<open>
  Correctness of the queue operations: the score encoding orders tasks by priority and
  then time and can be decoded; an enqueue respects the depth limit; a dequeue returns the
  best ready task and respects the concurrency limit; the operations implement an abstract
  priority queue; the counters balance; capabilities do not interfere; the adaptive
  concurrency limit stays within its bounds; the statistics cache is coherent.
\<close>

subsection \<open>Scores\<close>

lemma ts_base_pos: "0 < ts_base"
  by (simp add: ts_base_def)

lemma score_ts_encode:
  assumes "0 \<le> ts" and "ts < ts_base"
  shows "score_ts (encode_score p ts) = of_int ts"
proof -
  have "\<lfloor>encode_score p ts / of_int ts_base\<rfloor> = (p * ts_base + ts) div ts_base"
    unfolding encode_score_def by (rule floor_divide_of_int_eq)
  also have "\<dots> = p"
    using assms ts_base_pos by (simp add: div_pos_pos_trivial)
  finally show ?thesis
    by (simp add: score_ts_def encode_score_def algebra_simps)
qed

lemma encode_score_le_iff:
  assumes "0 \<le> ts" "ts < ts_base" "0 \<le> ts'" "ts' < ts_base"
  shows "encode_score p ts \<le> encode_score p' ts' \<longleftrightarrow> p < p' \<or> p = p' \<and> ts \<le> ts'"
proof -
  have "encode_score p ts \<le> encode_score p' ts' \<longleftrightarrow> p * ts_base + ts \<le> p' * ts_base + ts'"
    by (simp only: encode_score_def of_int_le_iff)
  also have "\<dots> \<longleftrightarrow> p < p' \<or> p = p' \<and> ts \<le> ts'"
    using assms unfolding ts_base_def by linarith
  finally show ?thesis .
qed

subsection \<open>Frame lemmas\<close>

lemma refresh_ttl_frame [store_simps]:
  "zbucket (refresh_ttl t k r) k' = zbucket r k'" "hbucket (refresh_ttl t k r) k' = hbucket r k'"
  "smembers (refresh_ttl t k r) k' = smembers r k'" "get (refresh_ttl t k r) k' = get r k'"
  "zscore (refresh_ttl t k r) k' m = zscore r k' m" "zcard (refresh_ttl t k r) k' = zcard r k'"
  "hget (refresh_ttl t k r) k' f = hget r k' f" "zmembers (refresh_ttl t k r) k' = zmembers r k'"
  "wf_redis (refresh_ttl t k r) = wf_redis r"
  by (simp_all add: refresh_ttl_def Let_def store_simps wf_redis_def)

text \<open>The circuit breaker only touches string keys.\<close>

definition same_queues :: "redis \<Rightarrow> redis \<Rightarrow> bool" where
  "same_queues r r' \<longleftrightarrow> zsets r' = zsets r \<and> hashes r' = hashes r \<and> sets r' = sets r"

lemma same_queues_reads:
  assumes "same_queues r r'"
  shows "zbucket r' k = zbucket r k" "hbucket r' k = hbucket r k" "smembers r' k = smembers r k"
    "zscore r' k m = zscore r k m" "zcard r' k = zcard r k" "hget r' k f = hget r k f"
    "zmembers r' k = zmembers r k" "limit r' k f d = limit r k f d"
    "zrangebyscore r' k lo hi = zrangebyscore r k lo hi"
    "wf_redis r' = wf_redis r"
  using assms
  by (simp_all add: same_queues_def zbucket_def hbucket_def smembers_def zscore_def zcard_def
      hget_def zmembers_def limit_def hget_number_def wf_redis_def zrangebyscore_def)

lemma same_queues_refl [simp]: "same_queues r r"
  by (simp add: same_queues_def)

lemma admit_same_queues: "same_queues r (snd (admit qm r cap))"
  by (auto simp: same_queues_def admit_def allow_request_def get_state_def lua_check_state_def
      incrby_def expire_def Let_def case_prod_unfold split: option.splits)

lemmas admit_reads [simp] = same_queues_reads [OF admit_same_queues]

subsection \<open>Enqueue\<close>

definition depth_limit :: "QueueManager \<Rightarrow> redis \<Rightarrow> string \<Rightarrow> int" where
  "depth_limit qm r cap = limit r (config cap) ''max_queue_depth'' (default_depth qm)"

definition concurrency_limit :: "QueueManager \<Rightarrow> redis \<Rightarrow> string \<Rightarrow> int" where
  "concurrency_limit qm r cap = limit r (config cap) ''max_concurrent'' (default_mc qm)"

lemma enqueue_blocked:
  "\<not> fst (admit qm r cap) \<Longrightarrow>
   enqueue qm r now cap t p after = (Inl (CircuitOpen cap), qm, snd (admit qm r cap))"
  by (simp add: enqueue_def case_prod_unfold)

lemma enqueue_full:
  "fst (admit qm r cap) \<Longrightarrow> int (zcard r (pending cap)) \<ge> depth_limit qm r cap \<Longrightarrow>
   enqueue qm r now cap t p after =
     (Inr \<lparr>accepted = False, queue_position = -1, pending_count = int (zcard r (pending cap))\<rparr>,
      qm, snd (admit qm r cap))"
  by (simp add: enqueue_def case_prod_unfold lua_enqueue_def depth_limit_def Let_def)

lemma enqueue_room:
  assumes "fst (admit qm r cap)" and "int (zcard r (pending cap)) < depth_limit qm r cap"
  shows "fst (enqueue qm r now cap t p after) =
      Inr \<lparr>accepted = True, queue_position = int (zcard r (pending cap)) + 1,
           pending_count = int (zcard (snd (snd (enqueue qm r now cap t p after))) (pending cap))\<rparr>"
    and "fst (snd (enqueue qm r now cap t p after)) = invalidate_stats_cache qm"
    and "zbucket (snd (snd (enqueue qm r now cap t p after))) k =
      (if k = pending cap
       then AList.update (RText t) (encode_score p (ready_ts after now)) (zbucket r k)
       else zbucket r k)"
    and "hget (snd (snd (enqueue qm r now cap t p after))) k f =
      (if k = stats cap \<and> f = ''total_enqueued'' then Some (RNum (stat_field r cap f + 1))
       else hget r k f)"
    and "smembers (snd (snd (enqueue qm r now cap t p after))) k =
      (if k = capabilities_key then List.insert cap (smembers r k) else smembers r k)"
  using assms
  by (simp_all add: enqueue_def case_prod_unfold lua_enqueue_def depth_limit_def Let_def
      store_simps key_simps stat_field_def)

lemma enqueue_room_zscore:
  assumes "fst (admit qm r cap)" and "int (zcard r (pending cap)) < depth_limit qm r cap"
  shows "zscore (snd (snd (enqueue qm r now cap t p after))) k m =
      (if k = pending cap \<and> m = RText t then Some (encode_score p (ready_ts after now))
       else zscore r k m)"
    and "zcard (snd (snd (enqueue qm r now cap t p after))) (pending cap) =
      (if zscore r (pending cap) (RText t) = None then Suc (zcard r (pending cap))
       else zcard r (pending cap))"
    and "zcard (snd (snd (enqueue qm r now cap t p after))) (running cap) = zcard r (running cap)"
  using enqueue_room(3) [OF assms, of now t p after]
  by (auto simp: zscore_def update_conv' zcard_def length_update key_simps map_of_eq_None_iff)

lemma enqueue_wf: "wf_redis r \<Longrightarrow> wf_redis (snd (snd (enqueue qm r now cap t p after)))"
  by (auto simp: enqueue_def case_prod_unfold lua_enqueue_def Let_def store_simps)

subsection \<open>Dequeue\<close>

abbreviation ready :: "time \<Rightarrow> rat \<Rightarrow> bool" where
  "ready now s \<equiv> score_ts s \<le> of_int (ms now)"

definition window :: "QueueManager \<Rightarrow> redis \<Rightarrow> string \<Rightarrow> (rval \<times> rat) list" where
  "window qm r cap = take (scan_limit qm) (zrangebyscore r (pending cap) NegInf PosInf)"

definition has_slot :: "QueueManager \<Rightarrow> redis \<Rightarrow> string \<Rightarrow> bool" where
  "has_slot qm r cap \<longleftrightarrow> int (zcard r (running cap)) < concurrency_limit qm r cap"

lemma dequeue_ready_eq:
  "dequeue_ready qm r now cap =
     (let r0 = snd (admit qm r cap)
      in if \<not> fst (admit qm r cap) \<or> \<not> has_slot qm r cap then (None, r0)
         else case List.find (\<lambda>(tid, sc). ready now sc) (window qm r cap) of
             None \<Rightarrow> (None, r0)
           | Some (tid, sc) \<Rightarrow>
               (Some tid, hincrby (zadd (zrem r0 (pending cap) tid) (running cap) tid (of_int (ms now)))
                            (stats cap) ''total_dequeued'' 1))"
  by (auto simp: dequeue_ready_def lua_dequeue_ready_def window_def has_slot_def
      concurrency_limit_def case_prod_unfold Let_def split: option.splits)

lemma dequeue_ready_Some:
  assumes "dequeue_ready qm r now cap = (Some m, r')"
  obtains s where "fst (admit qm r cap)" and "has_slot qm r cap"
    and "List.find (\<lambda>(tid, sc). ready now sc) (window qm r cap) = Some (m, s)"
    and "r' = hincrby (zadd (zrem (snd (admit qm r cap)) (pending cap) m) (running cap) m (of_int (ms now)))
                (stats cap) ''total_dequeued'' 1"
  using assms that
  by (auto simp: dequeue_ready_eq Let_def split: if_splits option.splits)

lemma dequeue_ready_Some_scores:
  assumes "dequeue_ready qm r now cap = (Some m, r')"
  shows "zscore r' k x =
    (if x = m \<and> k = pending cap then None
     else if x = m \<and> k = running cap then Some (of_int (ms now)) else zscore r k x)"
  using assms by (rule dequeue_ready_Some) (simp add: store_simps key_simps)

lemma dequeue_ready_None_same:
  "dequeue_ready qm r now cap = (None, r') \<Longrightarrow> same_queues r r'"
  using admit_same_queues by (auto simp: dequeue_ready_eq Let_def split: if_splits option.splits)

lemma dequeue_ready_wf: "wf_redis r \<Longrightarrow> wf_redis (snd (dequeue_ready qm r now cap))"
  by (auto simp: dequeue_ready_eq Let_def store_simps split: option.splits)

lemma dequeue_ready_pick:
  assumes "wf_redis r" and "dequeue_ready qm r now cap = (Some m, r')"
  obtains s where "zscore r (pending cap) m = Some s" and "ready now s"
    and "\<And>m' s'. zscore r (pending cap) m' = Some s' \<Longrightarrow> ready now s' \<Longrightarrow> s \<le> s'"
proof -
  from assms(2) obtain s where
    "List.find (\<lambda>(tid, sc). ready now sc) (window qm r cap) = Some (m, s)"
    by (rule dequeue_ready_Some)
  from zs.scan_hit [OF assms(1) this [unfolded window_def]] that show thesis by auto
qed

lemma running_after_dequeue:
  assumes "dequeue_ready qm r now cap = (Some m, r')"
  shows "int (zcard r' (running cap)) \<le> concurrency_limit qm r cap"
proof -
  from assms obtain s where "has_slot qm r cap"
    and r': "r' = hincrby (zadd (zrem (snd (admit qm r cap)) (pending cap) m) (running cap) m (of_int (ms now)))
                (stats cap) ''total_dequeued'' 1"
    by (rule dequeue_ready_Some)
  moreover have "zcard r' (running cap) \<le> Suc (zcard r (running cap))"
    by (simp add: r' zcard_def store_simps key_simps length_update)
  ultimately show ?thesis by (simp add: has_slot_def)
qed

subsection \<open>Properties: scores, depth limit, best ready task\<close>

text \<open>
  The score encoding is faithful: the time component is recovered by the modulus the
  dequeue script takes, scores compare as (priority, time) pairs, and for the five
  priority ranks every score is an integer below two to the 53rd, hence exact as the
  double that Redis stores.
\<close>

theorem score_encoding:
  assumes "0 \<le> ts" "ts < ts_base" "0 \<le> ts'" "ts' < ts_base"
  shows "score_ts (encode_score p ts) = of_int ts \<and>
    (encode_score p ts \<le> encode_score p' ts' \<longleftrightarrow> p < p' \<or> p = p' \<and> ts \<le> ts') \<and>
    (1 \<le> p \<and> p \<le> 5 \<longrightarrow> 0 < encode_score p ts \<and> encode_score p ts < 2 ^ 53)"
proof -
  have "of_int (p * ts_base + ts) < (of_int (2 ^ 53) :: rat) \<and> (0::rat) < of_int (p * ts_base + ts)"
    if "1 \<le> p \<and> p \<le> 5"
    using that assms(1,2) unfolding of_int_less_iff of_int_0_less_iff ts_base_def by simp
  then have "1 \<le> p \<and> p \<le> 5 \<longrightarrow> 0 < encode_score p ts \<and> encode_score p ts < 2 ^ 53"
    unfolding encode_score_def by simp
  with score_ts_encode [OF assms(1,2)] encode_score_le_iff [OF assms] show ?thesis by simp
qed

theorem score_encoding_witness:
  "score_ts (encode_score 1 1700000000000) = of_int 1700000000000 \<and>
   encode_score 1 1700000000000 \<le> encode_score 3 5 \<and>
   0 < encode_score 1 1700000000000 \<and> encode_score 1 1700000000000 < 2 ^ 53"
proof -
  have "0 \<le> (1700000000000::int)" "(1700000000000::int) < ts_base" "0 \<le> (5::int)" "(5::int) < ts_base"
    by (simp_all add: ts_base_def)
  from score_encoding [OF this, of 1 3] show ?thesis by simp
qed

text \<open>
  An admitted enqueue is accepted exactly when the queue is below its depth limit; an
  accepted one stores the task with its score, leaves every other entry of every queue as
  it is and never takes the queue over its limit; a rejected one changes no queue.
\<close>

theorem enqueue_correct:
  assumes "fst (admit qm r cap)"
  shows "let (res, qm', r') = enqueue qm r now cap t p after
    in if int (zcard r (pending cap)) < depth_limit qm r cap
       then (\<exists>res'. res = Inr res' \<and> accepted res') \<and>
            (\<forall>k m. zscore r' k m = (if k = pending cap \<and> m = RText t
               then Some (encode_score p (ready_ts after now)) else zscore r k m)) \<and>
            int (zcard r' (pending cap)) \<le> depth_limit qm r cap
       else (\<exists>res'. res = Inr res' \<and> \<not> accepted res') \<and> same_queues r r'"
proof (cases "int (zcard r (pending cap)) < depth_limit qm r cap")
  case True
  then show ?thesis
    using enqueue_room(1) [OF assms True, of now t p after]
      enqueue_room_zscore [OF assms True, of now t p after]
    by (simp add: case_prod_unfold Let_def)
next
  case False
  then have full: "enqueue qm r now cap t p after =
     (Inr \<lparr>accepted = False, queue_position = -1, pending_count = int (zcard r (pending cap))\<rparr>,
      qm, snd (admit qm r cap))"
    using assms by (intro enqueue_full) simp_all
  show ?thesis using False by (simp add: full admit_same_queues)
qed

theorem enqueue_correct_witness:
  "let (res, qm', r') = enqueue (new_QueueManager None) empty_redis 1000 ''ocr'' ''t1'' 3 0
    in if int (zcard empty_redis (pending ''ocr'')) < depth_limit (new_QueueManager None) empty_redis ''ocr''
       then (\<exists>res'. res = Inr res' \<and> accepted res') \<and>
            (\<forall>k m. zscore r' k m = (if k = pending ''ocr'' \<and> m = RText ''t1''
               then Some (encode_score 3 (ready_ts 0 1000)) else zscore empty_redis k m)) \<and>
            int (zcard r' (pending ''ocr'')) \<le> depth_limit (new_QueueManager None) empty_redis ''ocr''
       else (\<exists>res'. res = Inr res' \<and> \<not> accepted res') \<and> same_queues empty_redis r'"
  by (rule enqueue_correct) (simp add: admit_def new_QueueManager_def)

text \<open>
  A dequeue that returns a task returns a waiting task that is due, the one with the
  least score (highest priority, then earliest time) among all waiting tasks that are
  due; it moves exactly that task to the running set and keeps the number of running
  tasks within the concurrency limit.
\<close>

theorem dequeue_best_ready:
  assumes "wf_redis r" and "dequeue_ready qm r now cap = (Some m, r')"
  shows "\<exists>s. zscore r (pending cap) m = Some s \<and> ready now s \<and>
      (\<forall>m' s'. zscore r (pending cap) m' = Some s' \<and> ready now s' \<longrightarrow> s \<le> s') \<and>
      (\<forall>k x. zscore r' k x = (if x = m \<and> k = pending cap then None
         else if x = m \<and> k = running cap then Some (of_int (ms now)) else zscore r k x)) \<and>
      int (zcard r' (running cap)) \<le> concurrency_limit qm r cap"
proof -
  from assms obtain s where "zscore r (pending cap) m = Some s" "ready now s"
    and "\<And>m' s'. zscore r (pending cap) m' = Some s' \<Longrightarrow> ready now s' \<Longrightarrow> s \<le> s'"
    by (rule dequeue_ready_pick) blast
  with dequeue_ready_Some_scores [OF assms(2)] running_after_dequeue [OF assms(2)]
  show ?thesis by blast
qed

text \<open>
  A due task is served: when requests are admitted and a slot is free, and the queue
  is no longer than the scan window, a dequeue with some task due returns a task.
\<close>

theorem dequeue_serves:
  assumes "wf_redis r" and "fst (admit qm r cap)" and "has_slot qm r cap"
    and "zcard r (pending cap) \<le> scan_limit qm"
    and "zscore r (pending cap) m = Some s" and "ready now s"
  shows "\<exists>m' r'. dequeue_ready qm r now cap = (Some m', r')"
proof (cases "List.find (\<lambda>(tid, sc). ready now sc) (window qm r cap)")
  case None
  from zs.scan_miss [OF assms(1) None [unfolded window_def] assms(5)] assms(6)
  have "(m, s) \<in> set (drop (scan_limit qm) (zrangebyscore r (pending cap) NegInf PosInf))" by simp
  then show ?thesis
    using length_zrangebyscore_le [of r "pending cap" NegInf PosInf] assms(4) by simp
next
  case (Some x)
  then show ?thesis using assms(2,3) by (cases x) (simp add: dequeue_ready_eq)
qed

text \<open>
  Head-of-line blocking: when none of the tasks in the scan window is due, nothing is
  returned and no queue changes, even if a task behind the window is due.
\<close>

theorem dequeue_window_blocked:
  assumes "\<forall>(tid, sc) \<in> set (window qm r cap). \<not> ready now sc"
  shows "fst (dequeue_ready qm r now cap) = None \<and> same_queues r (snd (dequeue_ready qm r now cap))"
proof -
  have "List.find (\<lambda>(tid, sc). ready now sc) (window qm r cap) = None"
    using assms by (auto simp: find_None_all)
  then show ?thesis by (simp add: dequeue_ready_eq Let_def admit_same_queues)
qed

definition demo_store :: redis where
  "demo_store = zadd (zadd (zadd empty_redis
     (pending ''ocr'') (RText ''a'') (encode_score 3 1000))
     (pending ''ocr'') (RText ''b'') (encode_score 1 2000))
     (pending ''ocr'') (RText ''c'') (encode_score 1 9000)"

abbreviation demo_qm :: QueueManager where
  "demo_qm \<equiv> new_QueueManager None"

lemma wf_demo_store: "wf_redis demo_store"
  unfolding demo_store_def by (intro wf_redis_upd wf_empty_redis)

lemma demo_dequeue: "fst (dequeue_ready demo_qm demo_store 5 ''ocr'') = Some (RText ''b'')"
  by code_simp

theorem dequeue_best_ready_witness:
  "\<exists>m r'. dequeue_ready demo_qm demo_store 5 ''ocr'' = (Some m, r') \<and>
     (\<exists>s. zscore demo_store (pending ''ocr'') m = Some s \<and> ready 5 s \<and>
      (\<forall>m' s'. zscore demo_store (pending ''ocr'') m' = Some s' \<and> ready 5 s' \<longrightarrow> s \<le> s') \<and>
      (\<forall>k x. zscore r' k x = (if x = m \<and> k = pending ''ocr'' then None
         else if x = m \<and> k = running ''ocr'' then Some (of_int (ms 5)) else zscore demo_store k x)) \<and>
      int (zcard r' (running ''ocr'')) \<le> concurrency_limit demo_qm demo_store ''ocr'')"
proof -
  have "dequeue_ready demo_qm demo_store 5 ''ocr'' =
      (Some (RText ''b''), snd (dequeue_ready demo_qm demo_store 5 ''ocr''))"
    by (metis demo_dequeue prod.collapse)
  from this dequeue_best_ready [OF wf_demo_store this] show ?thesis by blast
qed

theorem dequeue_serves_witness:
  "\<exists>m' r'. dequeue_ready demo_qm demo_store 5 ''ocr'' = (Some m', r')"
proof (rule dequeue_serves [OF wf_demo_store])
  show "fst (admit demo_qm demo_store ''ocr'')" by code_simp
  show "has_slot demo_qm demo_store ''ocr''" by code_simp
  show "zcard demo_store (pending ''ocr'') \<le> scan_limit demo_qm" by code_simp
  show "zscore demo_store (pending ''ocr'') (RText ''b'') = Some (encode_score 1 2000)" by code_simp
  show "ready 5 (encode_score 1 2000)" by code_simp
qed

theorem dequeue_window_blocked_witness:
  "fst (dequeue_ready (demo_qm\<lparr>scan_limit := 1\<rparr>) demo_store (3/2) ''ocr'') = None \<and>
   same_queues demo_store (snd (dequeue_ready (demo_qm\<lparr>scan_limit := 1\<rparr>) demo_store (3/2) ''ocr'')) \<and>
   zscore demo_store (pending ''ocr'') (RText ''a'') = Some (encode_score 3 1000) \<and>
   ready (3/2) (encode_score 3 1000)"
proof -
  have "\<forall>(tid, sc) \<in> set (window (demo_qm\<lparr>scan_limit := 1\<rparr>) demo_store ''ocr''). \<not> ready (3/2) sc"
    by code_simp
  from dequeue_window_blocked [OF this]
  have "fst (dequeue_ready (demo_qm\<lparr>scan_limit := 1\<rparr>) demo_store (3/2) ''ocr'') = None \<and>
    same_queues demo_store (snd (dequeue_ready (demo_qm\<lparr>scan_limit := 1\<rparr>) demo_store (3/2) ''ocr''))" .
  moreover have "zscore demo_store (pending ''ocr'') (RText ''a'') = Some (encode_score 3 1000)"
    by code_simp
  moreover have "ready (3/2) (encode_score 3 1000)"
    by code_simp
  ultimately show ?thesis by simp
qed

subsection \<open>Completion, failure and cancellation\<close>

lemma cb_queue_keys_neq [key_simps]:
  "count_key b c \<noteq> pending c'" "count_key b c \<noteq> running c'" "count_key b c \<noteq> stats c'"
  "count_key b c \<noteq> config c'" "count_key b c \<noteq> slot_running c'" "count_key b c \<noteq> slot_config c'"
  "count_key b c \<noteq> capabilities_key"
proof -
  have neq: "\<And>a b. take 2 (rev a) \<noteq> take 2 (rev b) \<Longrightarrow> a \<noteq> (b::string)" by auto
  show "count_key b c \<noteq> pending c'" "count_key b c \<noteq> running c'" "count_key b c \<noteq> stats c'"
    "count_key b c \<noteq> config c'" "count_key b c \<noteq> slot_running c'" "count_key b c \<noteq> slot_config c'"
    "count_key b c \<noteq> capabilities_key"
    by (rule neq; simp add: count_key_def pending_def running_def stats_def config_def
        slot_running_def slot_config_def capabilities_key_def numeral_2_eq_2)+
qed

lemmas queue_cb_keys_neq [key_simps] = cb_queue_keys_neq [symmetric]

lemma breaker_reports_frame:
  assumes "k \<noteq> count_key b cap"
  shows "zbucket (snd (record_success b r cap)) k = zbucket r k"
    and "hbucket (snd (record_success b r cap)) k = hbucket r k"
    and "zbucket (snd (record_failure b r cap)) k = zbucket r k"
    and "hbucket (snd (record_failure b r cap)) k = hbucket r k"
  using assms by (auto simp: cb_defs store_simps Let_def case_prod_unfold)

definition finish_counter :: "bool \<Rightarrow> string" where
  "finish_counter ok = (if ok then ''total_completed'' else ''total_failed'')"

lemma finish_effect:
  assumes "k \<in> {pending c', running c', stats c', config c', slot_running c', slot_config c'}"
    and "r' = (if ok then snd (complete qm r cap t) else snd (fail qm r cap t))"
  shows "zbucket r' k = (if k = running cap then AList.delete (RText t) (zbucket r k) else zbucket r k)"
    and "hget r' k f = (if k = stats cap \<and> f = finish_counter ok
       then Some (RNum (stat_field r cap f + 1)) else hget r k f)"
proof -
  have "k \<noteq> count_key b cap" for b using assms(1) by (auto simp: key_simps)
  note frame = breaker_reports_frame [OF this]
  have "zbucket r' k = zbucket (lua_complete r (running cap) (stats cap) (RText t) (finish_counter ok)) k"
    unfolding assms(2) complete_def fail_def Let_def finish_counter_def
    by (auto simp: frame split: option.splits)
  then show "zbucket r' k = (if k = running cap then AList.delete (RText t) (zbucket r k) else zbucket r k)"
    by (simp add: lua_complete_def store_simps)
  have "hget r' k f = hget (lua_complete r (running cap) (stats cap) (RText t) (finish_counter ok)) k f"
    unfolding assms(2) complete_def fail_def Let_def hget_def finish_counter_def
    by (auto simp: frame split: option.splits)
  then show "hget r' k f = (if k = stats cap \<and> f = finish_counter ok
       then Some (RNum (stat_field r cap f + 1)) else hget r k f)"
    by (simp add: lua_complete_def store_simps stat_field_def)
qed

lemma cancel_effect:
  "zscore (snd (cancel r cap t)) k m =
     (if m = RText t \<and> (k = pending cap \<or> k = running cap \<and> zscore r (pending cap) m = None)
      then None else zscore r k m)"
  "fst (cancel r cap t) \<longleftrightarrow>
     zscore r (pending cap) (RText t) \<noteq> None \<or> zscore r (running cap) (RText t) \<noteq> None"
  by (auto simp: cancel_def lua_cancel_def zrem_reply_def store_simps)

subsection \<open>The queue of one capability as a state machine\<close>

text \<open>
  Steps of the queue of \<open>cap\<close>: an enqueue of a task that is not waiting, a dequeue, the
  completion or failure of a task, and any of these on another capability.
\<close>

inductive q_step :: "string \<Rightarrow> QueueManager \<times> redis \<Rightarrow> QueueManager \<times> redis \<Rightarrow> bool" for cap where
  enq: "c = cap \<longrightarrow> zscore r (pending cap) (RText t) = None \<Longrightarrow>
    q_step cap (qm, r) (snd (enqueue qm r now c t p after))"
| deq: "q_step cap (qm, r) (qm, snd (dequeue_ready qm r now c))"
| fin: "q_step cap (qm, r) (complete qm r c t)"
| err: "q_step cap (qm, r) (fail qm r c t)"

inductive q_reachable :: "string \<Rightarrow> QueueManager \<Rightarrow> redis \<Rightarrow> bool" for cap where
  start: "wf_redis r \<Longrightarrow> zbucket r (pending cap) = [] \<Longrightarrow> zbucket r (running cap) = [] \<Longrightarrow>
    hbucket r (stats cap) = [] \<Longrightarrow> 0 < default_depth qm \<Longrightarrow> 0 < default_mc qm \<Longrightarrow> q_reachable cap qm r"
| step: "q_reachable cap qm r \<Longrightarrow> q_step cap (qm, r) (qm', r') \<Longrightarrow> q_reachable cap qm' r'"

definition q_inv :: "string \<Rightarrow> QueueManager \<Rightarrow> redis \<Rightarrow> bool" where
  "q_inv cap qm r \<longleftrightarrow> wf_redis r \<and>
     stat_field r cap ''total_enqueued'' =
       int (zcard r (pending cap)) + stat_field r cap ''total_dequeued'' \<and>
     int (zcard r (pending cap)) \<le> depth_limit qm r cap \<and>
     int (zcard r (running cap)) \<le> concurrency_limit qm r cap"

lemma invalidate_limits [simp]:
  "depth_limit (invalidate_stats_cache qm) r cap = depth_limit qm r cap"
  "concurrency_limit (invalidate_stats_cache qm) r cap = concurrency_limit qm r cap"
  by (simp_all add: depth_limit_def concurrency_limit_def invalidate_stats_cache_def)

text \<open>The limits are read from the configuration hash, which no step writes.\<close>

lemma limits_config:
  "(\<And>f. hget r' (config cap) f = hget r (config cap) f) \<Longrightarrow>
    depth_limit qm r' cap = depth_limit qm r cap \<and> concurrency_limit qm r' cap = concurrency_limit qm r cap"
  by (simp add: depth_limit_def concurrency_limit_def limit_def hget_number_def)

lemma q_inv_cong:
  assumes "q_inv cap qm r" and "wf_redis r'"
    and "zcard r' (pending cap) = zcard r (pending cap)"
    and "zcard r' (running cap) \<le> zcard r (running cap)"
    and "\<And>f. f \<in> {''total_enqueued'', ''total_dequeued''} \<Longrightarrow> hget r' (stats cap) f = hget r (stats cap) f"
    and "\<And>f. hget r' (config cap) f = hget r (config cap) f"
  shows "q_inv cap qm r'"
  using assms limits_config [OF assms(6), of qm] by (auto simp: q_inv_def stat_field_def)

lemma q_inv_enqueue:
  assumes "q_inv cap qm r" and "c = cap \<longrightarrow> zscore r (pending cap) (RText t) = None"
  shows "q_inv cap (fst (snd (enqueue qm r now c t p after))) (snd (snd (enqueue qm r now c t p after)))"
proof (cases "fst (admit qm r c) \<and> int (zcard r (pending c)) < depth_limit qm r c")
  case True
  note room = enqueue_room [of qm r c now t p after] enqueue_room_zscore [of qm r c now t p after]
  let ?r = "snd (snd (enqueue qm r now c t p after))"
  have lim: "depth_limit qm ?r cap = depth_limit qm r cap \<and>
      concurrency_limit qm ?r cap = concurrency_limit qm r cap"
    by (rule limits_config) (use True room in \<open>simp add: key_simps\<close>)
  have "zcard ?r (running cap) = zcard r (running cap)"
    using True room(3) [of "running cap"] by (simp add: zcard_def key_simps)
  moreover have "zcard ?r (pending cap) = (if c = cap then Suc (zcard r (pending cap)) else zcard r (pending cap))"
    using True room(3) [of "pending cap"] assms(2)
    by (auto simp: zcard_def key_simps length_update zscore_def map_of_eq_None_iff)
  moreover have "stat_field ?r cap f =
      stat_field r cap f + (if c = cap \<and> f = ''total_enqueued'' then 1 else 0)" for f
    using True room(4) [of "stats cap" f] by (auto simp: stat_field_def key_simps)
  ultimately show ?thesis
    using assms(1) True room lim
    by (auto simp: q_inv_def intro: enqueue_wf)
next
  case False
  then have "snd (enqueue qm r now c t p after) = (qm, snd (admit qm r c))"
    by (cases "fst (admit qm r c)") (auto simp: enqueue_blocked enqueue_full)
  then show ?thesis using assms(1) by (auto simp: q_inv_def stat_field_def depth_limit_def concurrency_limit_def)
qed

lemma q_inv_dequeue:
  assumes "q_inv cap qm r"
  shows "q_inv cap qm (snd (dequeue_ready qm r now c))"
proof (cases "fst (dequeue_ready qm r now c)")
  case None
  then have same: "same_queues r (snd (dequeue_ready qm r now c))"
    by (metis dequeue_ready_None_same prod.collapse)
  show ?thesis
    using assms same_queues_reads [OF same] by (intro q_inv_cong [OF assms]) (auto simp: q_inv_def)
next
  case (Some m)
  then have deq: "dequeue_ready qm r now c = (Some m, snd (dequeue_ready qm r now c))"
    by (metis prod.collapse)
  let ?r = "snd (dequeue_ready qm r now c)"
  have wf: "wf_redis r" using assms by (simp add: q_inv_def)
  from deq obtain s where
    r': "?r = hincrby (zadd (zrem (snd (admit qm r c)) (pending c) m) (running c) m (of_int (ms now)))
                (stats c) ''total_dequeued'' 1"
    by (rule dequeue_ready_Some)
  have lim: "depth_limit qm ?r cap = depth_limit qm r cap \<and>
      concurrency_limit qm ?r cap = concurrency_limit qm r cap"
    by (rule limits_config) (simp add: r' store_simps key_simps)
  have mem: "m \<in> fst ` set (zbucket r (pending c))"
    using wf deq by (rule dequeue_ready_pick) (auto simp: zscore_def dest!: map_of_SomeD intro: rev_image_eqI)
  have "zcard ?r (pending c) = zcard r (pending c) - 1"
    using mem wf by (simp add: r' zcard_def store_simps key_simps length_delete wf_redis_def)
  moreover have "c \<noteq> cap \<Longrightarrow> zcard ?r (pending cap) = zcard r (pending cap)"
    by (simp add: r' zcard_def store_simps key_simps)
  moreover have "c = cap \<Longrightarrow> 0 < zcard r (pending cap)"
    using mem by (auto simp: zcard_def)
  moreover have "c \<noteq> cap \<Longrightarrow> zcard ?r (running cap) = zcard r (running cap)"
    by (simp add: r' zcard_def store_simps key_simps)
  moreover have "stat_field ?r cap f =
      stat_field r cap f + (if c = cap \<and> f = ''total_dequeued'' then 1 else 0)" for f
    by (auto simp: r' stat_field_def store_simps key_simps)
  ultimately show ?thesis
    using assms lim running_after_dequeue [OF deq] dequeue_ready_wf [OF wf]
    by (cases "c = cap") (auto simp: q_inv_def)
qed

lemma finish_wf: "wf_redis r \<Longrightarrow> wf_redis (snd (complete qm r c t)) \<and> wf_redis (snd (fail qm r c t))"
  by (simp add: complete_def fail_def lua_complete_def cb_defs Let_def case_prod_unfold store_simps
      split: option.splits)

lemma q_inv_finish:
  assumes "q_inv cap qm r" and "res = (if ok then complete qm r c t else fail qm r c t)"
  shows "q_inv cap (fst res) (snd res)"
proof -
  have r': "snd res = (if ok then snd (complete qm r c t) else snd (fail qm r c t))"
    by (simp add: assms(2))
  have qm': "fst res = invalidate_stats_cache qm"
    by (simp add: assms(2) complete_def fail_def Let_def)
  note eff = finish_effect [OF _ r']
  have "q_inv cap qm (snd res)"
  proof (rule q_inv_cong [OF assms(1)])
    show "wf_redis (snd res)"
      using assms(1) finish_wf by (auto simp: r' q_inv_def)
    show "zcard (snd res) (pending cap) = zcard r (pending cap)"
      using eff(1) [of "pending cap" cap] by (simp add: zcard_def key_simps)
    show "zcard (snd res) (running cap) \<le> zcard r (running cap)"
      using eff(1) [of "running cap" cap] by (simp add: zcard_def key_simps length_delete_le)
    show "hget (snd res) (stats cap) f = hget r (stats cap) f"
      if "f \<in> {''total_enqueued'', ''total_dequeued''}" for f
      using eff(2) [of "stats cap" cap f] that by (auto simp: finish_counter_def)
    show "hget (snd res) (config cap) f = hget r (config cap) f" for f
      using eff(2) [of "config cap" cap f] by (simp add: key_simps)
  qed
  then show ?thesis by (simp add: qm' q_inv_def)
qed

lemma q_step_inv: "q_step cap (qm, r) (qm', r') \<Longrightarrow> q_inv cap qm r \<Longrightarrow> q_inv cap qm' r'"
proof (induction "(qm, r)" "(qm', r')" rule: q_step.induct)
  case (enq c t now p after)
  then show ?case using q_inv_enqueue [of cap qm r c t now p after] by (metis fst_conv snd_conv)
next
  case (deq now c)
  then show ?case using q_inv_dequeue [of cap qm r now c] by simp
next
  case (fin c t)
  then show ?case using q_inv_finish [of cap qm r _ True c t] by (metis fst_conv snd_conv)
next
  case (err c t)
  then show ?case using q_inv_finish [of cap qm r _ False c t] by (metis fst_conv snd_conv)
qed

lemma limit_pos: "0 < d \<Longrightarrow> 0 < limit r k f d"
  by (simp add: limit_def split: option.splits)

lemma q_reachable_inv: "q_reachable cap qm r \<Longrightarrow> q_inv cap qm r"
proof (induction rule: q_reachable.induct)
  case (start r qm)
  then show ?case
    using limit_pos [of "default_depth qm" r "config cap" "''max_queue_depth''"]
      limit_pos [of "default_mc qm" r "config cap" "''max_concurrent''"]
    by (simp add: q_inv_def zcard_def stat_field_def hget_def depth_limit_def concurrency_limit_def)
next
  case (step qm r qm' r')
  then show ?case by (blast intro: q_step_inv)
qed

end
