(* ===== verification/Queue_Refinement.thy ===== *)
theory Queue_Refinement
  imports Queue_Properties "HOL-Library.Product_Lexorder"
begin

text \<open>
  The queue of one capability as an abstract priority queue: a map from waiting task to
  its (priority, ready time) and a set of active tasks. The locale \<open>priority_queue\<close> states
  what a client may rely on and proves, once, what a client that keeps taking tasks sees:
  distinct tasks, in (priority, time) order. It is interpreted on \<open>enqueue\<close> and
  \<open>dequeue_ready\<close>; the abstraction decodes the scores.
\<close>

text \<open>A client that takes up to \<open>n\<close> tasks.\<close>

fun drain :: "('s \<Rightarrow> ('a \<times> 's) option) \<Rightarrow> nat \<Rightarrow> 's \<Rightarrow> 'a list \<times> 's" where
  "drain f 0 s = ([], s)"
| "drain f (Suc n) s = (case f s of None \<Rightarrow> ([], s)
     | Some (x, s') \<Rightarrow> (let (xs, s'') = drain f n s' in (x # xs, s'')))"

locale priority_queue =
  fixes waiting :: "'s \<Rightarrow> (string \<rightharpoonup> int \<times> int)"
    and active :: "'s \<Rightarrow> string \<Rightarrow> bool"
    and invar :: "'s \<Rightarrow> bool"
    and put :: "'s \<Rightarrow> time \<Rightarrow> string \<Rightarrow> int \<Rightarrow> int \<Rightarrow> 's option"
    and get_next :: "time \<Rightarrow> 's \<Rightarrow> (string \<times> 's) option"
    and due :: "time \<Rightarrow> int \<times> int \<Rightarrow> bool"
  assumes put_Some: "invar s \<Longrightarrow> put s now t p after = Some s' \<Longrightarrow>
      invar s' \<and> (\<exists>ts. after \<le> ts \<and> waiting s' = (waiting s)(t \<mapsto> (p, ts))) \<and> active s' = active s"
    and next_waiting: "invar s \<Longrightarrow> get_next now s = Some (t, s') \<Longrightarrow>
      \<exists>e. waiting s t = Some e \<and> due now e"
    and next_best: "invar s \<Longrightarrow> get_next now s = Some (t, s') \<Longrightarrow> waiting s t = Some e \<Longrightarrow>
      waiting s t' = Some e' \<Longrightarrow> due now e' \<Longrightarrow> e \<le> e'"
    and next_moves: "invar s \<Longrightarrow> get_next now s = Some (t, s') \<Longrightarrow>
      waiting s' = (waiting s)(t := None) \<and> active s' = (active s)(t := True)"
    and invar_next: "invar s \<Longrightarrow> get_next now s = Some (t, s') \<Longrightarrow> invar s'"
begin

lemma drain_spec:
  assumes "invar s" and "drain (get_next now) n s = (ts, s')"
  shows "distinct ts \<and> sorted (map (\<lambda>t. the (waiting s t)) ts) \<and>
    (\<forall>t \<in> set ts. \<exists>e. waiting s t = Some e \<and> due now e) \<and>
    (\<forall>t. waiting s' t = (if t \<in> set ts then None else waiting s t)) \<and>
    (\<forall>t. active s' t = (t \<in> set ts \<or> active s t))"
  using assms
proof (induction n arbitrary: s ts)
  case 0
  then show ?case by simp
next
  case (Suc n)
  show ?case
  proof (cases "get_next now s")
    case None
    with Suc.prems show ?thesis by simp
  next
    case (Some q)
    then obtain t s1 where nxt: "get_next now s = Some (t, s1)" by (cases q) auto
    with Suc.prems obtain us where us: "drain (get_next now) n s1 = (us, s')" and ts: "ts = t # us"
      by (auto split: prod.splits)
    obtain e where e: "waiting s t = Some e" "due now e"
      using next_waiting [OF Suc.prems(1) nxt] by blast
    note moves = next_moves [OF Suc.prems(1) nxt]
    note IH = Suc.IH [OF invar_next [OF Suc.prems(1) nxt] us]
    have us_in: "u \<noteq> t \<and> (\<exists>e'. waiting s u = Some e' \<and> due now e')" if "u \<in> set us" for u
      using IH moves that by (auto split: if_splits)
    then have "e \<le> the (waiting s u)" if "u \<in> set us" for u
      using next_best [OF Suc.prems(1) nxt e(1)] that by fastforce
    moreover have "map (\<lambda>u. the (waiting s1 u)) us = map (\<lambda>u. the (waiting s u)) us"
      using us_in moves by auto
    with IH have "sorted (map (\<lambda>u. the (waiting s u)) us)" by simp
    moreover have "t \<notin> set us" using us_in by blast
    ultimately have "distinct ts \<and> sorted (map (\<lambda>u. the (waiting s u)) ts)"
      using IH e(1) by (simp add: ts)
    moreover have "\<forall>u \<in> set ts. \<exists>e. waiting s u = Some e \<and> due now e"
      using us_in e by (auto simp: ts simp del: split_paired_Ex)
    moreover have "\<forall>u. waiting s' u = (if u \<in> set ts then None else waiting s u)"
      using IH moves by (simp add: ts)
    moreover have "\<forall>u. active s' u = (u \<in> set ts \<or> active s u)"
      using IH moves by (simp add: ts)
    ultimately show ?thesis by blast
  qed
qed

end

subsection \<open>The abstraction\<close>

definition decode_score :: "rat \<Rightarrow> int \<times> int" where
  "decode_score s = (\<lfloor>s\<rfloor> div ts_base, \<lfloor>s\<rfloor> mod ts_base)"

definition q_waiting :: "string \<Rightarrow> redis \<Rightarrow> (string \<rightharpoonup> int \<times> int)" where
  "q_waiting cap r t = map_option decode_score (zscore r (pending cap) (RText t))"

definition q_active :: "string \<Rightarrow> redis \<Rightarrow> string \<Rightarrow> bool" where
  "q_active cap r t \<longleftrightarrow> zscore r (running cap) (RText t) \<noteq> None"

text \<open>Every waiting entry is a task with an encoded score.\<close>

definition q_ok :: "string \<Rightarrow> redis \<Rightarrow> bool" where
  "q_ok cap r \<longleftrightarrow> wf_redis r \<and> (\<forall>m s. zscore r (pending cap) m = Some s \<longrightarrow>
     (\<exists>t p ts. m = RText t \<and> s = encode_score p ts \<and> 0 \<le> ts \<and> ts < ts_base))"

definition q_put :: "QueueManager \<Rightarrow> string \<Rightarrow> redis \<Rightarrow> time \<Rightarrow> string \<Rightarrow> int \<Rightarrow> int \<Rightarrow> redis option" where
  "q_put qm cap r now t p after =
     (case enqueue qm r now cap t p after of
        (Inr res, qm', r') \<Rightarrow>
          if accepted res \<and> 0 \<le> now \<and> ready_ts after now < ts_base then Some r' else None
      | (Inl e, qm', r') \<Rightarrow> None)"

definition q_next :: "QueueManager \<Rightarrow> string \<Rightarrow> time \<Rightarrow> redis \<Rightarrow> (string \<times> redis) option" where
  "q_next qm cap now r = (case dequeue_ready qm r now cap of
      (Some (RText t), r') \<Rightarrow> Some (t, r') | _ \<Rightarrow> None)"

definition due :: "time \<Rightarrow> int \<times> int \<Rightarrow> bool" where
  "due now e \<longleftrightarrow> snd e \<le> ms now"

lemma decode_encode:
  assumes "0 \<le> ts" and "ts < ts_base"
  shows "decode_score (encode_score p ts) = (p, ts)"
  using assms ts_base_pos
  by (simp add: decode_score_def encode_score_def flip: of_int_mult of_int_add)

lemma ready_due:
  "0 \<le> ts \<Longrightarrow> ts < ts_base \<Longrightarrow> ready now (encode_score p ts) \<longleftrightarrow> due now (p, ts)"
  by (simp add: score_ts_encode due_def)

lemma q_waiting_Some:
  assumes "q_ok cap r"
  shows "q_waiting cap r t = Some (p, ts) \<longleftrightarrow>
    zscore r (pending cap) (RText t) = Some (encode_score p ts) \<and> 0 \<le> ts \<and> ts < ts_base"
proof
  assume "q_waiting cap r t = Some (p, ts)"
  then obtain s where s: "zscore r (pending cap) (RText t) = Some s" "decode_score s = (p, ts)"
    by (auto simp: q_waiting_def)
  with assms obtain p' ts' where "s = encode_score p' ts'" "0 \<le> ts'" "ts' < ts_base"
    unfolding q_ok_def by metis
  with s show "zscore r (pending cap) (RText t) = Some (encode_score p ts) \<and> 0 \<le> ts \<and> ts < ts_base"
    by (simp add: decode_encode)
qed (simp add: q_waiting_def decode_encode)

lemma enqueue_Inr_accepted:
  assumes "enqueue qm r now cap t p after = (Inr res, qm', r')" and "accepted res"
  shows "fst (admit qm r cap)" and "int (zcard r (pending cap)) < depth_limit qm r cap"
proof -
  show adm: "fst (admit qm r cap)"
    using assms(1) enqueue_blocked [of qm r cap now t p after] by auto
  show "int (zcard r (pending cap)) < depth_limit qm r cap"
    using assms enqueue_full [OF adm, of now t p after] by (cases "depth_limit qm r cap \<le> int (zcard r (pending cap))") auto
qed

lemma ready_ts_ge: "after \<le> ready_ts after now"
  by (simp add: ready_ts_def)

lemma q_put_Some:
  assumes "q_ok cap r" and "q_put qm cap r now t p after = Some r'"
  shows "q_ok cap r' \<and> q_active cap r' = q_active cap r \<and>
    q_waiting cap r' = (q_waiting cap r)(t \<mapsto> (p, ready_ts after now))"
proof -
  from assms(2) obtain res qm' where enq: "enqueue qm r now cap t p after = (Inr res, qm', r')"
    and "accepted res" and now: "0 \<le> now" and ub: "ready_ts after now < ts_base"
    by (auto simp: q_put_def split: prod.splits sum.splits if_splits)
  note room = enqueue_Inr_accepted [OF enq \<open>accepted res\<close>]
  have lb: "0 \<le> ready_ts after now"
    using ms_nonneg [OF now] by (simp add: ready_ts_def)
  have z: "zscore r' k m = (if k = pending cap \<and> m = RText t
      then Some (encode_score p (ready_ts after now)) else zscore r k m)" for k m
    using enqueue_room_zscore(1) [OF room, of now t p after k m] by (simp add: enq)
  have "wf_redis r'"
    using enqueue_wf [of r qm now cap t p after] assms(1) by (simp add: enq q_ok_def)
  then have "q_ok cap r'"
    using assms(1) lb ub by (auto simp: q_ok_def z)
  then show ?thesis
    using decode_encode [OF lb ub] by (auto simp: q_waiting_def q_active_def z key_simps)
qed

lemma q_next_dequeue:
  "q_next qm cap now r = Some (t, r') \<Longrightarrow> dequeue_ready qm r now cap = (Some (RText t), r')"
  by (auto simp: q_next_def split: prod.splits option.splits rval.splits)

lemma q_next_pick:
  assumes "q_ok cap r" and "q_next qm cap now r = Some (t, r')"
  obtains p ts where "q_waiting cap r t = Some (p, ts)" and "due now (p, ts)"
    and "\<And>t' e'. q_waiting cap r t' = Some e' \<Longrightarrow> due now e' \<Longrightarrow> (p, ts) \<le> e'"
proof -
  note deq = q_next_dequeue [OF assms(2)]
  have wf: "wf_redis r" using assms(1) by (simp add: q_ok_def)
  obtain s where s: "zscore r (pending cap) (RText t) = Some s" "ready now s"
    and best: "\<And>m' s'. zscore r (pending cap) m' = Some s' \<Longrightarrow> ready now s' \<Longrightarrow> s \<le> s'"
    using wf deq by (rule dequeue_ready_pick) blast
  from s(1) assms(1) obtain p ts where pts: "s = encode_score p ts" "0 \<le> ts" "ts < ts_base"
    unfolding q_ok_def by metis
  show thesis
  proof (rule that)
    show "q_waiting cap r t = Some (p, ts)"
      using s(1) pts by (simp add: q_waiting_Some [OF assms(1)])
    show "due now (p, ts)" using s(2) pts by (simp add: ready_due)
    fix t' e'
    assume w: "q_waiting cap r t' = Some e'" and d: "due now e'"
    obtain p' ts' where e': "e' = (p', ts')" by (cases e')
    with w have "zscore r (pending cap) (RText t') = Some (encode_score p' ts')"
      and rng: "0 \<le> ts'" "ts' < ts_base" by (simp_all add: q_waiting_Some [OF assms(1)])
    then have "encode_score p ts \<le> encode_score p' ts'"
      using best d pts by (simp add: e' ready_due)
    then show "(p, ts) \<le> e'"
      using encode_score_le_iff [OF pts(2,3) rng] by (auto simp: e')
  qed
qed

lemma q_next_moves:
  assumes "q_ok cap r" and "q_next qm cap now r = Some (t, r')"
  shows "q_waiting cap r' = (q_waiting cap r)(t := None) \<and>
    q_active cap r' = (q_active cap r)(t := True) \<and> q_ok cap r'"
proof -
  note deq = q_next_dequeue [OF assms(2)]
  note z = dequeue_ready_Some_scores [OF deq]
  have "wf_redis r'"
    using dequeue_ready_wf [of r qm now cap] assms(1) by (simp add: deq q_ok_def)
  then show ?thesis
    using assms(1) by (auto simp: q_ok_def q_waiting_def q_active_def z key_simps fun_eq_iff split: if_splits)
qed

interpretation rq: priority_queue "q_waiting cap" "q_active cap" "q_ok cap" "q_put qm cap" "q_next qm cap" due
  for qm cap
proof (unfold_locales, goal_cases)
  case (1 s now t p after s')
  then show ?case
    using q_put_Some [of cap s qm now t p after s'] ready_ts_ge [of after now] by blast
next
  case (2 s now t s')
  then show ?case by (auto elim: q_next_pick)
next
  case (3 s now t s' e t' e')
  obtain d where "q_waiting cap s t = Some d" and "\<And>t' e'. q_waiting cap s t' = Some e' \<Longrightarrow> due now e' \<Longrightarrow> d \<le> e'"
    using 3(1,2) by (rule q_next_pick) blast
  with 3(3,4,5) show ?case by simp
next
  case (4 s now t s')
  then show ?case using q_next_moves by blast
next
  case (5 s now t s')
  then show ?case using q_next_moves by blast
qed

subsection \<open>Properties\<close>

text \<open>
  C2. The queue of a capability implements an abstract priority queue. An accepted
  enqueue inserts the task with its priority and ready time and nothing else changes; a
  dequeue takes a due task that is least in (priority, time) order among the due ones,
  removes it from the waiting tasks and makes it active; and the well-formedness of the
  scores is kept by both.
\<close>

theorem queue_refines_priority_queue:
  assumes "q_ok cap r"
  shows "(q_put qm cap r now t p after = Some r1 \<longrightarrow> q_ok cap r1 \<and> q_active cap r1 = q_active cap r \<and>
       q_waiting cap r1 = (q_waiting cap r)(t \<mapsto> (p, ready_ts after now))) \<and>
    (q_next qm cap now r = Some (u, r2) \<longrightarrow> q_ok cap r2 \<and>
       q_waiting cap r2 = (q_waiting cap r)(u := None) \<and>
       q_active cap r2 = (q_active cap r)(u := True) \<and>
       (\<exists>e. q_waiting cap r u = Some e \<and> due now e \<and>
          (\<forall>t' e'. q_waiting cap r t' = Some e' \<and> due now e' \<longrightarrow> e \<le> e')))"
  using q_put_Some [OF assms, of qm now t p after r1] q_next_moves [OF assms, of qm now u r2]
    rq.next_waiting [OF assms, of qm now u r2] rq.next_best [OF assms, of qm now u r2]
  by blast

text \<open>
  C1. A worker that keeps dequeuing at one moment gets distinct tasks, all of them waiting
  and due, in order of priority and then time; exactly these tasks leave the waiting set
  and become active.
\<close>

theorem drain_in_priority_order:
  assumes "q_ok cap r" and "drain (q_next qm cap now) n r = (ts, r')"
  shows "distinct ts \<and> sorted (map (\<lambda>t. the (q_waiting cap r t)) ts) \<and>
    (\<forall>t \<in> set ts. \<exists>e. q_waiting cap r t = Some e \<and> due now e) \<and>
    (\<forall>t. q_waiting cap r' t = (if t \<in> set ts then None else q_waiting cap r t)) \<and>
    (\<forall>t. q_active cap r' t = (t \<in> set ts \<or> q_active cap r t))"
  using assms by (rule rq.drain_spec)
lemma q_ok_empty: "q_ok cap empty_redis"
  unfolding q_ok_def using wf_empty_redis by (simp add: zscore_def zbucket_def empty_redis_def)

lemma q_ok_zadd:
  assumes "q_ok cap r" and "0 \<le> ts" and "ts < ts_base"
  shows "q_ok cap (zadd r (pending cap) (RText t) (encode_score p ts))"
  using assms by (auto simp: q_ok_def store_simps)

lemma demo_q_ok: "q_ok ''ocr'' demo_store"
  unfolding demo_store_def by (intro q_ok_zadd q_ok_empty) (simp_all add: ts_base_def)

lemma demo_drain: "fst (drain (q_next demo_qm ''ocr'' 10) 3 demo_store) = [''b'', ''c'', ''a'']"
  by code_simp

theorem queue_refines_priority_queue_witness:
  "\<exists>r1 u r2. q_put demo_qm ''ocr'' demo_store 5 ''d'' 2 0 = Some r1 \<and>
     q_waiting ''ocr'' r1 = (q_waiting ''ocr'' demo_store)(''d'' \<mapsto> (2, ready_ts 0 5)) \<and>
     q_next demo_qm ''ocr'' 5 demo_store = Some (u, r2) \<and>
     q_waiting ''ocr'' r2 = (q_waiting ''ocr'' demo_store)(u := None)"
proof -
  have "q_put demo_qm ''ocr'' demo_store 5 ''d'' 2 0 \<noteq> None" by code_simp
  then obtain r1 where r1: "q_put demo_qm ''ocr'' demo_store 5 ''d'' 2 0 = Some r1" by auto
  have "q_next demo_qm ''ocr'' 5 demo_store \<noteq> None" by code_simp
  then obtain u r2 where r2: "q_next demo_qm ''ocr'' 5 demo_store = Some (u, r2)" by auto
  show ?thesis
    using queue_refines_priority_queue [OF demo_q_ok, of demo_qm 5 "''d''" 2 0 r1 u r2] r1 r2 by blast
qed

theorem drain_in_priority_order_witness:
  "\<exists>r'. drain (q_next demo_qm ''ocr'' 10) 3 demo_store = ([''b'', ''c'', ''a''], r') \<and>
     sorted (map (\<lambda>t. the (q_waiting ''ocr'' demo_store t)) [''b'', ''c'', ''a'']) \<and>
     (\<forall>t. q_active ''ocr'' r' t = (t \<in> {''a'', ''b'', ''c''} \<or> q_active ''ocr'' demo_store t))"
proof -
  obtain r' where dr: "drain (q_next demo_qm ''ocr'' 10) 3 demo_store = ([''b'', ''c'', ''a''], r')"
    by (metis demo_drain prod.collapse)
  have "(t \<in> {''a'', ''b'', ''c''}) = (t \<in> set [''b'', ''c'', ''a''])" for t :: string
    by auto
  then show ?thesis
    using drain_in_priority_order [OF demo_q_ok dr] dr by simp
qed

end
