(* ===== verification/Queue_Control.thy ===== *)
theory Queue_Control
  imports Queue_Refinement
begin

text \<open>
  Properties of the operations around the queue itself: the runs of the manager keep the
  limits and balance the counters, capabilities do not interfere, the adaptive concurrency
  limit stays between one and its baseline, slots are never oversubscribed, stale entries
  are swept exactly, and the statistics cache is coherent with the writes that invalidate
  it.
\<close>

subsection \<open>Runs of the manager\<close>


lemma q_reachable_start: "q_reachable cap (new_QueueManager b) empty_redis"
  by (rule q_reachable.start [OF wf_empty_redis])
     (simp_all add: zbucket_def hbucket_def empty_redis_def new_QueueManager_def)

lemma q_reachable_enqueue:
  assumes "q_reachable cap qm r" and "zscore r (pending cap) (RText t) = None"
  shows "q_reachable cap (fst (snd (enqueue qm r now cap t p after))) (snd (snd (enqueue qm r now cap t p after)))"
proof -
  have "q_step cap (qm, r) (snd (enqueue qm r now cap t p after))"
    by (rule q_step.enq) (simp add: assms(2))
  then show ?thesis by (metis assms(1) prod.collapse q_reachable.step)
qed

abbreviation demo_run :: redis where
  "demo_run \<equiv> snd (snd (enqueue demo_qm empty_redis 5 ''ocr'' ''a'' 1 0))"


subsection \<open>Adaptive concurrency\<close>

text \<open>The limit and the baseline that \<^verbatim>\<open>_LUA_RECOVER_CONCURRENT\<close> reads.\<close>

definition number_or :: "redis \<Rightarrow> string \<Rightarrow> string \<Rightarrow> int \<Rightarrow> int" where
  "number_or r k f d = (case hget_number r k f d of None \<Rightarrow> d | Some n \<Rightarrow> n)"

definition baseline :: "QueueManager \<Rightarrow> redis \<Rightarrow> string \<Rightarrow> int" where
  "baseline qm r cap = number_or r (config cap) ''max_concurrent_baseline'' (default_mc qm)"

definition current_limit :: "QueueManager \<Rightarrow> redis \<Rightarrow> string \<Rightarrow> int" where
  "current_limit qm r cap = number_or r (config cap) ''max_concurrent'' (baseline qm r cap)"

lemma number_or_hset [store_simps]:
  "number_or (hset r k f (RNum n)) k' f' d = (if k' = k \<and> f' = f then n else number_or r k' f' d)"
  by (simp add: number_or_def hget_number_def store_simps)

lemma recover_eq:
  "try_recover_concurrent qm r cap =
    (if current_limit qm r cap < baseline qm r cap
     then (current_limit qm r cap + 1,
           hset r (config cap) ''max_concurrent'' (RNum (current_limit qm r cap + 1)))
     else (current_limit qm r cap, r))"
  by (simp add: try_recover_concurrent_def lua_recover_concurrent_def current_limit_def baseline_def
      number_or_def Let_def)

lemma recover_step:
  defines "r' \<equiv> \<lambda>qm r cap. snd (try_recover_concurrent qm r cap)"
  shows "baseline qm (r' qm r cap) cap = baseline qm r cap"
    and "current_limit qm (r' qm r cap) cap =
      (if current_limit qm r cap < baseline qm r cap then current_limit qm r cap + 1
       else current_limit qm r cap)"
  by (auto simp: r'_def recover_eq baseline_def current_limit_def store_simps)

lemma recover_iterate:
  "((\<lambda>r. snd (try_recover_concurrent qm r cap)) ^^ n) r = r' \<Longrightarrow>
   baseline qm r' cap = baseline qm r cap \<and>
   current_limit qm r' cap =
     (if current_limit qm r cap < baseline qm r cap
      then min (baseline qm r cap) (current_limit qm r cap + int n) else current_limit qm r cap)"
proof (induction n arbitrary: r')
  case (Suc n)
  let ?r = "((\<lambda>r. snd (try_recover_concurrent qm r cap)) ^^ n) r"
  have "r' = snd (try_recover_concurrent qm ?r cap)" using Suc.prems by simp
  then show ?case
    using Suc.IH [OF refl] recover_step [of qm ?r cap] by auto
qed auto

text \<open>
  The adaptive concurrency limit. Adjusting never takes the limit below one, whatever
  the delta, and stores what it returns; recovering changes nothing but the limit, never
  lifts it above the baseline, and after a reduction the baseline is restored by as many
  recoveries as the limit is below it.
\<close>

theorem adaptive_concurrency:
  shows "1 \<le> fst (adjust_concurrent qm r cap delta False) \<and>
    current_limit qm (snd (adjust_concurrent qm r cap delta False)) cap =
      fst (adjust_concurrent qm r cap delta False) \<and>
    (current_limit qm r cap \<le> baseline qm r cap \<longrightarrow>
      fst (try_recover_concurrent qm r cap) \<le> baseline qm r cap \<and>
      (\<forall>n \<ge> nat (baseline qm r cap - current_limit qm r cap).
        current_limit qm (((\<lambda>r. snd (try_recover_concurrent qm r cap)) ^^ n) r) cap = baseline qm r cap))"
proof -
  have "1 \<le> fst (adjust_concurrent qm r cap delta False) \<and>
    current_limit qm (snd (adjust_concurrent qm r cap delta False)) cap =
      fst (adjust_concurrent qm r cap delta False)"
    by (simp add: adjust_concurrent_def lua_adjust_concurrent_def Let_def current_limit_def store_simps)
  moreover have "fst (try_recover_concurrent qm r cap) \<le> baseline qm r cap"
    if "current_limit qm r cap \<le> baseline qm r cap"
    using that by (simp add: recover_eq)
  moreover have "current_limit qm (((\<lambda>r. snd (try_recover_concurrent qm r cap)) ^^ n) r) cap = baseline qm r cap"
    if "current_limit qm r cap \<le> baseline qm r cap"
      and "n \<ge> nat (baseline qm r cap - current_limit qm r cap)" for n
    using that recover_iterate [of n qm cap r] by auto
  ultimately show ?thesis by blast
qed

abbreviation demo_reduced :: redis where
  "demo_reduced \<equiv> snd (adjust_concurrent demo_qm empty_redis ''ocr'' (-3) False)"

theorem adaptive_concurrency_witness:
  "current_limit demo_qm demo_reduced ''ocr'' = 5 \<and>
   current_limit demo_qm (((\<lambda>r. snd (try_recover_concurrent demo_qm r ''ocr'')) ^^ 3) demo_reduced) ''ocr'' = 8"
proof -
  have cur: "current_limit demo_qm demo_reduced ''ocr'' = 5" by code_simp
  have base: "baseline demo_qm demo_reduced ''ocr'' = 8" by code_simp
  have "nat (baseline demo_qm demo_reduced ''ocr'' - current_limit demo_qm demo_reduced ''ocr'') \<le> 3"
    by (simp add: cur base)
  then have "current_limit demo_qm (((\<lambda>r. snd (try_recover_concurrent demo_qm r ''ocr'')) ^^ 3) demo_reduced) ''ocr''
      = baseline demo_qm demo_reduced ''ocr''"
    using adaptive_concurrency [of demo_qm demo_reduced "''ocr''"] by (simp add: cur base)
  with cur base show ?thesis by simp
qed
subsection \<open>Slots\<close>

text \<open>What happens to the slots of a capability: acquisitions, releases and sweeps.\<close>

datatype slot_op = Acquire time string | Release string | Sweep time rat

fun slot_run :: "QueueManager \<Rightarrow> string \<Rightarrow> int option \<Rightarrow> redis \<Rightarrow> slot_op list \<Rightarrow> redis" where
  "slot_run qm cap mc r [] = r"
| "slot_run qm cap mc r (Acquire now s # ops) =
     slot_run qm cap mc (snd (acquire_concurrency_slot qm r now cap s mc)) ops"
| "slot_run qm cap mc r (Release s # ops) = slot_run qm cap mc (release_slot r cap s) ops"
| "slot_run qm cap mc r (Sweep now age # ops) =
     slot_run qm cap mc (snd (cleanup_stale_slots r now cap age)) ops"

text \<open>The limit \<^verbatim>\<open>_LUA_ACQUIRE_SLOT\<close> works with.\<close>

definition slot_limit :: "QueueManager \<Rightarrow> redis \<Rightarrow> string \<Rightarrow> int option \<Rightarrow> int" where
  "slot_limit qm r cap mc = number_or r (slot_config cap) ''max_concurrent''
     (case mc of None \<Rightarrow> default_mc qm | Some n \<Rightarrow> if n = 0 then default_mc qm else n)"

lemma acquire_eq:
  "fst (acquire_concurrency_slot qm r now cap s mc) \<longleftrightarrow> int (zcard r (slot_running cap)) < slot_limit qm r cap mc"
  "zbucket (snd (acquire_concurrency_slot qm r now cap s mc)) k =
    (if k = slot_running cap \<and> int (zcard r (slot_running cap)) < slot_limit qm r cap mc
     then AList.update (RText s) (of_int (ms now)) (zbucket r k) else zbucket r k)"
  "hget (snd (acquire_concurrency_slot qm r now cap s mc)) k f = hget r k f"
  by (auto simp: acquire_concurrency_slot_def lua_acquire_slot_def slot_limit_def number_or_def Let_def
      store_simps)

lemma cleanup_fold:
  "zbucket (foldl (\<lambda>r m. zrem r key m) r xs) k =
    (if k = key then foldl (\<lambda>b m. AList.delete m b) (zbucket r k) xs else zbucket r k)"
  "hget (foldl (\<lambda>r m. zrem r key m) r xs) k f = hget r k f"
  by (induction xs arbitrary: r) (simp_all add: store_simps)

lemma foldl_delete_length: "length (foldl (\<lambda>b m. AList.delete m b) b xs) \<le> length b"
  by (induction xs arbitrary: b) (auto intro: order_trans [OF _ length_delete_le])

lemma map_of_foldl_delete:
  "map_of (foldl (\<lambda>b m. AList.delete m b) b xs) x = (if x \<in> set xs then None else map_of b x)"
  by (induction xs arbitrary: b) (auto simp: delete_conv')

lemma slot_limit_config:
  "(\<And>f. hget r' (slot_config cap) f = hget r (slot_config cap) f) \<Longrightarrow> slot_limit qm r' cap mc = slot_limit qm r cap mc"
  by (simp add: slot_limit_def number_or_def hget_number_def)

lemma slot_run_bound:
  "int (zcard r (slot_running cap)) \<le> max 0 (slot_limit qm r cap mc) \<Longrightarrow>
   int (zcard (slot_run qm cap mc r ops) (slot_running cap)) \<le> max 0 (slot_limit qm r cap mc)"
proof (induction ops arbitrary: r)
  case (Cons op ops)
  show ?case
  proof (cases op)
    case (Acquire now s)
    let ?r = "snd (acquire_concurrency_slot qm r now cap s mc)"
    have "slot_limit qm ?r cap mc = slot_limit qm r cap mc"
      by (rule slot_limit_config) (simp add: acquire_eq)
    moreover have "zcard ?r (slot_running cap) \<le>
        (if int (zcard r (slot_running cap)) < slot_limit qm r cap mc
         then Suc (zcard r (slot_running cap)) else zcard r (slot_running cap))"
      by (auto simp: zcard_def acquire_eq(2) length_update)
    ultimately show ?thesis
      using Cons.IH [of ?r] Cons.prems by (auto simp: Acquire split: if_splits)
  next
    case (Release s)
    let ?r = "release_slot r cap s"
    have "slot_limit qm ?r cap mc = slot_limit qm r cap mc"
      by (rule slot_limit_config) (simp add: release_slot_def store_simps)
    moreover have "zcard ?r (slot_running cap) \<le> zcard r (slot_running cap)"
      by (simp add: zcard_def release_slot_def store_simps length_delete_le)
    ultimately show ?thesis
      using Cons.IH [of ?r] Cons.prems by (auto simp: Release)
  next
    case (Sweep now age)
    let ?r = "snd (cleanup_stale_slots r now cap age)"
    have "slot_limit qm ?r cap mc = slot_limit qm r cap mc"
      by (rule slot_limit_config) (simp add: cleanup_stale_slots_def cleanup_stale_def Let_def cleanup_fold)
    moreover have "zcard ?r (slot_running cap) \<le> zcard r (slot_running cap)"
      by (simp add: zcard_def cleanup_stale_slots_def cleanup_stale_def Let_def cleanup_fold foldl_delete_length)
    ultimately show ?thesis
      using Cons.IH [of ?r] Cons.prems by (auto simp: Sweep)
  qed
qed simp

text \<open>
  However acquisitions, releases and sweeps of a capability's slots are interleaved,
  the number of holders never exceeds the limit; and an acquisition succeeds exactly when
  there are fewer holders than the limit, whether or not the caller already holds a slot.
\<close>

theorem slots_bounded:
  assumes "zbucket r (slot_running cap) = []"
  shows "int (zcard (slot_run qm cap mc r ops) (slot_running cap)) \<le> max 0 (slot_limit qm r cap mc) \<and>
    (fst (acquire_concurrency_slot qm (slot_run qm cap mc r ops) now cap s mc) \<longleftrightarrow>
      int (zcard (slot_run qm cap mc r ops) (slot_running cap)) <
        slot_limit qm (slot_run qm cap mc r ops) cap mc)"
  using assms slot_run_bound [of r cap qm mc ops] by (simp add: acquire_eq zcard_def)

theorem slots_bounded_witness:
  "int (zcard (slot_run demo_qm ''ocr'' (Some 1) empty_redis [Acquire 1 ''x'', Acquire 2 ''y''])
      (slot_running ''ocr'')) \<le> 1 \<and>
   \<not> fst (acquire_concurrency_slot demo_qm
        (slot_run demo_qm ''ocr'' (Some 1) empty_redis [Acquire 1 ''x'', Acquire 2 ''y'']) 3 ''ocr'' ''x'' (Some 1))"
proof -
  let ?r = "slot_run demo_qm ''ocr'' (Some 1) empty_redis [Acquire 1 ''x'', Acquire 2 ''y'']"
  have e: "zbucket empty_redis (slot_running ''ocr'') = []" by code_simp
  have l: "slot_limit demo_qm empty_redis ''ocr'' (Some 1) = 1" by code_simp
  have l': "slot_limit demo_qm ?r ''ocr'' (Some 1) = 1" by code_simp
  have c: "zcard ?r (slot_running ''ocr'') = 1" by code_simp
  from slots_bounded [OF e, of demo_qm "Some 1" "[Acquire 1 ''x'', Acquire 2 ''y'']" 3 "''x''"]
  show ?thesis by (simp only: l l' c) simp
qed

subsection \<open>Stale entries\<close>

text \<open>
  The sweep of stale running tasks removes exactly the entries that started at or
  before the cut-off, touches no other key, and returns how many it removed.
\<close>

theorem cleanup_exact:
  assumes "wf_redis r"
  shows "(let stale = {m. \<exists>s. zscore r (running cap) m = Some s \<and> s \<le> of_int (ms (now - age))} in
    fst (cleanup_stale_running r now cap age) = card stale \<and>
    (\<forall>k m. zscore (snd (cleanup_stale_running r now cap age)) k m =
      (if k = running cap \<and> m \<in> stale then None else zscore r k m)))"
proof -
  let ?l = "map fst (zrangebyscore r (running cap) NegInf (Score (of_int (ms (now - age)))))"
  let ?stale = "{m. \<exists>s. zscore r (running cap) m = Some s \<and> s \<le> of_int (ms (now - age))}"
  have set_l: "set ?l = ?stale"
    using in_zrangebyscore [OF assms] by (auto simp: image_iff Bex_def split_paired_Ex)
  have "distinct ?l"
    using assms by (simp add: zrangebyscore_distinct)
  then have "length ?l = card ?stale"
    using distinct_card set_l by metis
  moreover have "snd (cleanup_stale_running r now cap age) = foldl (\<lambda>r m. zrem r (running cap) m) r ?l"
    "fst (cleanup_stale_running r now cap age) = length ?l"
    by (simp_all add: cleanup_stale_running_def cleanup_stale_def Let_def)
  ultimately show ?thesis
    using set_l by (auto simp: Let_def zscore_def cleanup_fold map_of_foldl_delete)
qed

abbreviation demo_stale :: redis where
  "demo_stale \<equiv> zadd (zadd empty_redis (running ''ocr'') (RText ''old'') 1000) (running ''ocr'') (RText ''new'') 9000"

theorem cleanup_exact_witness:
  "fst (cleanup_stale_running demo_stale 10 ''ocr'' 5) = 1 \<and>
   zscore (snd (cleanup_stale_running demo_stale 10 ''ocr'' 5)) (running ''ocr'') (RText ''old'') = None \<and>
   zscore (snd (cleanup_stale_running demo_stale 10 ''ocr'' 5)) (running ''ocr'') (RText ''new'') = Some 9000"
proof -
  have wf: "wf_redis demo_stale" by (intro wf_redis_upd wf_empty_redis)
  have cut: "ms 5 = 5000" by code_simp
  have old: "zscore demo_stale (running ''ocr'') (RText ''old'') = Some 1000" by code_simp
  have new: "zscore demo_stale (running ''ocr'') (RText ''new'') = Some 9000" by code_simp
  have "fst (cleanup_stale_running demo_stale 10 ''ocr'' 5) = 1" by code_simp
  then show ?thesis
    using cleanup_exact [OF wf, of "''ocr''" 10 5] by (simp add: Let_def cut old new)
qed

subsection \<open>Capabilities do not interfere\<close>

definition same_capability :: "string \<Rightarrow> redis \<Rightarrow> redis \<Rightarrow> bool" where
  "same_capability cap r r' \<longleftrightarrow> zbucket r' (pending cap) = zbucket r (pending cap) \<and>
     zbucket r' (running cap) = zbucket r (running cap) \<and>
     zbucket r' (slot_running cap) = zbucket r (slot_running cap) \<and>
     (\<forall>f. hget r' (stats cap) f = hget r (stats cap) f) \<and>
     (\<forall>f. hget r' (config cap) f = hget r (config cap) f) \<and>
     (\<forall>f. hget r' (slot_config cap) f = hget r (slot_config cap) f)"

lemma same_capability_admit: "same_capability cap r (snd (admit qm r c))"
  by (simp add: same_capability_def)

lemma same_capability_enqueue:
  "c \<noteq> cap \<Longrightarrow> same_capability cap r (snd (snd (enqueue qm r now c t p after)))"
proof (cases "fst (admit qm r c) \<and> int (zcard r (pending c)) < depth_limit qm r c")
  case True
  then show "c \<noteq> cap \<Longrightarrow> ?thesis"
    by (simp add: same_capability_def enqueue_room(3,4) key_simps)
next
  case False
  then have "snd (snd (enqueue qm r now c t p after)) = snd (admit qm r c)"
    by (cases "fst (admit qm r c)") (auto simp: enqueue_blocked enqueue_full)
  then show ?thesis by (simp add: same_capability_admit)
qed

lemma same_capability_dequeue:
  assumes "c \<noteq> cap"
  shows "same_capability cap r (snd (dequeue_ready qm r now c))"
proof (cases "fst (dequeue_ready qm r now c)")
  case None
  then have "same_queues r (snd (dequeue_ready qm r now c))"
    by (metis dequeue_ready_None_same prod.collapse)
  then show ?thesis by (simp add: same_queues_reads same_capability_def)
next
  case (Some m)
  then have "dequeue_ready qm r now c = (Some m, snd (dequeue_ready qm r now c))"
    by (metis prod.collapse)
  then show ?thesis
    by (rule dequeue_ready_Some) (use assms in \<open>simp add: same_capability_def store_simps key_simps\<close>)
qed

lemma same_capability_finish:
  assumes "c \<noteq> cap"
  shows "same_capability cap r (snd (complete qm r c t))" and "same_capability cap r (snd (fail qm r c t))"
proof -
  have "same_capability cap r r'" if "r' = (if ok then snd (complete qm r c t) else snd (fail qm r c t))"
    for ok r'
    using assms finish_effect [where c' = cap, OF _ that]
    by (simp add: same_capability_def key_simps)
  from this [of _ True] this [of _ False]
  show "same_capability cap r (snd (complete qm r c t))" and "same_capability cap r (snd (fail qm r c t))"
    by simp_all
qed

text \<open>
  Capabilities do not interfere: enqueuing, dequeuing, completing, failing, cancelling,
  adjusting or recovering the limit, and acquiring, releasing or sweeping slots of one
  capability leaves the waiting and running tasks, the slots, the counters and the limits
  of every other capability as they are.
\<close>

theorem capabilities_isolated:
  assumes "c \<noteq> cap"
  shows "same_capability cap r (snd (snd (enqueue qm r now c t p after))) \<and>
    same_capability cap r (snd (dequeue_ready qm r now c)) \<and>
    same_capability cap r (snd (complete qm r c t)) \<and>
    same_capability cap r (snd (fail qm r c t)) \<and>
    same_capability cap r (snd (cancel r c t)) \<and>
    same_capability cap r (snd (adjust_concurrent qm r c delta slot)) \<and>
    same_capability cap r (snd (try_recover_concurrent qm r c)) \<and>
    same_capability cap r (snd (acquire_concurrency_slot qm r now c t mc)) \<and>
    same_capability cap r (release_slot r c t) \<and>
    same_capability cap r (snd (cleanup_stale_running r now c age)) \<and>
    same_capability cap r (snd (cleanup_stale_slots r now c age))"
proof -
  have "same_capability cap r (snd (cancel r c t))"
    using assms by (auto simp: same_capability_def cancel_def lua_cancel_def case_prod_unfold store_simps key_simps)
  moreover have "same_capability cap r (snd (adjust_concurrent qm r c delta slot))"
    using assms by (auto simp: same_capability_def adjust_concurrent_def lua_adjust_concurrent_def Let_def
        store_simps key_simps)
  moreover have "same_capability cap r (snd (try_recover_concurrent qm r c))"
    using assms by (auto simp: same_capability_def recover_eq store_simps key_simps)
  moreover have "same_capability cap r (snd (acquire_concurrency_slot qm r now c t mc))"
    using assms by (auto simp: same_capability_def acquire_eq key_simps)
  moreover have "same_capability cap r (release_slot r c t)"
    using assms by (auto simp: same_capability_def release_slot_def store_simps key_simps)
  moreover have "same_capability cap r (snd (cleanup_stale_running r now c age))"
    "same_capability cap r (snd (cleanup_stale_slots r now c age))"
    using assms by (auto simp: same_capability_def cleanup_stale_running_def cleanup_stale_slots_def
        cleanup_stale_def Let_def cleanup_fold key_simps)
  ultimately show ?thesis
    by (simp add: same_capability_enqueue same_capability_dequeue same_capability_finish assms)
qed

theorem capabilities_isolated_witness:
  "same_capability ''ocr'' demo_store (snd (dequeue_ready demo_qm demo_store 5 ''asr'')) \<and>
   same_capability ''ocr'' demo_store (snd (cancel demo_store ''asr'' ''a''))"
  using capabilities_isolated [of "''asr''" "''ocr''" demo_store demo_qm 5 "''a''" 0 0 0 False None 0] by simp

subsection \<open>The statistics cache\<close>

lemma get_queue_stats_refresh:
  assumes "cap \<in> set (smembers r capabilities_key)" and "length (smembers r capabilities_key) \<le> 2000"
    and "cache_stale qm now"
  shows "fst (get_queue_stats qm r now scanned cap) = read_stats r cap"
proof -
  have ne: "smembers r capabilities_key \<noteq> []" using assms(1) by auto
  have "map_of (map (\<lambda>c. (c, read_stats r c)) (smembers r capabilities_key)) cap = Some (read_stats r cap)"
    using assms(1) by (simp add: map_of_map_restrict)
  then show ?thesis
    using assms(2,3) ne
    by (simp add: get_queue_stats_def refresh_stats_cache_def discover_queue_capabilities_def)
qed

text \<open>
  Statistics after a write. Once an enqueue was accepted, or a task of a registered
  capability was completed or failed, the next read of the capability's statistics returns
  the counters and sizes in the store (for up to the 2000 capabilities a refresh reads and
  at any wall-clock time later than the cache's lifetime).
\<close>

theorem stats_coherent_after_write:
  assumes "length (smembers r' capabilities_key) \<le> 2000" and "now' > stats_cache_ttl qm"
    and "(\<exists>res. enqueue qm r now cap t p after = (Inr res, qm', r') \<and> accepted res) \<or>
      cap \<in> set (smembers r' capabilities_key) \<and>
        ((qm', r') = complete qm r cap t \<or> (qm', r') = fail qm r cap t)"
  shows "fst (get_queue_stats qm' r' now' scanned cap) = read_stats r' cap"
proof -
  have qm': "qm' = invalidate_stats_cache qm"
    using assms(3)
  proof (elim disjE conjE exE)
    fix res
    assume "enqueue qm r now cap t p after = (Inr res, qm', r')" and "accepted res"
    with enqueue_room(2) [OF enqueue_Inr_accepted, OF this this, of now t p after]
    show ?thesis by simp
  qed (auto simp: complete_def fail_def Let_def)
  have "cap \<in> set (smembers r' capabilities_key)"
    using assms(3)
    by (auto simp: enqueue_def case_prod_unfold Let_def store_simps split: if_splits)
  then show ?thesis
    using assms(1,2) by (intro get_queue_stats_refresh) (auto simp: qm' invalidate_stats_cache_def cache_stale_def)
qed

theorem stats_coherent_after_write_witness:
  "fst (get_queue_stats (fst (snd (enqueue demo_qm empty_redis 5 ''ocr'' ''a'' 1 0))) demo_run 100 [] ''ocr'') =
     read_stats demo_run ''ocr'' \<and> qs_pending (read_stats demo_run ''ocr'') = 1"
proof -
  obtain qm' where enq: "enqueue demo_qm empty_redis 5 ''ocr'' ''a'' 1 0 =
      (Inr \<lparr>accepted = True, queue_position = 1, pending_count = 1\<rparr>, qm', demo_run)"
  proof -
    have "fst (enqueue demo_qm empty_redis 5 ''ocr'' ''a'' 1 0) =
        Inr \<lparr>accepted = True, queue_position = 1, pending_count = 1\<rparr>" by code_simp
    then show ?thesis using that by (metis prod.collapse)
  qed
  have "length (smembers demo_run capabilities_key) \<le> 2000" by code_simp
  moreover have "(100::rat) > stats_cache_ttl demo_qm" by code_simp
  ultimately have "fst (get_queue_stats qm' demo_run 100 [] ''ocr'') = read_stats demo_run ''ocr''"
    using enq by (intro stats_coherent_after_write [where qm = demo_qm]) auto
  moreover have "fst (snd (enqueue demo_qm empty_redis 5 ''ocr'' ''a'' 1 0)) = qm'"
    by (metis enq fst_conv snd_conv)
  moreover have "qs_pending (read_stats demo_run ''ocr'') = 1" by code_simp
  ultimately show ?thesis by (simp only: simp_thms)
qed

text \<open>
  A dequeue leaves the cached statistics in place, although it changes the sizes and the
  counters: within the lifetime of the cache a read still returns the values from before.
\<close>

lemma stats_stale_after_dequeue:
  assumes "stats_cache qm \<noteq> []" and "now' - stats_cache_time qm \<le> stats_cache_ttl qm"
  shows "fst (get_queue_stats qm (snd (dequeue_ready qm r now cap)) now' scanned cap) =
    fst (get_queue_stats qm r now' scanned cap)"
  using assms by (simp add: get_queue_stats_def cache_stale_def)

subsection \<open>Discovery by key scan\<close>

lemma pending_prefix: "CHR ''}'' \<notin> set cap \<Longrightarrow> takeWhile (\<lambda>c. c \<noteq> CHR ''}'') (pending cap) = ''{queue:'' @ cap"
  by (simp add: pending_def takeWhile_append)

text \<open>
  The capability read back from the name of a pending key is the one the key was made
  for, as long as its name has no brace and does not start with one of the characters of
  the prefix \<^verbatim>\<open>queue:\<close>.
\<close>

theorem discovery_roundtrip:
  assumes "cap \<noteq> []" and "CHR ''}'' \<notin> set cap" and "CHR ''{'' \<notin> set cap"
    and "hd cap \<notin> set ''queue:''"
  shows "cap_of_key (pending cap) = cap"
proof -
  obtain c cs where cap: "cap = c # cs" using assms(1) by (cases cap) auto
  have "lstrip ''{'' (rev cap) = rev cap"
    using assms(1,3) by (cases "rev cap") (auto simp: lstrip_def)
  moreover have "lstrip chars cap = cap" if "hd cap \<notin> set chars" for chars
    using that by (simp add: lstrip_def cap)
  moreover have "hd cap \<noteq> CHR ''{''" using assms(3) by (auto simp: cap)
  ultimately show ?thesis
    using assms by (simp add: cap_of_key_def pending_prefix strip_def) (simp add: lstrip_def cap)
qed

theorem discovery_roundtrip_witness: "cap_of_key (pending ''ocr'') = ''ocr''"
  by (rule discovery_roundtrip) simp_all

text \<open>
  \<^verbatim>\<open>str.lstrip\<close> strips a set of characters and not a prefix, so the scan turns the queue
  of the capability \<^verbatim>\<open>eval\<close> into a capability \<^verbatim>\<open>val\<close> that has no queue.
\<close>

lemma discovery_strips_too_much: "cap_of_key (pending ''eval'') = ''val''"
  by code_simp

end
