(* ===== verification/Task_Consumer.thy ===== *)
theory Task_Consumer
  imports Queue_Control
begin

text \<open>
  \<^verbatim>\<open>TaskConsumer\<close>: the polling loop that takes tasks from the queues and starts an execution
  for each. A consumer holds a semaphore (\<open>free\<close> permits), the executions in flight, and
  the round-robin state: the capabilities that recently had tasks with their number of
  empty rounds, and the backoff. One pass of \<^verbatim>\<open>_poll_loop\<close> is \<open>poll_round\<close>; \<open>execution_done\<close>
  is the \<^verbatim>\<open>finally\<close> of \<^verbatim>\<open>_execute_task\<close>.

  The queue the consumer polls is an interface: the locale \<open>task_source\<close> states what the
  consumer relies on and proves that nothing is lost or duplicated on the way from the
  queues to the executions; it is interpreted on \<open>QueueManager.dequeue\<close>.
\<close>

record TaskConsumer =
  capabilities :: "string list"
  poll_interval :: rat
  max_concurrent_tasks :: int
  free :: int
  inflight :: "(string \<times> string) list"
  active_caps :: "(string \<times> nat) list"
  burst_per_active :: nat
  backoff_multiplier :: rat
  max_backoff :: rat
  empty_rounds :: nat

definition new_TaskConsumer :: "string list \<Rightarrow> int \<Rightarrow> TaskConsumer" where
  "new_TaskConsumer caps n = \<lparr>capabilities = caps, poll_interval = 1, max_concurrent_tasks = n, free = n,
     inflight = [], active_caps = [], burst_per_active = 3, backoff_multiplier = 1,
     max_backoff = 8, empty_rounds = 0\<rparr>"

text \<open>The queue: an error, no task, or a task, and the new state of the queue.\<close>

type_synonym 's source = "'s \<Rightarrow> string \<Rightarrow> (string + string option) \<times> 's"

definition try_dequeue :: "'s source \<Rightarrow> string \<Rightarrow> TaskConsumer \<times> 's \<Rightarrow> bool \<times> TaskConsumer \<times> 's" where
  "try_dequeue deq cap st = (let (c, s) = st in
     if free c \<le> 0 then (False, c, s)
     else let c1 = c\<lparr>free := free c - 1\<rparr> in
       case deq s cap of
         (Inl e, s') \<Rightarrow> (False, c1\<lparr>free := free c1 + 1\<rparr>, s')
       | (Inr None, s') \<Rightarrow> (False, c1\<lparr>free := free c1 + 1\<rparr>, s')
       | (Inr (Some t), s') \<Rightarrow> (True, c1\<lparr>inflight := inflight c1 @ [(t, cap)]\<rparr>, s'))"

definition mark_active :: "string \<Rightarrow> TaskConsumer \<Rightarrow> TaskConsumer" where
  "mark_active cap c = c\<lparr>active_caps := AList.update cap 0 (active_caps c)\<rparr>"

definition mark_empty :: "string \<Rightarrow> TaskConsumer \<Rightarrow> TaskConsumer" where
  "mark_empty cap c =
     (let n = (case map_of (active_caps c) cap of None \<Rightarrow> 0 | Some k \<Rightarrow> k) + 1
      in c\<lparr>active_caps := (if n \<ge> 3 then AList.delete cap (AList.update cap n (active_caps c))
                           else AList.update cap n (active_caps c))\<rparr>)"

fun burst :: "'s source \<Rightarrow> string \<Rightarrow> nat \<Rightarrow> bool \<times> TaskConsumer \<times> 's \<Rightarrow> bool \<times> TaskConsumer \<times> 's" where
  "burst deq cap 0 st = st"
| "burst deq cap (Suc n) (got, c, s) =
     (case try_dequeue deq cap (c, s) of
        (True, c', s') \<Rightarrow> burst deq cap n (True, mark_active cap c', s')
      | (False, c', s') \<Rightarrow> (got, mark_empty cap c', s'))"

definition burst_phase :: "'s source \<Rightarrow> bool \<times> TaskConsumer \<times> 's \<Rightarrow> bool \<times> TaskConsumer \<times> 's" where
  "burst_phase deq st = foldl (\<lambda>st cap. burst deq cap (burst_per_active (fst (snd st))) st) st
     (map fst (active_caps (fst (snd st))))"

definition visit :: "'s source \<Rightarrow> bool \<times> TaskConsumer \<times> 's \<Rightarrow> string \<Rightarrow> bool \<times> TaskConsumer \<times> 's" where
  "visit deq st cap = (let (got, c, s) = st in
     if cap \<in> fst ` set (active_caps c) then st
     else case try_dequeue deq cap (c, s) of
       (True, c', s') \<Rightarrow> (True, mark_active cap c', s')
     | (False, c', s') \<Rightarrow> (got, c', s'))"

definition round_robin_phase :: "'s source \<Rightarrow> bool \<times> TaskConsumer \<times> 's \<Rightarrow> bool \<times> TaskConsumer \<times> 's" where
  "round_robin_phase deq st = foldl (visit deq) st (capabilities (fst (snd st)))"

definition back_off :: "bool \<Rightarrow> TaskConsumer \<Rightarrow> TaskConsumer" where
  "back_off got c = (if got then c\<lparr>backoff_multiplier := 1, empty_rounds := 0\<rparr>
     else c\<lparr>empty_rounds := empty_rounds c + 1,
            backoff_multiplier := min (max_backoff c) (backoff_multiplier c * 2)\<rparr>)"

definition wait_time :: "TaskConsumer \<Rightarrow> rat" where
  "wait_time c = poll_interval c * backoff_multiplier c"

definition poll_round :: "'s source \<Rightarrow> TaskConsumer \<times> 's \<Rightarrow> TaskConsumer \<times> 's" where
  "poll_round deq st =
     (let (got, c, s) = round_robin_phase deq (burst_phase deq (False, fst st, snd st))
      in (back_off got c, s))"

text \<open>An execution ends, normally or not: its permit is returned.\<close>

definition execution_done :: "string \<times> string \<Rightarrow> TaskConsumer \<Rightarrow> TaskConsumer" where
  "execution_done t c = c\<lparr>inflight := remove1 t (inflight c), free := free c + 1\<rparr>"

subsection \<open>What the consumer relies on\<close>

locale task_source =
  fixes deq :: "'s source"
    and queued :: "'s \<Rightarrow> string \<Rightarrow> string set"
    and invar :: "'s \<Rightarrow> bool"
  assumes deq_invar: "invar s \<Longrightarrow> deq s cap = (res, s') \<Longrightarrow> invar s'"
    and deq_none: "invar s \<Longrightarrow> deq s cap = (res, s') \<Longrightarrow> (\<forall>t. res \<noteq> Inr (Some t)) \<Longrightarrow> queued s' = queued s"
    and deq_some: "invar s \<Longrightarrow> deq s cap = (Inr (Some t), s') \<Longrightarrow>
      t \<in> queued s cap \<and> queued s' = (queued s)(cap := queued s cap - {t})"
begin

text \<open>
  From a consumer \<open>(c, s)\<close> to \<open>(c', s')\<close> tasks only move from the queues to the executions,
  one permit each.
\<close>

definition moved :: "TaskConsumer \<times> 's \<Rightarrow> TaskConsumer \<times> 's \<Rightarrow> bool" where
  "moved a b \<longleftrightarrow> invar (snd b) \<and> (\<exists>new. inflight (fst b) = inflight (fst a) @ new \<and> distinct new \<and>
     free (fst b) = free (fst a) - int (length new) \<and> (0 \<le> free (fst a) \<longrightarrow> 0 \<le> free (fst b)) \<and>
     (\<forall>(t, cap) \<in> set new. t \<in> queued (snd a) cap) \<and>
     (\<forall>cap. queued (snd b) cap = queued (snd a) cap - {t. (t, cap) \<in> set new}))"

lemma moved_refl: "invar s \<Longrightarrow> moved (c, s) (c, s)"
  by (simp add: moved_def)

lemma moved_trans:
  assumes "moved a b" and "moved b c"
  shows "moved a c"
proof -
  obtain n1 where n1: "inflight (fst b) = inflight (fst a) @ n1" "distinct n1"
    "free (fst b) = free (fst a) - int (length n1)" "0 \<le> free (fst a) \<longrightarrow> 0 \<le> free (fst b)"
    "\<forall>(t, cap) \<in> set n1. t \<in> queued (snd a) cap"
    "\<forall>cap. queued (snd b) cap = queued (snd a) cap - {t. (t, cap) \<in> set n1}"
    using assms(1) unfolding moved_def by blast
  obtain n2 where n2: "inflight (fst c) = inflight (fst b) @ n2" "distinct n2"
    "free (fst c) = free (fst b) - int (length n2)" "0 \<le> free (fst b) \<longrightarrow> 0 \<le> free (fst c)"
    "\<forall>(t, cap) \<in> set n2. t \<in> queued (snd b) cap"
    "\<forall>cap. queued (snd c) cap = queued (snd b) cap - {t. (t, cap) \<in> set n2}"
    using assms(2) unfolding moved_def by blast
  have "set n1 \<inter> set n2 = {}" using n1(6) n2(5) by fastforce
  moreover have "\<forall>(t, cap) \<in> set (n1 @ n2). t \<in> queued (snd a) cap"
    using n1(5,6) n2(5) by fastforce
  moreover have "queued (snd c) cap = queued (snd a) cap - {t. (t, cap) \<in> set (n1 @ n2)}" for cap
    using n1(6) n2(6) by auto
  ultimately show ?thesis
    using n1 n2 assms(2) unfolding moved_def by (intro conjI exI [of _ "n1 @ n2"]) auto
qed

lemma moved_cong:
  "moved a (c, s) \<Longrightarrow> inflight c' = inflight c \<Longrightarrow> free c' = free c \<Longrightarrow> moved a (c', s)"
  by (simp add: moved_def)

lemma moved_invar: "moved a (c, s) \<Longrightarrow> invar s"
  by (simp add: moved_def)

lemma try_dequeue_moved:
  assumes "invar s" and "try_dequeue deq cap (c, s) = (b, c', s')"
  shows "moved (c, s) (c', s')"
proof (cases "free c \<le> 0")
  case True
  then show ?thesis using assms by (simp add: try_dequeue_def moved_refl)
next
  case False
  obtain res s1 where d: "deq s cap = (res, s1)" by fastforce
  show ?thesis
  proof (cases "\<exists>t. res = Inr (Some t)")
    case True
    then obtain t where res: "res = Inr (Some t)" by blast
    then have "s' = s1" "inflight c' = inflight c @ [(t, cap)]" "free c' = free c - 1"
      using assms(2) False d by (auto simp: try_dequeue_def)
    then show ?thesis
      using deq_some [OF assms(1) d [unfolded res]] deq_invar [OF assms(1) d] False
      by (auto simp: moved_def intro!: exI [of _ "[(t, cap)]"])
  next
    case no: False
    then have "s' = s1" "inflight c' = inflight c" "free c' = free c"
      using assms(2) False d by (auto simp: try_dequeue_def Let_def split: sum.splits option.splits)
    moreover have "queued s1 = queued s" using deq_none [OF assms(1) d] no by blast
    ultimately show ?thesis using deq_invar [OF assms(1) d] by (simp add: moved_def)
  qed
qed

lemma mark_simps [simp]:
  "inflight (mark_active cap c) = inflight c" "free (mark_active cap c) = free c"
  "inflight (mark_empty cap c) = inflight c" "free (mark_empty cap c) = free c"
  "inflight (back_off got c) = inflight c" "free (back_off got c) = free c"
  by (simp_all add: mark_active_def mark_empty_def back_off_def Let_def)

lemma burst_moved:
  "invar s \<Longrightarrow> burst deq cap n (got, c, s) = (got', c', s') \<Longrightarrow> moved (c, s) (c', s')"
proof (induction n arbitrary: got c s)
  case 0
  then show ?case by (simp add: moved_refl)
next
  case (Suc n)
  obtain b c1 s1 where t: "try_dequeue deq cap (c, s) = (b, c1, s1)" by (metis prod_cases3)
  note m = try_dequeue_moved [OF Suc.prems(1) t]
  show ?case
  proof (cases b)
    case True
    have "moved (c, s) (mark_active cap c1, s1)" using m by (rule moved_cong) simp_all
    moreover have "moved (mark_active cap c1, s1) (c', s')"
      using Suc.IH [OF moved_invar [OF m]] Suc.prems(2) by (simp add: t True)
    ultimately show ?thesis by (rule moved_trans)
  next
    case False
    then show ?thesis using Suc.prems(2) moved_cong [OF m] by (auto simp: t)
  qed
qed

lemma visit_moved: "invar s \<Longrightarrow> visit deq (got, c, s) cap = (got', c', s') \<Longrightarrow> moved (c, s) (c', s')"
proof -
  assume inv: "invar s" and v: "visit deq (got, c, s) cap = (got', c', s')"
  obtain b c1 s1 where t: "try_dequeue deq cap (c, s) = (b, c1, s1)" by (metis prod_cases3)
  show ?thesis
    using v moved_refl [OF inv, of c] try_dequeue_moved [OF inv t]
      moved_cong [OF try_dequeue_moved [OF inv t], of "mark_active cap c1"]
    by (auto simp: visit_def t split: if_splits bool.splits)
qed

lemma foldl_moved:
  assumes "\<And>x got c s got' c' s'. invar s \<Longrightarrow> f (got, c, s) x = (got', c', s') \<Longrightarrow> moved (c, s) (c', s')"
  shows "invar s \<Longrightarrow> foldl f (got, c, s) xs = (got', c', s') \<Longrightarrow> moved (c, s) (c', s')"
proof (induction xs arbitrary: got c s)
  case (Cons x xs)
  obtain g1 c1 s1 where x: "f (got, c, s) x = (g1, c1, s1)" by (metis prod_cases3)
  have m: "moved (c, s) (c1, s1)" using assms [OF Cons.prems(1) x] .
  moreover have "moved (c1, s1) (c', s')"
    using Cons.IH [OF moved_invar [OF m]] Cons.prems(2) by (simp add: x)
  ultimately show ?case by (rule moved_trans)
qed (simp add: moved_refl)

lemma poll_round_moved:
  assumes "invar s" and "poll_round deq (c, s) = (c', s')"
  shows "moved (c, s) (c', s')"
proof -
  obtain g1 c1 s1 where b: "burst_phase deq (False, c, s) = (g1, c1, s1)" by (metis prod_cases3)
  obtain g2 c2 s2 where r: "round_robin_phase deq (g1, c1, s1) = (g2, c2, s2)" by (metis prod_cases3)
  have m1: "moved (c, s) (c1, s1)"
    by (rule foldl_moved [OF _ assms(1) b [unfolded burst_phase_def]]) (auto intro: burst_moved)
  then have "invar s1" by (simp add: moved_def)
  then have "moved (c1, s1) (c2, s2)"
    using r unfolding round_robin_phase_def by (rule foldl_moved [rotated]) (rule visit_moved)
  with m1 have "moved (c, s) (c2, s2)" by (rule moved_trans)
  moreover have "c' = back_off g2 c2" "s' = s2"
    using assms(2) by (simp_all add: poll_round_def b r)
  ultimately show ?thesis by (simp add: moved_cong)
qed

end
subsection \<open>The queue manager as the source\<close>

definition qm_source :: "QueueManager \<Rightarrow> time \<Rightarrow> redis source" where
  "qm_source qm now r cap = (case dequeue qm r now cap of
      (Some (RText t, _), r') \<Rightarrow> (Inr (Some t), r')
    | (_, r') \<Rightarrow> (Inr None, r'))"

definition queued_tasks :: "redis \<Rightarrow> string \<Rightarrow> string set" where
  "queued_tasks r cap = dom (q_waiting cap r)"

definition queues_ok :: "redis \<Rightarrow> bool" where
  "queues_ok r \<longleftrightarrow> (\<forall>cap. q_ok cap r)"

lemma same_capability_waiting:
  assumes "same_capability cap r r'"
  shows "q_waiting cap r' = q_waiting cap r" and "wf_redis r' \<Longrightarrow> q_ok cap r \<Longrightarrow> q_ok cap r'"
  using assms by (auto simp: same_capability_def q_waiting_def q_ok_def zscore_def)

lemma queues_ok_dequeue:
  assumes "queues_ok r" and "dequeue_ready qm r now cap = (res, r')"
  shows "queues_ok r'"
    and "res = None \<Longrightarrow> queued_tasks r' = queued_tasks r"
    and "res = Some m \<Longrightarrow> \<exists>t. m = RText t \<and> t \<in> queued_tasks r cap \<and>
      queued_tasks r' = (queued_tasks r)(cap := queued_tasks r cap - {t})"
proof -
  have ok: "q_ok c r" for c using assms(1) by (simp add: queues_ok_def)
  have wf: "wf_redis r'" using dequeue_ready_wf [of r qm now cap] ok [of cap] by (simp add: assms(2) q_ok_def)
  have other: "same_capability c r r'" if "c \<noteq> cap" for c
    using same_capability_dequeue [of cap c r qm now] that by (simp add: assms(2))
  note rest = same_capability_waiting [OF other]
  have res: "(res = None \<longrightarrow> q_ok cap r' \<and> q_waiting cap r' = q_waiting cap r) \<and>
      (\<forall>m. res = Some m \<longrightarrow> (\<exists>t. m = RText t \<and> q_next qm cap now r = Some (t, r')))"
  proof (cases res)
    case None
    then have "same_queues r r'" using assms(2) dequeue_ready_None_same by blast
    then have "zscore r' k x = zscore r k x" for k x by (simp add: same_queues_reads)
    then show ?thesis using None ok [of cap] wf by (auto simp: q_ok_def q_waiting_def fun_eq_iff)
  next
    case (Some m)
    have "wf_redis r" "dequeue_ready qm r now cap = (Some m, r')"
      using ok [of cap] assms(2) Some by (auto simp: q_ok_def)
    then obtain s where "zscore r (pending cap) m = Some s" by (rule dequeue_ready_pick)
    then obtain t where "m = RText t" using ok [of cap] unfolding q_ok_def by metis
    then show ?thesis using Some assms(2) by (simp add: q_next_def)
  qed
  have here: "q_ok cap r'" using res q_next_moves [OF ok] by (cases res) auto
  show "queues_ok r'"
    unfolding queues_ok_def using rest(2) [OF _ wf ok] here by metis
  show "queued_tasks r' = queued_tasks r" if "res = None"
  proof
    fix c
    show "queued_tasks r' c = queued_tasks r c"
      using res that rest(1) [of c] by (cases "c = cap") (auto simp: queued_tasks_def)
  qed
  assume "res = Some m"
  then obtain t where t: "m = RText t" "q_next qm cap now r = Some (t, r')" using res by blast
  have "t \<in> queued_tasks r cap"
    using rq.next_waiting [OF ok t(2)] by (auto simp: queued_tasks_def)
  moreover have "queued_tasks r' c = ((queued_tasks r)(cap := queued_tasks r cap - {t})) c" for c
    using q_next_moves [OF ok t(2)] rest(1) [of c] by (auto simp: queued_tasks_def split: if_splits)
  ultimately show "\<exists>t. m = RText t \<and> t \<in> queued_tasks r cap \<and>
      queued_tasks r' = (queued_tasks r)(cap := queued_tasks r cap - {t})"
    using t(1) by blast
qed

lemma qm_source_eq:
  assumes "queues_ok r" and "dequeue_ready qm r now cap = (res, r')"
  shows "qm_source qm now r cap = (Inr (case res of Some (RText t) \<Rightarrow> Some t | _ \<Rightarrow> None), r')"
  using assms by (simp add: qm_source_def dequeue_def split: option.splits rval.splits)

interpretation qms: task_source "qm_source qm now" queued_tasks queues_ok for qm now
proof (unfold_locales, goal_cases)
  case (1 s cap res s')
  obtain o1 r1 where d: "dequeue_ready qm s now cap = (o1, r1)" by fastforce
  show ?case using 1 qm_source_eq [OF 1(1) d] queues_ok_dequeue(1) [OF 1(1) d] by simp
next
  case (2 s cap res s')
  obtain o1 r1 where d: "dequeue_ready qm s now cap = (o1, r1)" by fastforce
  have "o1 = None"
    using 2(2,3) qm_source_eq [OF 2(1) d] queues_ok_dequeue(3) [OF 2(1) d] by (cases o1) fastforce+
  then show ?case using 2(2) qm_source_eq [OF 2(1) d] queues_ok_dequeue(2) [OF 2(1) d] by simp
next
  case (3 s cap t s')
  obtain o1 r1 where d: "dequeue_ready qm s now cap = (o1, r1)" by fastforce
  have o1: "o1 = Some (RText t)" "r1 = s'"
    using 3(2) qm_source_eq [OF 3(1) d] by (auto split: option.splits rval.splits)
  show ?case using queues_ok_dequeue(3) [OF 3(1) d o1(1)] o1(2) by auto
qed

subsection \<open>Properties\<close>

text \<open>
  C5. One pass of the polling loop over the queues of the queue manager loses and
  duplicates nothing: the executions it starts are distinct, each for a task that was
  waiting in the queue of its capability, exactly these tasks leave the queues, and each
  takes one permit, so that no task is taken from a queue that could not be executed.
\<close>

theorem consumer_no_loss:
  assumes "queues_ok r" and "poll_round (qm_source qm now) (c, r) = (c', r')" and "0 \<le> free c"
  shows "\<exists>new. inflight c' = inflight c @ new \<and> distinct new \<and>
    free c' = free c - int (length new) \<and> 0 \<le> free c' \<and>
    (\<forall>(t, cap) \<in> set new. t \<in> queued_tasks r cap) \<and>
    (\<forall>cap. queued_tasks r' cap = queued_tasks r cap - {t. (t, cap) \<in> set new})"
  using qms.poll_round_moved [OF assms(1,2)] assms(3) unfolding qms.moved_def by auto

text \<open>The state of the consumer between two passes of the loop.\<close>

definition consumer_ok :: "TaskConsumer \<Rightarrow> bool" where
  "consumer_ok c \<longleftrightarrow> 0 \<le> free c \<and> free c + int (length (inflight c)) = max_concurrent_tasks c \<and>
     (\<forall>n \<in> snd ` set (active_caps c). n < 3) \<and>
     1 \<le> backoff_multiplier c \<and> backoff_multiplier c \<le> max_backoff c"

lemma snd_set_update: "snd ` set (AList.update k v al) \<subseteq> insert v (snd ` set al)"
  by (induction al) auto

lemma snd_set_delete: "snd ` set (AList.delete k al) \<subseteq> snd ` set al"
  by (auto simp: in_set_delete)

lemma delete_update: "AList.delete k (AList.update k v al) = AList.delete k al"
  by (induction al) auto

lemma consumer_ok_marks:
  assumes "consumer_ok c"
  shows "consumer_ok (mark_active cap c)" and "consumer_ok (mark_empty cap c)"
proof -
  show "consumer_ok (mark_active cap c)"
    using assms snd_set_update [of cap 0 "active_caps c"] by (force simp: consumer_ok_def mark_active_def)
  define n where "n = (case map_of (active_caps c) cap of None \<Rightarrow> 0 | Some k \<Rightarrow> k) + 1"
  have old: "\<forall>k \<in> snd ` set (active_caps c). k < 3" using assms by (simp add: consumer_ok_def)
  have "\<forall>k \<in> snd ` set (AList.update cap n (active_caps c)). k < 3" if "n < 3"
    using that old snd_set_update [of cap n "active_caps c"] by blast
  moreover have "\<forall>k \<in> snd ` set (AList.delete cap (AList.update cap n (active_caps c))). k < 3"
    using old snd_set_delete [of cap "active_caps c"] unfolding delete_update by blast
  ultimately have "\<forall>k \<in> snd ` set (active_caps (mark_empty cap c)). k < 3"
    unfolding mark_empty_def Let_def n_def [symmetric] by (simp add: not_le)
  then show "consumer_ok (mark_empty cap c)"
    using assms by (simp add: consumer_ok_def mark_empty_def Let_def)
qed

lemma consumer_ok_try: "consumer_ok c \<Longrightarrow> try_dequeue deq cap (c, s) = (b, c', s') \<Longrightarrow> consumer_ok c'"
  by (auto simp: try_dequeue_def consumer_ok_def Let_def split: if_splits prod.splits sum.splits option.splits)

lemma consumer_ok_burst:
  "consumer_ok c \<Longrightarrow> burst deq cap n (got, c, s) = (got', c', s') \<Longrightarrow> consumer_ok c'"
proof (induction n arbitrary: got c s)
  case (Suc n)
  obtain b c1 s1 where t: "try_dequeue deq cap (c, s) = (b, c1, s1)" by (metis prod_cases3)
  show ?case
    using Suc.prems(2) Suc.IH [OF consumer_ok_marks(1) [OF consumer_ok_try [OF Suc.prems(1) t]]]
      consumer_ok_marks(2) [OF consumer_ok_try [OF Suc.prems(1) t]]
    by (cases b) (auto simp: t)
qed simp

lemma consumer_ok_visit:
  assumes "consumer_ok c" and "visit deq (got, c, s) cap = (got', c', s')"
  shows "consumer_ok c'"
proof -
  obtain b c1 s1 where t: "try_dequeue deq cap (c, s) = (b, c1, s1)" by (metis prod_cases3)
  show ?thesis
    using assms consumer_ok_try [OF assms(1) t] consumer_ok_marks(1)
    by (cases b) (auto simp: visit_def t split: if_splits)
qed

lemma consumer_ok_foldl:
  assumes "\<And>x got c s got' c' s'. consumer_ok c \<Longrightarrow> f (got, c, s) x = (got', c', s') \<Longrightarrow> consumer_ok c'"
  shows "consumer_ok c \<Longrightarrow> foldl f (got, c, s) xs = (got', c', s') \<Longrightarrow> consumer_ok c'"
proof (induction xs arbitrary: got c s)
  case (Cons x xs)
  obtain g1 c1 s1 where x: "f (got, c, s) x = (g1, c1, s1)" by (metis prod_cases3)
  show ?case using Cons.IH [OF assms [OF Cons.prems(1) x]] Cons.prems(2) by (simp add: x)
qed simp

lemma consumer_ok_round:
  assumes "consumer_ok c" and "poll_round deq (c, s) = (c', s')"
  shows "consumer_ok c'"
proof -
  obtain g1 c1 s1 where b: "burst_phase deq (False, c, s) = (g1, c1, s1)" by (metis prod_cases3)
  obtain g2 c2 s2 where r: "round_robin_phase deq (g1, c1, s1) = (g2, c2, s2)" by (metis prod_cases3)
  have "consumer_ok c1"
    by (rule consumer_ok_foldl [OF _ assms(1) b [unfolded burst_phase_def]]) (auto intro: consumer_ok_burst)
  then have "consumer_ok c2"
    using r unfolding round_robin_phase_def by (rule consumer_ok_foldl [rotated]) (rule consumer_ok_visit)
  then have "consumer_ok (back_off g2 c2)"
    by (auto simp: consumer_ok_def back_off_def min_def)
  then show ?thesis using assms(2) by (simp add: poll_round_def b r)
qed

text \<open>
  Whatever the queues return (tasks, nothing or errors), every pass of the loop and
  every end of an execution keep the consumer consistent: free permits and executions in
  flight add up to the limit and permits are never overdrawn, a capability leaves the
  active set after three empty rounds, and the waiting time stays between the poll interval
  and eight times it.
\<close>

theorem consumer_invariant:
  assumes "consumer_ok c"
  shows "consumer_ok (fst (poll_round deq (c, s))) \<and>
    (t \<in> set (inflight c) \<longrightarrow> consumer_ok (execution_done t c)) \<and>
    (max_backoff c = 8 \<and> 0 \<le> poll_interval c \<longrightarrow>
      poll_interval c \<le> wait_time c \<and> wait_time c \<le> 8 * poll_interval c)"
proof -
  have "consumer_ok (fst (poll_round deq (c, s)))"
    using consumer_ok_round [OF assms] by (metis prod.collapse)
  moreover have "consumer_ok (execution_done t c)" if t: "t \<in> set (inflight c)"
  proof -
    obtain n where "length (inflight c) = Suc n" using t by (cases "inflight c") auto
    then show ?thesis
      using assms t by (simp add: consumer_ok_def execution_done_def length_remove1)
  qed
  moreover have "poll_interval c \<le> wait_time c \<and> wait_time c \<le> 8 * poll_interval c"
    if "max_backoff c = 8" "0 \<le> poll_interval c"
  proof -
    have "1 \<le> backoff_multiplier c" "backoff_multiplier c \<le> 8" using assms that(1) by (auto simp: consumer_ok_def)
    then have "poll_interval c * 1 \<le> poll_interval c * backoff_multiplier c"
      "poll_interval c * backoff_multiplier c \<le> poll_interval c * 8"
      using that(2) by (intro mult_left_mono; simp)+
    then show ?thesis by (simp add: wait_time_def mult.commute)
  qed
  ultimately show ?thesis by blast
qed

abbreviation demo_consumer :: TaskConsumer where
  "demo_consumer \<equiv> new_TaskConsumer [''ocr''] 2"

theorem consumer_invariant_witness:
  "consumer_ok (fst (poll_round (qm_source demo_qm 10) (demo_consumer, demo_store)))"
proof -
  have "consumer_ok demo_consumer" by code_simp
  from consumer_invariant [OF this, THEN conjunct1] show ?thesis .
qed

lemma q_ok_other:
  assumes "cap \<noteq> ''ocr''"
  shows "q_ok cap demo_store"
proof -
  have "zscore demo_store (pending cap) m = zscore empty_redis (pending cap) m" for m
    unfolding demo_store_def using assms by (simp add: store_simps key_simps)
  then have "zscore demo_store (pending cap) m = None" for m
    by (simp add: zscore_def zbucket_def empty_redis_def)
  then show ?thesis by (simp add: q_ok_def wf_demo_store)
qed

lemma demo_queues_ok: "queues_ok demo_store"
  unfolding queues_ok_def using demo_q_ok q_ok_other by metis

theorem consumer_no_loss_witness:
  "\<exists>c' r' new. poll_round (qm_source demo_qm 10) (demo_consumer, demo_store) = (c', r') \<and>
     inflight c' = new \<and> distinct new \<and> length new \<le> 2 \<and>
     (\<forall>cap. queued_tasks r' cap = queued_tasks demo_store cap - {t. (t, cap) \<in> set new})"
proof -
  obtain c' r' where pr: "poll_round (qm_source demo_qm 10) (demo_consumer, demo_store) = (c', r')" by fastforce
  have "0 \<le> free demo_consumer" "free demo_consumer = 2" "inflight demo_consumer = []" by code_simp+
  with consumer_no_loss [OF demo_queues_ok pr] obtain new where
    "inflight c' = new" "distinct new" "free c' = 2 - int (length new)" "0 \<le> free c'"
    "\<forall>cap. queued_tasks r' cap = queued_tasks demo_store cap - {t. (t, cap) \<in> set new}"
    by (metis append_Nil)
  moreover from this have "length new \<le> 2" by simp
  ultimately show ?thesis using pr by blast
qed

end
