(* ===== verification/Task_Model.thy ===== *)
theory Task_Model
  imports Redis_Store
begin

text \<open>
  Task data (\<^verbatim>\<open>src/models/task.py\<close>) and the task lifecycle state machine
  (\<^verbatim>\<open>src/platform/task_state_machine.py\<close>). The transition table \<^verbatim>\<open>_ALLOWED\<close> is the partial
  function \<open>allowed\<close>; \<open>transition\<close> is \<^verbatim>\<open>TaskStateMachine.transition\<close> with the exception as a
  value. Lemmas: terminal states have no successor, and along every legal history the
  number of starts exceeds the number of requeues by exactly one once the task has run.
\<close>

subsection \<open>Data\<close>

datatype TaskStatus = PENDING | SCHEDULED | QUEUED | RUNNING | COMPLETED | FAILED | CANCELLED

fun status_value :: "TaskStatus \<Rightarrow> string" where
  "status_value PENDING = ''pending''"
| "status_value SCHEDULED = ''scheduled''"
| "status_value QUEUED = ''queued''"
| "status_value RUNNING = ''running''"
| "status_value COMPLETED = ''completed''"
| "status_value FAILED = ''failed''"
| "status_value CANCELLED = ''cancelled''"

datatype TaskPriority = VERY_HIGH | HIGH | NORMAL | LOW | TIDE

fun weight :: "TaskPriority \<Rightarrow> int" where
  "weight VERY_HIGH = 1"
| "weight HIGH = 2"
| "weight NORMAL = 3"
| "weight LOW = 4"
| "weight TIDE = 5"

text \<open>Priorities are ordered by weight: a lower weight is a higher priority.\<close>

instantiation TaskPriority :: linorder
begin

definition less_eq_TaskPriority :: "TaskPriority \<Rightarrow> TaskPriority \<Rightarrow> bool" where
  "less_eq_TaskPriority a b \<longleftrightarrow> weight a \<le> weight b"

definition less_TaskPriority :: "TaskPriority \<Rightarrow> TaskPriority \<Rightarrow> bool" where
  "less_TaskPriority a b \<longleftrightarrow> weight a < weight b"

instance
proof
  fix a b c :: TaskPriority
  show "a \<le> b \<Longrightarrow> b \<le> a \<Longrightarrow> a = b"
    by (cases a; cases b) (simp_all add: less_eq_TaskPriority_def)
qed (auto simp: less_eq_TaskPriority_def less_TaskPriority_def)

end

lemma weight_range: "1 \<le> weight p \<and> weight p \<le> 5"
  by (cases p) auto

lemma inj_status_value: "status_value s = status_value t \<longleftrightarrow> s = t"
  by (cases s; cases t) auto

subsection \<open>The lifecycle state machine\<close>

datatype TaskEvent = CREATE | SCHEDULE | ENQUEUE | START | COMPLETE | FAIL | CANCEL | REQUEUE | STALE_FAIL

record TransitionResult =
  previous :: TaskStatus
  event :: TaskEvent
  current :: TaskStatus

fun allowed :: "TaskStatus \<Rightarrow> TaskEvent \<Rightarrow> TaskStatus option" where
  "allowed PENDING SCHEDULE = Some SCHEDULED"
| "allowed PENDING ENQUEUE = Some QUEUED"
| "allowed SCHEDULED ENQUEUE = Some QUEUED"
| "allowed QUEUED START = Some RUNNING"
| "allowed RUNNING COMPLETE = Some COMPLETED"
| "allowed RUNNING FAIL = Some FAILED"
| "allowed RUNNING STALE_FAIL = Some FAILED"
| "allowed RUNNING REQUEUE = Some QUEUED"
| "allowed QUEUED CANCEL = Some CANCELLED"
| "allowed _ _ = None"

datatype task_error = InvalidTaskTransition TaskStatus TaskEvent

definition transition :: "TaskStatus \<Rightarrow> TaskEvent \<Rightarrow> task_error + TransitionResult" where
  "transition c e = (case allowed c e of
      None \<Rightarrow> Inl (InvalidTaskTransition c e)
    | Some n \<Rightarrow> Inr \<lparr>previous = c, event = e, current = n\<rparr>)"

text \<open>A history of events, applied until the first illegal one raises.\<close>

fun run_events :: "TaskStatus \<Rightarrow> TaskEvent list \<Rightarrow> task_error + TaskStatus" where
  "run_events s [] = Inr s"
| "run_events s (e # es) = (case transition s e of
      Inl err \<Rightarrow> Inl err
    | Inr t \<Rightarrow> run_events (current t) es)"

definition terminal :: "TaskStatus \<Rightarrow> bool" where
  "terminal s \<longleftrightarrow> s \<in> {COMPLETED, FAILED, CANCELLED}"

definition started :: "TaskStatus \<Rightarrow> bool" where
  "started s \<longleftrightarrow> s \<in> {RUNNING, COMPLETED, FAILED}"

lemma allowed_terminal: "terminal s \<Longrightarrow> allowed s e = None"
  by (cases e) (auto simp: terminal_def)

lemma allowed_None_iff_terminal: "(\<forall>e. allowed s e = None) \<longleftrightarrow> terminal s"
proof
  assume none: "\<forall>e. allowed s e = None"
  from none [THEN spec, of ENQUEUE] none [THEN spec, of START] none [THEN spec, of FAIL]
  show "terminal s" by (cases s) (auto simp: terminal_def)
qed (simp add: allowed_terminal)

lemma transition_Inr:
  "transition s e = Inr t \<longleftrightarrow>
     (\<exists>n. allowed s e = Some n \<and> t = \<lparr>previous = s, event = e, current = n\<rparr>)"
  by (auto simp: transition_def split: option.splits)

lemma run_events_append:
  "run_events s (xs @ ys) = (case run_events s xs of Inl e \<Rightarrow> Inl e | Inr t \<Rightarrow> run_events t ys)"
  by (induction xs arbitrary: s) (auto simp: transition_def split: sum.splits option.splits)

text \<open>One step of the counting invariant: starts minus requeues, plus what is already started.\<close>

lemma allowed_balance:
  "allowed s e = Some n \<Longrightarrow>
   (if e = START then 1 else 0) + (if started s then 1 else (0::nat)) =
   (if e = REQUEUE then 1 else 0) + (if started n then 1 else 0)"
  by (cases s; cases e) (auto simp: started_def)

lemma run_events_balance:
  "run_events s es = Inr t \<Longrightarrow>
   count_list es START + (if started s then 1 else 0) =
   count_list es REQUEUE + (if started t then 1 else 0)"
proof (induction es arbitrary: s)
  case Nil
  then show ?case by simp
next
  case (Cons e es)
  then obtain n where n: "allowed s e = Some n" and rest: "run_events n es = Inr t"
    by (auto simp: transition_Inr split: sum.splits)
  from allowed_balance [OF n] Cons.IH [OF rest] show ?case
    by (auto split: if_splits)
qed

lemma allowed_into_completed: "allowed s e = Some COMPLETED \<Longrightarrow> s = RUNNING \<and> e = COMPLETE"
  by (cases s; cases e) auto

subsection \<open>Properties\<close>

text \<open>
  The terminal statuses are exactly those without a legal event: once a task is
  completed, failed or cancelled, every event raises \<^verbatim>\<open>InvalidTaskTransition\<close>, and every
  other status has a way on.
\<close>

theorem terminal_absorbing:
  "terminal s \<longleftrightarrow> (\<forall>e. transition s e = Inl (InvalidTaskTransition s e))"
proof -
  have "transition s e = Inl (InvalidTaskTransition s e) \<longleftrightarrow> allowed s e = None" for e
    by (simp add: transition_def split: option.splits)
  then show ?thesis by (simp add: allowed_None_iff_terminal)
qed

text \<open>
  A task created as pending that ends completed has been started, its last event is
  \<^verbatim>\<open>COMPLETE\<close>, and it was started exactly once more than it was requeued.
\<close>

theorem completed_history:
  assumes "run_events PENDING es = Inr COMPLETED"
  shows "last es = COMPLETE \<and> count_list es START = Suc (count_list es REQUEUE)"
proof
  from assms obtain ds e where es: "es = ds @ [e]"
    by (cases es rule: rev_cases) auto
  with assms have "\<exists>s. allowed s e = Some COMPLETED"
    by (auto simp: run_events_append transition_Inr split: sum.splits)
  then have "e = COMPLETE" using allowed_into_completed by blast
  then show "last es = COMPLETE" by (simp add: es)
  from run_events_balance [OF assms] show "count_list es START = Suc (count_list es REQUEUE)"
    by (simp add: started_def)
qed

theorem completed_history_witness:
  "last [ENQUEUE, START, REQUEUE, START, COMPLETE] = COMPLETE \<and>
   count_list [ENQUEUE, START, REQUEUE, START, COMPLETE] START =
   Suc (count_list [ENQUEUE, START, REQUEUE, START, COMPLETE] REQUEUE)"
  by (rule completed_history) (simp add: transition_def)

end
