(* ===== verification/Task_Transactions.thy ===== *)
theory Task_Transactions
  imports Task_Model
begin

text \<open>
  The double write of a task: \<^verbatim>\<open>AtomicWriteCoordinator\<close> (\<^verbatim>\<open>src/common/transaction.py\<close>) writes
  to the database first and then to Redis; when the second write fails it leaves a pending
  transaction, and \<^verbatim>\<open>CompensationService\<close> (\<^verbatim>\<open>src/services/compensation.py\<close>) repairs Redis
  from the database row.

  The two writes are arguments of the coordinator, as in the code; an \<open>Inl\<close> reply is an
  exception. The table \<open>db\<close> maps a task identifier to its row (the reply of the query by
  primary key). Timestamps are clock readings.
\<close>

subsection \<open>The row of a task\<close>

record TaskRecord =
  tr_task_id :: string
  tr_tenant_id :: string
  tr_task_type :: string
  tr_dag_id :: "string option"
  tr_status :: TaskStatus
  tr_priority :: TaskPriority
  tr_cluster_id :: "string option"
  tr_current_step :: "string option"
  tr_input_data :: "rval option"
  tr_output_data :: "rval option"
  tr_error_message :: "string option"
  tr_metadata_json :: "rval option"
  tr_callback_url :: "string option"
  tr_idempotency_key :: "string option"
  tr_timeout_seconds :: int
  tr_max_retries :: int
  tr_attempt :: int
  tr_scheduled_at :: pyval
  tr_cron_expr :: "string option"
  tr_created_at :: time
  tr_updated_at :: time

text \<open>A row with the defaults of its columns, created at \<open>now\<close>.\<close>

definition new_TaskRecord :: "string \<Rightarrow> string \<Rightarrow> string \<Rightarrow> time \<Rightarrow> TaskRecord" where
  "new_TaskRecord task_id tenant typ now = \<lparr>tr_task_id = task_id, tr_tenant_id = tenant, tr_task_type = typ,
     tr_dag_id = None, tr_status = PENDING, tr_priority = NORMAL, tr_cluster_id = None,
     tr_current_step = None, tr_input_data = None, tr_output_data = None, tr_error_message = None,
     tr_metadata_json = None, tr_callback_url = None, tr_idempotency_key = None,
     tr_timeout_seconds = 3600, tr_max_retries = 3, tr_attempt = 0, tr_scheduled_at = PNone,
     tr_cron_expr = None, tr_created_at = now, tr_updated_at = now\<rparr>"

definition task_key :: "string \<Rightarrow> string" where
  "task_key task_id = ''task:'' @ task_id"

definition TASK_REDIS_TTL :: int where
  "TASK_REDIS_TTL = 86400"

definition TX_PENDING_TTL :: int where
  "TX_PENDING_TTL = 300"

subsection \<open>Transactions\<close>

datatype TxStatus = PENDING_REDIS | COMMITTED | TX_FAILED | RECOVERED | EXPIRED

fun tx_value :: "TxStatus \<Rightarrow> string" where
  "tx_value PENDING_REDIS = ''pending_redis''"
| "tx_value COMMITTED = ''committed''"
| "tx_value TX_FAILED = ''failed''"
| "tx_value RECOVERED = ''recovered''"
| "tx_value EXPIRED = ''expired''"

text \<open>\<^verbatim>\<open>TxStatus(value)\<close>, which raises for any other string.\<close>

definition tx_of_value :: "string \<Rightarrow> TxStatus option" where
  "tx_of_value v = List.find (\<lambda>s. tx_value s = v) [PENDING_REDIS, COMMITTED, TX_FAILED, RECOVERED, EXPIRED]"

record TxRecord =
  tx_id :: string
  tx_task_id :: string
  operation :: string
  tx_status :: TxStatus
  mysql_written :: bool
  redis_written :: bool
  tx_created_at :: time
  retry_count :: int
  last_error :: string
  tx_payload :: dict

definition new_TxRecord :: "string \<Rightarrow> string \<Rightarrow> string \<Rightarrow> dict \<Rightarrow> time \<Rightarrow> TxRecord" where
  "new_TxRecord i t op payload now = \<lparr>tx_id = i, tx_task_id = t, operation = op, tx_status = PENDING_REDIS,
     mysql_written = False, redis_written = False, tx_created_at = now, retry_count = 0,
     last_error = [], tx_payload = payload\<rparr>"

definition tx_key :: "string \<Rightarrow> string" where
  "tx_key i = ''tx:'' @ i"

lemma tx_keys [key_simps]: "tx_key a = tx_key b \<longleftrightarrow> a = b" "task_key a = task_key b \<longleftrightarrow> a = b"
  "tx_key a \<noteq> task_key b" "task_key b \<noteq> tx_key a"
  by (simp_all add: tx_key_def task_key_def)

text \<open>The two JSON documents: the coordinator leaves the two flags out.\<close>

definition pending_json :: "TxRecord \<Rightarrow> dict" where
  "pending_json tx = [(''tx_id'', PStr (tx_id tx)), (''task_id'', PStr (tx_task_id tx)),
     (''operation'', PStr (operation tx)), (''status'', PStr (tx_value (tx_status tx))),
     (''created_at'', PFloat (tx_created_at tx)), (''retry_count'', PInt (retry_count tx)),
     (''last_error'', PStr (last_error tx)), (''payload'', PDict (tx_payload tx))]"

definition tx_json :: "TxRecord \<Rightarrow> dict" where
  "tx_json tx = [(''tx_id'', PStr (tx_id tx)), (''task_id'', PStr (tx_task_id tx)),
     (''operation'', PStr (operation tx)), (''status'', PStr (tx_value (tx_status tx))),
     (''mysql_written'', PBool (mysql_written tx)), (''redis_written'', PBool (redis_written tx)),
     (''created_at'', PFloat (tx_created_at tx)), (''retry_count'', PInt (retry_count tx)),
     (''last_error'', PStr (last_error tx)), (''payload'', PDict (tx_payload tx))]"

text \<open>\<open>up\<close>: whether Redis answers. A failure to save the pending transaction is logged.\<close>

definition save_pending_tx :: "bool \<Rightarrow> redis \<Rightarrow> TxRecord \<Rightarrow> redis" where
  "save_pending_tx up r tx =
     (if up then set_ex r (tx_key (tx_id tx)) (RJson (PDict (pending_json tx))) (Some TX_PENDING_TTL) else r)"

subsection \<open>The compensation service\<close>

record CompensationService =
  cs_batch_size :: nat
  cs_max_retries :: int

definition new_CompensationService :: CompensationService where
  "new_CompensationService = \<lparr>cs_batch_size = 100, cs_max_retries = 3\<rparr>"

definition save_transaction :: "redis \<Rightarrow> TxRecord \<Rightarrow> redis" where
  "save_transaction r tx =
     (if tx_status tx = COMMITTED then delete_key r (tx_key (tx_id tx))
      else if tx_status tx = EXPIRED then delete_key r (tx_key (tx_id tx))
      else set_ex r (tx_key (tx_id tx)) (RJson (PDict (tx_json tx))) (Some 300))"

definition mark_expired :: "redis \<Rightarrow> TxRecord \<Rightarrow> redis" where
  "mark_expired r tx = save_transaction r (tx\<lparr>tx_status := EXPIRED\<rparr>)"

definition compensation_enqueue :: "redis \<Rightarrow> TxRecord \<Rightarrow> redis" where
  "compensation_enqueue r tx = save_transaction r tx"

text \<open>
  \<^verbatim>\<open>write_atomic\<close>. \<open>save_up\<close> and \<open>comp_up\<close> tell whether Redis answers when the pending
  transaction is saved and when it is handed to the compensation service (if there is one);
  an exception of the latter is caught by the outer handler and raised again.
\<close>

type_synonym 'w mwrite = "'w \<Rightarrow> (string + unit) \<times> 'w"
type_synonym rwrite = "redis \<Rightarrow> (string + unit) \<times> redis"

definition write_atomic ::
  "bool \<Rightarrow> bool \<Rightarrow> bool \<Rightarrow> string \<Rightarrow> string \<Rightarrow> dict \<Rightarrow> string \<Rightarrow> time \<Rightarrow> 'w mwrite \<Rightarrow> rwrite
   \<Rightarrow> 'w \<times> redis \<Rightarrow> (string + TxRecord) \<times> 'w \<times> redis" where
  "write_atomic compensation save_up comp_up task_id op payload i now mysql_write_fn redis_write_fn s =
     (let (w, r) = s; tx = new_TxRecord i task_id op payload now in
      case mysql_write_fn w of
        (Inl e, w') \<Rightarrow> (Inl e, w', r)
      | (Inr _, w') \<Rightarrow>
          (case redis_write_fn r of
             (Inr _, r') \<Rightarrow>
               (Inr (tx\<lparr>mysql_written := True, redis_written := True, tx_status := COMMITTED\<rparr>), w', r')
           | (Inl e, r') \<Rightarrow>
               (let tx' = tx\<lparr>mysql_written := True, last_error := e, tx_status := TX_FAILED\<rparr>;
                    r1 = save_pending_tx save_up r' tx'
                in if \<not> compensation then (Inr tx', w', r1)
                   else if comp_up then (Inr tx', w', compensation_enqueue r1 tx')
                   else (Inl ''ConnectionError'', w', r1))))"

text \<open>The convenience functions only fix the name of the operation.\<close>

definition atomic_task_create ::
  "bool \<Rightarrow> bool \<Rightarrow> bool \<Rightarrow> string \<Rightarrow> dict \<Rightarrow> string \<Rightarrow> time \<Rightarrow> 'w mwrite \<Rightarrow> rwrite
   \<Rightarrow> 'w \<times> redis \<Rightarrow> (string + TxRecord) \<times> 'w \<times> redis" where
  "atomic_task_create compensation save_up comp_up task_id kwargs i now mysql_insert redis_set s =
     write_atomic compensation save_up comp_up task_id ''create_task'' kwargs i now mysql_insert redis_set s"

definition atomic_task_status_update ::
  "bool \<Rightarrow> bool \<Rightarrow> bool \<Rightarrow> string \<Rightarrow> string \<Rightarrow> time \<Rightarrow> 'w mwrite \<Rightarrow> rwrite
   \<Rightarrow> 'w \<times> redis \<Rightarrow> (string + TxRecord) \<times> 'w \<times> redis" where
  "atomic_task_status_update compensation save_up comp_up task_id i now mysql_update redis_update s =
     write_atomic compensation save_up comp_up task_id ''update_status'' [] i now mysql_update redis_update s"

text \<open>
  Reading a transaction back. A value that is no JSON object, a missing field or an unknown
  status raises inside the loop and the key is skipped.
\<close>

fun as_bool :: "pyval \<Rightarrow> bool" where
  "as_bool (PBool b) = b"
| "as_bool v = truthy v"

definition parse_tx :: "rval \<Rightarrow> TxRecord option" where
  "parse_tx v = (case v of
      RJson (PDict d) \<Rightarrow>
        (case (map_of d ''tx_id'', map_of d ''task_id'', map_of d ''operation'', map_of d ''status'',
               map_of d ''created_at'') of
           (Some (PStr i), Some (PStr t), Some (PStr op), Some (PStr st), Some (PFloat c)) \<Rightarrow>
             (case (tx_of_value st, dict_get d ''retry_count'' (PInt 0), dict_get d ''last_error'' (PStr []),
                    dict_get d ''payload'' (PDict [])) of
                (Some s, PInt n, PStr e, PDict p) \<Rightarrow>
                  Some \<lparr>tx_id = i, tx_task_id = t, operation = op, tx_status = s,
                    mysql_written = as_bool (dict_get d ''mysql_written'' (PBool False)),
                    redis_written = as_bool (dict_get d ''redis_written'' (PBool False)),
                    tx_created_at = c, retry_count = n, last_error = e, tx_payload = p\<rparr>
              | _ \<Rightarrow> None)
         | _ \<Rightarrow> None)
    | _ \<Rightarrow> None)"

text \<open>\<open>keys\<close>: what the complete SCAN of \<^verbatim>\<open>tx:*\<close> returned.\<close>

definition scan_pending_transactions :: "redis \<Rightarrow> string list \<Rightarrow> TxRecord list" where
  "scan_pending_transactions r keys =
     filter (\<lambda>tx. tx_status tx \<in> {PENDING_REDIS, TX_FAILED})
       (List.map_filter (\<lambda>k. Option.bind (get r k) parse_tx) keys)"

definition task_data :: "TaskRecord \<Rightarrow> dict" where
  "task_data row = [(''task_id'', PStr (tr_task_id row)), (''tenant_id'', PStr (tr_tenant_id row)),
     (''status'', PStr (status_value (tr_status row))), (''created_at_ts'', PFloat (tr_created_at row)),
     (''capability'', PStr (tr_task_type row)), (''priority_rank'', PInt 3)]"

definition commit_tx :: "redis \<Rightarrow> TxRecord \<Rightarrow> redis" where
  "commit_tx r tx = save_transaction r (tx\<lparr>tx_status := COMMITTED, redis_written := True\<rparr>)"

definition retry_create_task :: "(string \<Rightarrow> TaskRecord option) \<Rightarrow> redis \<Rightarrow> TxRecord \<Rightarrow> redis" where
  "retry_create_task db r tx = (case db (tx_task_id tx) of
      None \<Rightarrow> mark_expired r tx
    | Some row \<Rightarrow>
        commit_tx (set_ex r (task_key (tx_task_id tx)) (RJson (PDict (task_data row))) (Some TASK_REDIS_TTL)) tx)"

text \<open>An exception (the stored value is no JSON object) is the reply \<open>Inl\<close>.\<close>

definition retry_update_status ::
  "(string \<Rightarrow> TaskRecord option) \<Rightarrow> redis \<Rightarrow> TxRecord \<Rightarrow> string + redis" where
  "retry_update_status db r tx = (case db (tx_task_id tx) of
      None \<Rightarrow> Inr (mark_expired r tx)
    | Some row \<Rightarrow> (case get r (task_key (tx_task_id tx)) of
          None \<Rightarrow> Inr (commit_tx r tx)
        | Some (RJson (PDict d)) \<Rightarrow>
            Inr (commit_tx (set_ex r (task_key (tx_task_id tx))
                   (RJson (PDict (dict_set d ''status'' (PStr (status_value (tr_status row))))))
                   (Some TASK_REDIS_TTL)) tx)
        | Some (RText t) \<Rightarrow> if t = [] then Inr (commit_tx r tx) else Inl ''JSONDecodeError''
        | Some _ \<Rightarrow> Inl ''TypeError''))"

definition repair_transaction ::
  "CompensationService \<Rightarrow> (string \<Rightarrow> TaskRecord option) \<Rightarrow> TxRecord \<Rightarrow> redis \<Rightarrow> redis" where
  "repair_transaction cs db tx r =
     (if retry_count tx \<ge> cs_max_retries cs then mark_expired r tx
      else if operation tx = ''create_task'' then retry_create_task db r tx
      else if operation tx = ''update_status'' then
        (case retry_update_status db r tx of
           Inr r' \<Rightarrow> r'
         | Inl e \<Rightarrow> save_transaction r (tx\<lparr>retry_count := retry_count tx + 1, last_error := e\<rparr>))
      else mark_expired r tx)"

text \<open>
  The query for active rows of the last day, at most one batch of them, in the order \<open>rows\<close>
  in which the database returns them; then those without a Redis key.
\<close>

definition scan_missing_redis_tasks :: "CompensationService \<Rightarrow> time \<Rightarrow> TaskRecord list \<Rightarrow> redis \<Rightarrow> TaskRecord list" where
  "scan_missing_redis_tasks cs now rows r =
     filter (\<lambda>row. \<not> exists r (task_key (tr_task_id row)))
       (take (cs_batch_size cs)
         (filter (\<lambda>row. tr_status row \<in> {QUEUED, RUNNING, SCHEDULED} \<and> tr_updated_at row \<ge> now - 86400) rows))"

definition repair_missing_task :: "TaskRecord \<Rightarrow> redis \<Rightarrow> redis" where
  "repair_missing_task row r =
     set_ex r (task_key (tr_task_id row)) (RJson (PDict (task_data row))) (Some TASK_REDIS_TTL)"

definition scan_and_repair ::
  "CompensationService \<Rightarrow> time \<Rightarrow> (string \<Rightarrow> TaskRecord option) \<Rightarrow> TaskRecord list \<Rightarrow> string list \<Rightarrow> redis \<Rightarrow> redis" where
  "scan_and_repair cs now db rows keys r =
     (let r1 = fold (repair_transaction cs db) (scan_pending_transactions r keys) r
      in fold repair_missing_task (scan_missing_redis_tasks cs now rows r1) r1)"

subsection \<open>Reading transactions back\<close>

lemma tx_of_tx_value [simp]: "tx_of_value (tx_value s) = Some s"
  by (cases s) (simp_all add: tx_of_value_def)

lemma parse_tx_json: "parse_tx (RJson (PDict (tx_json tx))) = Some tx"
  by (simp add: parse_tx_def tx_json_def dict_get_def)

lemma parse_pending_json:
  "parse_tx (RJson (PDict (pending_json tx))) = Some (tx\<lparr>mysql_written := False, redis_written := False\<rparr>)"
  by (simp add: parse_tx_def pending_json_def dict_get_def)

subsection \<open>What a repair changes\<close>

lemma save_transaction_get:
  "get (save_transaction r tx) k =
     (if k = tx_key (tx_id tx)
      then (if tx_status tx \<in> {COMMITTED, EXPIRED} then None else Some (RJson (PDict (tx_json tx))))
      else get r k)"
  by (simp add: save_transaction_def store_simps)

lemmas finish_tx = mark_expired_def commit_tx_def save_transaction_get

lemma repair_other_tx:
  "i \<noteq> tx_id tx \<Longrightarrow> get (repair_transaction cs db tx r) (tx_key i) = get r (tx_key i)"
  by (auto simp: repair_transaction_def retry_create_task_def retry_update_status_def finish_tx
      store_simps key_simps split: option.splits sum.splits rval.splits pyval.splits)

lemma repair_create_tx:
  "operation tx = ''create_task'' \<Longrightarrow> get (repair_transaction cs db tx r) (tx_key (tx_id tx)) = None"
  by (auto simp: repair_transaction_def retry_create_task_def finish_tx split: option.splits)

definition in_sync :: "redis \<Rightarrow> TaskRecord \<Rightarrow> bool" where
  "in_sync r row \<longleftrightarrow> get r (task_key (tr_task_id row)) = Some (RJson (PDict (task_data row)))"

lemma dict_set_task_data [simp]:
  "dict_set (task_data row) ''status'' (PStr (status_value (tr_status row))) = task_data row"
  by (simp add: task_data_def dict_set_def)

lemma repair_keeps_in_sync:
  assumes "db (tr_task_id row) = Some row" and "in_sync r row"
  shows "in_sync (repair_transaction cs db tx r) row"
proof -
  have "\<And>x. task_key (tr_task_id row) = task_key x \<Longrightarrow> db x = Some row"
    using assms(1) by (simp add: key_simps)
  then show ?thesis
    using assms
    by (auto simp: in_sync_def repair_transaction_def retry_create_task_def retry_update_status_def
        finish_tx store_simps key_simps split: option.splits sum.splits rval.splits pyval.splits)
qed

lemma repair_create_in_sync:
  "db (tr_task_id row) = Some row \<Longrightarrow> tx_task_id tx = tr_task_id row \<Longrightarrow> operation tx = ''create_task'' \<Longrightarrow>
   retry_count tx < cs_max_retries cs \<Longrightarrow> in_sync (repair_transaction cs db tx r) row"
  by (simp add: in_sync_def repair_transaction_def retry_create_task_def finish_tx store_simps key_simps)

lemma repairs_keep_in_sync:
  "db (tr_task_id row) = Some row \<Longrightarrow> in_sync r row \<Longrightarrow> in_sync (fold (repair_transaction cs db) txs r) row"
  by (induction txs arbitrary: r) (simp_all add: repair_keeps_in_sync)

lemma repairs_other_tx:
  "i \<notin> tx_id ` set txs \<Longrightarrow> get (fold (repair_transaction cs db) txs r) (tx_key i) = get r (tx_key i)"
  by (induction txs arbitrary: r) (simp_all add: repair_other_tx)

lemma repairs_create:
  assumes "tx \<in> set txs" "distinct (map tx_id txs)" "operation tx = ''create_task''"
    "db (tr_task_id row) = Some row" "tx_task_id tx = tr_task_id row" "retry_count tx < cs_max_retries cs"
  shows "in_sync (fold (repair_transaction cs db) txs r) row
    \<and> get (fold (repair_transaction cs db) txs r) (tx_key (tx_id tx)) = None"
  using assms(1,2)
proof (induction txs arbitrary: r)
  case (Cons x txs)
  show ?case
  proof (cases "x = tx")
    case True
    then have "tx_id tx \<notin> tx_id ` set txs" using Cons.prems(2) by auto
    then show ?thesis
      using assms(3-6)
      by (simp add: True repairs_keep_in_sync repair_create_in_sync repairs_other_tx repair_create_tx)
  next
    case False
    then show ?thesis using Cons by simp
  qed
qed simp

lemma repair_missing_exists: "exists r k \<Longrightarrow> exists (repair_missing_task row r) k"
  by (simp add: repair_missing_task_def exists_def set_ex_def)

lemma repairs_missing_exist: "exists r k \<Longrightarrow> exists (fold repair_missing_task rows r) k"
  by (induction rows arbitrary: r) (simp_all add: repair_missing_exists)

lemma repairs_missing:
  "row \<in> set rows \<Longrightarrow> exists (fold repair_missing_task rows r) (task_key (tr_task_id row))"
proof (induction rows arbitrary: r)
  case (Cons a rows)
  have "exists (repair_missing_task a r) (task_key (tr_task_id a))"
    by (simp add: repair_missing_task_def exists_def set_ex_def)
  then show ?case using Cons by (auto simp: repairs_missing_exist)
qed simp

lemma repairs_missing_get:
  "k \<notin> (\<lambda>row. task_key (tr_task_id row)) ` set rows \<Longrightarrow> get (fold repair_missing_task rows r) k = get r k"
  by (induction rows arbitrary: r) (simp_all add: repair_missing_task_def store_simps)

lemma in_sync_exists: "in_sync r row \<Longrightarrow> exists r (task_key (tr_task_id row))"
  by (simp add: in_sync_def exists_def get_def)

lemma missing_not_in_sync:
  "in_sync r row \<Longrightarrow> row' \<in> set (scan_missing_redis_tasks cs now rows r) \<Longrightarrow> tr_task_id row' \<noteq> tr_task_id row"
  by (auto simp: scan_missing_redis_tasks_def dest: in_sync_exists)

subsection \<open>The scan\<close>

text \<open>Every transaction is stored under the key of its own identifier.\<close>

definition tx_store_ok :: "redis \<Rightarrow> string list \<Rightarrow> bool" where
  "tx_store_ok r keys \<longleftrightarrow> distinct keys \<and>
     (\<forall>k \<in> set keys. case Option.bind (get r k) parse_tx of None \<Rightarrow> True | Some tx \<Rightarrow> k = tx_key (tx_id tx))"

lemma scan_distinct:
  assumes "tx_store_ok r keys"
  shows "distinct (map tx_id (scan_pending_transactions r keys))"
  unfolding scan_pending_transactions_def
  by (intro distinct_map_filter map_filter_distinct [where key = tx_key])
    (use assms in \<open>auto simp: tx_store_ok_def split: option.splits\<close>)

lemma in_scan:
  "k \<in> set keys \<Longrightarrow> get r k = Some v \<Longrightarrow> parse_tx v = Some tx \<Longrightarrow> tx_status tx \<in> {PENDING_REDIS, TX_FAILED} \<Longrightarrow>
   tx \<in> set (scan_pending_transactions r keys)"
  by (force simp: scan_pending_transactions_def set_map_filter)

lemma scan_and_repair_create:
  assumes "tx_store_ok r keys" "tx_key i \<in> set keys" "get r (tx_key i) = Some v" "parse_tx v = Some tx"
    "tx_status tx \<in> {PENDING_REDIS, TX_FAILED}" "operation tx = ''create_task''" "tx_id tx = i"
    "tx_task_id tx = tr_task_id row" "db (tr_task_id row) = Some row" "retry_count tx < cs_max_retries cs"
  shows "in_sync (scan_and_repair cs now db rows keys r) row
    \<and> get (scan_and_repair cs now db rows keys r) (tx_key i) = None"
proof -
  let ?r1 = "fold (repair_transaction cs db) (scan_pending_transactions r keys) r"
  have 1: "in_sync ?r1 row \<and> get ?r1 (tx_key i) = None"
    using repairs_create [OF in_scan [OF assms(2-5)] scan_distinct [OF assms(1)]] assms by simp
  let ?ms = "scan_missing_redis_tasks cs now rows ?r1"
  have "task_key (tr_task_id row) \<notin> (\<lambda>row. task_key (tr_task_id row)) ` set ?ms"
    using missing_not_in_sync 1 by (fastforce simp: key_simps)
  moreover have "tx_key i \<notin> (\<lambda>row. task_key (tr_task_id row)) ` set ?ms" by (auto simp: key_simps)
  ultimately show ?thesis
    using 1 by (simp add: scan_and_repair_def in_sync_def repairs_missing_get Let_def)
qed

subsection \<open>Properties\<close>

definition failed_tx :: "string \<Rightarrow> string \<Rightarrow> dict \<Rightarrow> string \<Rightarrow> time \<Rightarrow> string \<Rightarrow> TxRecord" where
  "failed_tx t op p i now e =
     (new_TxRecord i t op p now)\<lparr>mysql_written := True, last_error := e, tx_status := TX_FAILED\<rparr>"

lemma write_atomic_mysql_fails:
  "fst (mysql w) = Inl e \<Longrightarrow>
   write_atomic compensation save_up comp_up t op p i now mysql redis_w (w, r) = (Inl e, snd (mysql w), r)"
  by (cases "mysql w") (simp add: write_atomic_def)

lemma write_atomic_both:
  "fst (mysql w) = Inr a \<Longrightarrow> fst (redis_w r) = Inr b \<Longrightarrow>
   write_atomic compensation save_up comp_up t op p i now mysql redis_w (w, r) =
     (Inr ((new_TxRecord i t op p now)\<lparr>mysql_written := True, redis_written := True, tx_status := COMMITTED\<rparr>),
      snd (mysql w), snd (redis_w r))"
  by (cases "mysql w"; cases "redis_w r") (simp add: write_atomic_def)

lemma write_atomic_redis_fails:
  "fst (mysql w) = Inr a \<Longrightarrow> fst (redis_w r) = Inl e \<Longrightarrow>
   write_atomic compensation save_up comp_up t op p i now mysql redis_w (w, r) =
     (let tx = failed_tx t op p i now e; r1 = save_pending_tx save_up (snd (redis_w r)) tx
      in (if compensation \<and> \<not> comp_up then Inl ''ConnectionError'' else Inr tx, snd (mysql w),
          if compensation \<and> comp_up then compensation_enqueue r1 tx else r1))"
  by (cases "mysql w"; cases "redis_w r") (simp add: write_atomic_def failed_tx_def Let_def)

lemma failed_tx_stored:
  assumes "r' = save_pending_tx True r (failed_tx t op p i now e)
    \<or> r' = compensation_enqueue (save_pending_tx True r (failed_tx t op p i now e)) (failed_tx t op p i now e)"
  shows "\<exists>v tx. get r' (tx_key i) = Some v \<and> parse_tx v = Some tx \<and> tx_id tx = i \<and> tx_task_id tx = t
    \<and> operation tx = op \<and> tx_status tx = TX_FAILED \<and> retry_count tx = 0 \<and> last_error tx = e"
proof -
  let ?tx = "failed_tx t op p i now e"
  have f: "tx_id ?tx = i" "tx_task_id ?tx = t" "operation ?tx = op" "tx_status ?tx = TX_FAILED"
    "retry_count ?tx = 0" "last_error ?tx = e"
    by (simp_all add: failed_tx_def new_TxRecord_def)
  have "get r' (tx_key i) = Some (RJson (PDict (pending_json ?tx)))
    \<or> get r' (tx_key i) = Some (RJson (PDict (tx_json ?tx)))"
    using assms by (auto simp: save_pending_tx_def compensation_enqueue_def save_transaction_get store_simps f)
  then show ?thesis
    using parse_tx_json [of ?tx] parse_pending_json [of ?tx] f by fastforce
qed


definition mysql_ok :: "nat mwrite" where
  "mysql_ok w = (Inr (), w + 1)"

definition redis_down :: rwrite where
  "redis_down r = (Inl ''ConnectionError'', r)"


text \<open>
  C7. A failed Redis write is repaired: when the database write of a task creation succeeded
  and the Redis write did not, then the next pass of the compensation service whose SCAN
  reports the transaction puts the database row of the task into Redis and removes the
  transaction, whatever other transactions and rows that pass handles.
\<close>

theorem failed_write_recovered:
  assumes "fst (mysql w) = Inr ()" and "fst (redis_w r) = Inl e"
    and "write_atomic compensation True True t ''create_task'' p i now mysql redis_w (w, r) = (res, w', r')"
    and "tx_store_ok r' keys" and "tx_key i \<in> set keys"
    and "tr_task_id row = t" and "db t = Some row" and "0 < cs_max_retries cs"
  shows "in_sync (scan_and_repair cs later db rows keys r') row
    \<and> get (scan_and_repair cs later db rows keys r') (tx_key i) = None"
proof -
  have "\<exists>v tx. get r' (tx_key i) = Some v \<and> parse_tx v = Some tx \<and> tx_id tx = i \<and> tx_task_id tx = t
      \<and> operation tx = ''create_task'' \<and> tx_status tx = TX_FAILED \<and> retry_count tx = 0 \<and> last_error tx = e"
    by (rule failed_tx_stored [where r = "snd (redis_w r)" and p = p and now = now])
      (use assms(1-3) in \<open>auto simp: write_atomic_redis_fails Let_def split: if_splits\<close>)
  then obtain v tx where tx: "get r' (tx_key i) = Some v" "parse_tx v = Some tx" "tx_id tx = i" "tx_task_id tx = t"
    "operation tx = ''create_task''" "tx_status tx = TX_FAILED" "retry_count tx = 0" by blast
  show ?thesis
    by (rule scan_and_repair_create [OF assms(4,5) tx(1,2)]) (use tx assms(6-8) in simp_all)
qed

definition demo_row :: TaskRecord where
  "demo_row = (new_TaskRecord ''t'' ''n'' ''gpu'' 5)\<lparr>tr_status := QUEUED\<rparr>"

theorem failed_write_recovered_witness:
  "\<exists>res r'. write_atomic False True True ''t'' ''create_task'' [] ''x'' 0 mysql_ok redis_down (0, empty_redis) = (res, 1, r')
     \<and> in_sync (scan_and_repair new_CompensationService 60 [''t'' \<mapsto> demo_row] [demo_row] [tx_key ''x''] r') demo_row"
proof -
  let ?tx = "failed_tx ''t'' ''create_task'' [] ''x'' 0 ''ConnectionError''"
  let ?r = "save_pending_tx True empty_redis ?tx"
  have m: "fst (mysql_ok 0) = Inr ()" "fst (redis_down empty_redis) = Inl ''ConnectionError''"
    by (simp_all add: mysql_ok_def redis_down_def)
  have w: "write_atomic False True True ''t'' ''create_task'' [] ''x'' 0 mysql_ok redis_down (0, empty_redis)
      = (Inr ?tx, 1, ?r)"
    by (simp add: write_atomic_redis_fails m Let_def) (simp add: mysql_ok_def redis_down_def)
  have "tx_store_ok ?r [tx_key ''x'']"
    by (simp add: tx_store_ok_def save_pending_tx_def store_simps parse_pending_json failed_tx_def new_TxRecord_def)
  from failed_write_recovered [OF m w this, where row = demo_row and db = "[''t'' \<mapsto> demo_row]"
      and cs = new_CompensationService and later = 60 and rows = "[demo_row]"] w
  show ?thesis by (simp add: demo_row_def new_TaskRecord_def new_CompensationService_def)
qed

text \<open>
  Active rows of the last day that are in the batch are in Redis after a pass.
\<close>

lemma active_rows_restored:
  assumes "row \<in> set (take (cs_batch_size cs) (filter (\<lambda>row. tr_status row \<in> {QUEUED, RUNNING, SCHEDULED}
    \<and> tr_updated_at row \<ge> now - 86400) rows))"
  shows "exists (scan_and_repair cs now db rows keys r) (task_key (tr_task_id row))"
proof -
  let ?r1 = "fold (repair_transaction cs db) (scan_pending_transactions r keys) r"
  show ?thesis
  proof (cases "exists ?r1 (task_key (tr_task_id row))")
    case True
    then show ?thesis by (simp add: scan_and_repair_def Let_def repairs_missing_exist)
  next
    case False
    then have "row \<in> set (scan_missing_redis_tasks cs now rows ?r1)"
      using assms by (simp add: scan_missing_redis_tasks_def)
    then show ?thesis by (simp add: scan_and_repair_def Let_def repairs_missing)
  qed
qed

text \<open>
  When the compensation service itself cannot reach Redis, the exception raised to the
  caller looks like a failure of the database write, although the row was written.
\<close>

lemma compensation_failure_masks_success:
  assumes "fst (mysql w) = Inr ()" and "fst (redis_w r) = Inl e"
  shows "fst (write_atomic True save_up False t op p i now mysql redis_w (w, r)) = Inl ''ConnectionError''"
  using assms by (simp add: write_atomic_redis_fails Let_def)

end
