(* ===== verification/Task_Creator.thy ===== *)
theory Task_Creator
  imports Task_Transactions Queue_Control
begin

text \<open>
  \<^verbatim>\<open>TaskCreator.create_task\<close> (\<^verbatim>\<open>src/platform/task_creator.py\<close>): the row of a task is written
  to the database, then its record to Redis, then its identifier goes to the queue of its
  capability. Parameters: the database insert, the fresh identifier \<open>uuid\<close>, and the
  hexadecimal SHA-256 digest. Run tracking and the timeline, which only write to their own
  database tables after the task has been queued, are not modelled.
\<close>

datatype create_error =
    ValueError
  | AttributeError
  | TypeError
  | WriteFailed string
  | QueueError queue_error

record TaskCreator =
  has_db :: bool
  has_compensation :: bool

record create_result =
  cr_task_id :: string
  cr_accepted :: bool
  cr_queue_position :: int
  cr_pending_count :: int
  cr_reused :: bool

text \<open>
  \<^verbatim>\<open>kwargs.get("task_type", kwargs.get("capability", ""))\<close>. The request model declares it a
  string; a truthy value of another type is outside the model and rejected by it.
\<close>

definition capability_arg :: "dict \<Rightarrow> pyval" where
  "capability_arg kwargs = dict_get kwargs ''task_type'' (dict_get kwargs ''capability'' (PStr []))"

definition idempotent_id :: "(string \<Rightarrow> string) \<Rightarrow> string \<Rightarrow> string" where
  "idempotent_id sha key =
     ''cron-'' @ take 60 (replace_char CHR '':'' CHR ''-'' key) @ ''-'' @ take 16 (sha key)"

definition new_task_id :: "(string \<Rightarrow> string) \<Rightarrow> string \<Rightarrow> string \<Rightarrow> string" where
  "new_task_id sha uuid key = (if key \<noteq> [] then idempotent_id sha key else uuid)"

definition priority_map :: "string \<Rightarrow> int" where
  "priority_map s = (case map_of [(''very_high'', 1), (''high'', 2), (''normal'', 3), (''low'', 4), (''tide'', 5)] s of
      None \<Rightarrow> 3 | Some n \<Rightarrow> n)"

fun priority_value :: "TaskPriority \<Rightarrow> string" where
  "priority_value VERY_HIGH = ''very_high''"
| "priority_value HIGH = ''high''"
| "priority_value NORMAL = ''normal''"
| "priority_value LOW = ''low''"
| "priority_value TIDE = ''tide''"

definition priority_of_value :: "string \<Rightarrow> TaskPriority option" where
  "priority_of_value v = List.find (\<lambda>p. priority_value p = v) [VERY_HIGH, HIGH, NORMAL, LOW, TIDE]"

text \<open>
  The delay in milliseconds: \<open>delay_seconds\<close> is an integer or missing, as the request model
  declares it; comparing another truthy value with 0 raises. (A float, which Python would
  accept, is outside the model.)
\<close>

definition execute_after :: "time \<Rightarrow> pyval \<Rightarrow> create_error + int" where
  "execute_after now d = (case d of
      PInt i \<Rightarrow> Inr (if i > 0 then ms now + i * 1000 else 0)
    | PBool b \<Rightarrow> Inr (if b then ms now + 1000 else 0)
    | v \<Rightarrow> if truthy v then Inl TypeError else Inr 0)"

definition redis_record :: "string \<Rightarrow> string \<Rightarrow> string \<Rightarrow> int \<Rightarrow> time \<Rightarrow> dict \<Rightarrow> dict" where
  "redis_record task_id tenant cap priority now kwargs =
     dict_merge [(''task_id'', PStr task_id), (''tenant_id'', PStr tenant), (''status'', PStr ''queued''),
       (''created_at_ts'', PFloat now), (''capability'', PStr cap), (''priority_rank'', PInt priority)] kwargs"

text \<open>The row that \<^verbatim>\<open>mysql_write\<close> inserts; arguments have the types of their columns.\<close>

definition db_row :: "string \<Rightarrow> string \<Rightarrow> string \<Rightarrow> TaskPriority \<Rightarrow> time \<Rightarrow> dict \<Rightarrow> TaskRecord" where
  "db_row task_id tenant cap priority now kwargs = (new_TaskRecord task_id tenant cap now)\<lparr>
     tr_status := QUEUED, tr_priority := priority,
     tr_input_data := Some (RJson (dict_get kwargs ''input_data'' (PDict []))),
     tr_metadata_json := Some (RJson (dict_get kwargs ''metadata'' (PDict []))),
     tr_callback_url := str_opt (dict_get kwargs ''callback_url'' PNone),
     tr_idempotency_key := str_opt (dict_get kwargs ''idempotency_key'' PNone),
     tr_timeout_seconds := int_default 3600 (dict_get kwargs ''timeout_seconds'' (PInt 3600)),
     tr_max_retries := int_default 3 (dict_get kwargs ''max_retries'' (PInt 3)),
     tr_scheduled_at := dict_get kwargs ''scheduled_at'' PNone,
     tr_cron_expr := str_opt (dict_get kwargs ''cron_expr'' PNone)\<rparr>"

text \<open>
  \<^verbatim>\<open>TaskPriority(...)\<close> raises for a string that is no priority, which happens inside the
  database write. \<open>add_row\<close> is the commit of a new row.
\<close>

definition mysql_write ::
  "('w \<Rightarrow> TaskRecord \<Rightarrow> (string + unit) \<times> 'w) \<Rightarrow> string \<Rightarrow> string \<Rightarrow> string \<Rightarrow> time \<Rightarrow> dict \<Rightarrow> 'w mwrite" where
  "mysql_write add_row task_id tenant cap now kwargs w =
     (case Option.bind (str_opt (dict_get kwargs ''priority'' (PStr ''normal''))) priority_of_value of
        None \<Rightarrow> (Inl ''ValueError'', w)
      | Some p \<Rightarrow> add_row w (db_row task_id tenant cap p now kwargs))"

text \<open>\<open>up\<close>: whether Redis answers the write of the task record.\<close>

definition redis_write :: "bool \<Rightarrow> string \<Rightarrow> dict \<Rightarrow> rwrite" where
  "redis_write up task_id rec r =
     (if up then (Inr (), set_ex r (task_key task_id) (RJson (PDict rec)) (Some 86400))
      else (Inl ''ConnectionError'', r))"

text \<open>\<^verbatim>\<open>_find_existing\<close> over the rows of the table.\<close>

definition find_existing :: "TaskRecord list \<Rightarrow> string \<Rightarrow> string \<Rightarrow> TaskRecord option" where
  "find_existing rows tenant key =
     List.find (\<lambda>row. tr_tenant_id row = tenant \<and> tr_idempotency_key row = Some key) rows"

record create_env =
  ce_uuid :: string
  ce_tx_id :: string
  ce_up :: bool
  ce_save_up :: bool
  ce_comp_up :: bool

definition store_task ::
  "TaskCreator \<Rightarrow> ('w \<Rightarrow> TaskRecord \<Rightarrow> (string + unit) \<times> 'w) \<Rightarrow> create_env \<Rightarrow> time \<Rightarrow> string \<Rightarrow> string \<Rightarrow> string \<Rightarrow> dict \<Rightarrow> dict
   \<Rightarrow> 'w \<times> redis \<Rightarrow> (create_error + unit) \<times> 'w \<times> redis" where
  "store_task tc add_row env now task_id tenant cap rec kwargs s =
     (if has_db tc \<and> truthy (dict_get kwargs ''persist_to_db'' (PBool True)) then
        (case write_atomic (has_compensation tc) (ce_save_up env) (ce_comp_up env) task_id ''create_task''
                [(''tenant_id'', PStr tenant), (''capability'', PStr cap)] (ce_tx_id env) now
                (mysql_write add_row task_id tenant cap now kwargs) (redis_write (ce_up env) task_id rec) s of
           (Inl e, s') \<Rightarrow> (Inl (WriteFailed e), s')
         | (Inr tx, s') \<Rightarrow> (Inr (), s'))
      else (Inr (), fst s, snd (redis_write (ce_up env) task_id rec (snd s))))"

definition enqueue_new ::
  "QueueManager \<Rightarrow> time \<Rightarrow> string \<Rightarrow> string \<Rightarrow> int \<Rightarrow> int \<Rightarrow> 'w \<times> redis
   \<Rightarrow> (create_error + create_result) \<times> QueueManager \<times> 'w \<times> redis" where
  "enqueue_new qm now cap task_id priority after s =
     (case enqueue qm (snd s) now cap task_id priority after of
        (Inl e, qm', r') \<Rightarrow> (Inl (QueueError e), qm', fst s, r')
      | (Inr res, qm', r') \<Rightarrow>
          (Inr \<lparr>cr_task_id = task_id, cr_accepted = accepted res, cr_queue_position = queue_position res,
             cr_pending_count = pending_count res, cr_reused = False\<rparr>, qm', fst s, r'))"

definition create_task ::
  "TaskCreator \<Rightarrow> (string \<Rightarrow> string) \<Rightarrow> ('w \<Rightarrow> TaskRecord \<Rightarrow> (string + unit) \<times> 'w) \<Rightarrow> ('w \<Rightarrow> TaskRecord list)
   \<Rightarrow> create_env \<Rightarrow> time \<Rightarrow> string \<Rightarrow> string \<Rightarrow> dict \<Rightarrow> QueueManager \<times> 'w \<times> redis
   \<Rightarrow> (create_error + create_result) \<times> QueueManager \<times> 'w \<times> redis" where
  "create_task tc sha add_row rows env now tenant key kwargs st =
     (let (qm, w, r) = st in
      case capability_arg kwargs of
        PStr cap \<Rightarrow>
          if cap = [] then (Inl ValueError, st)
          else case (if key \<noteq> [] \<and> has_db tc then find_existing (rows w) tenant key else None) of
            Some row \<Rightarrow> (Inr \<lparr>cr_task_id = tr_task_id row, cr_accepted = True, cr_queue_position = -1,
                          cr_pending_count = 0, cr_reused = True\<rparr>, st)
          | None \<Rightarrow>
              (let task_id = new_task_id sha (ce_uuid env) key in
               case (dict_get kwargs ''priority'' (PStr ''normal''), execute_after now (dict_get kwargs ''delay_seconds'' PNone)) of
                 (PStr ps, Inr after) \<Rightarrow>
                   (let priority = priority_map (py_lower ps);
                        rec = redis_record task_id tenant cap priority now kwargs
                    in case store_task tc add_row env now task_id tenant cap rec kwargs (w, r) of
                         (Inl e, s') \<Rightarrow> (Inl e, qm, s')
                       | (Inr _, s') \<Rightarrow> enqueue_new qm now cap task_id priority after s')
               | (PStr ps, Inl e) \<Rightarrow> (Inl e, st)
               | _ \<Rightarrow> (Inl AttributeError, st))
      | v \<Rightarrow> if truthy v then (Inl TypeError, st) else (Inl ValueError, st))"

subsection \<open>Priorities\<close>

lemma priority_of_value_Some: "priority_of_value v = Some p \<longleftrightarrow> v = priority_value p"
  by (cases p) (auto simp: priority_of_value_def)

lemma priority_agree: "priority_map (py_lower (priority_value p)) = weight p"
  by (cases p) (simp_all add: priority_map_def py_lower_def of_char_def)

subsection \<open>Storing\<close>

lemma redis_write_frame [store_simps]:
  "zbucket (snd (redis_write up t rec r)) k = zbucket r k"
  "hbucket (snd (redis_write up t rec r)) k = hbucket r k"
  by (simp_all add: redis_write_def store_simps)

lemma save_frames [store_simps]:
  "zbucket (save_pending_tx up r tx) k = zbucket r k"
  "zbucket (compensation_enqueue r tx) k = (if k = tx_key (tx_id tx) \<and> tx_status tx \<in> {COMMITTED, EXPIRED} then [] else zbucket r k)"
  by (auto simp: save_pending_tx_def compensation_enqueue_def save_transaction_def store_simps)

lemma write_atomic_frame [store_simps]:
  "zbucket (snd (snd (write_atomic compensation save_up comp_up t op p i now mysql (redis_write up t' rec) (w, r)))) k
   = zbucket r k"
proof (cases "fst (mysql w)")
  case (Inl e)
  then show ?thesis by (simp add: write_atomic_mysql_fails)
next
  case (Inr a)
  then show ?thesis
    by (cases "fst (redis_write up t' rec r)")
      (auto simp: write_atomic_both write_atomic_redis_fails Let_def failed_tx_def store_simps)
qed

lemma store_task_frame:
  "zbucket (snd (snd (store_task tc add_row env now t tenant cap rec kwargs (w, r)))) k = zbucket r k"
  by (auto simp: store_task_def store_simps case_prod_unfold split: sum.splits)

lemma store_task_same:
  "store_task tc add_row env now t tenant cap rec kwargs (w, r) = (res, w', r') \<Longrightarrow> \<forall>k. zbucket r' k = zbucket r k"
  using store_task_frame [of tc add_row env now t tenant cap rec kwargs w r] by simp

lemma store_task_durable:
  assumes "store_task tc add_row env now t tenant cap rec kwargs (w, r) = (Inr (), w', r')"
    and "has_db tc" and "truthy (dict_get kwargs ''persist_to_db'' (PBool True))"
  shows "\<exists>p. dict_get kwargs ''priority'' (PStr ''normal'') = PStr (priority_value p)
    \<and> add_row w (db_row t tenant cap p now kwargs) = (Inr (), w')"
proof -
  let ?m = "mysql_write add_row t tenant cap now kwargs"
  have "fst (?m w) = Inr () \<and> w' = snd (?m w)"
  proof (cases "fst (?m w)")
    case (Inl e)
    then show ?thesis using assms by (simp add: store_task_def write_atomic_mysql_fails)
  next
    case (Inr a)
    then show ?thesis
      using assms
      by (cases "fst (redis_write (ce_up env) t rec r)")
        (auto simp: store_task_def write_atomic_both write_atomic_redis_fails Let_def split: if_splits)
  qed
  then have "?m w = (Inr (), w')" by (metis prod.collapse)
  then obtain v p where "str_opt (dict_get kwargs ''priority'' (PStr ''normal'')) = Some v"
    "priority_of_value v = Some p" "add_row w (db_row t tenant cap p now kwargs) = (Inr (), w')"
    by (auto simp: mysql_write_def split: option.splits Option.bind_splits)
  then show ?thesis
    by (cases "dict_get kwargs ''priority'' (PStr ''normal'')") (auto simp: priority_of_value_Some)
qed

subsection \<open>Properties\<close>

text \<open>What a call that creates a new task did, and what one that raises did not do.\<close>

lemma create_task_new:
  assumes "create_task tc sha add_row rows env now tenant key kwargs (qm, w, r) = (Inr res, qm', w', r')"
    and "\<not> cr_reused res"
  obtains cap ps after w1 r1 er where "capability_arg kwargs = PStr cap" "cap \<noteq> []"
    "dict_get kwargs ''priority'' (PStr ''normal'') = PStr ps"
    "execute_after now (dict_get kwargs ''delay_seconds'' PNone) = Inr after"
    "cr_task_id res = new_task_id sha (ce_uuid env) key"
    "store_task tc add_row env now (cr_task_id res) tenant cap
       (redis_record (cr_task_id res) tenant cap (priority_map (py_lower ps)) now kwargs) kwargs (w, r) = (Inr (), w', r1)"
    "enqueue qm r1 now cap (cr_task_id res) (priority_map (py_lower ps)) after = (Inr er, qm', r')"
    "cr_accepted res = accepted er"
  using assms
  by (auto simp: create_task_def enqueue_new_def Let_def
      split: pyval.splits sum.splits option.splits if_splits prod.splits)

lemma create_task_stored:
  assumes "create_task tc sha add_row rows env now tenant key kwargs (qm, w, r) = (Inr res, qm', w', r')"
    and "\<not> cr_reused res" and "has_db tc" and persist: "truthy (dict_get kwargs ''persist_to_db'' (PBool True))"
  shows "\<exists>cap p after. capability_arg kwargs = PStr cap
    \<and> execute_after now (dict_get kwargs ''delay_seconds'' PNone) = Inr after
    \<and> add_row w (db_row (cr_task_id res) tenant cap p now kwargs) = (Inr (), w')
    \<and> tr_status (db_row (cr_task_id res) tenant cap p now kwargs) = QUEUED
    \<and> (cr_accepted res \<longrightarrow> zscore r' (pending cap) (RText (cr_task_id res)) =
         Some (encode_score (weight p) (ready_ts after now)))"
proof -
  from create_task_new [OF assms(1,2)] obtain cap ps after r1 er where
    c: "capability_arg kwargs = PStr cap" "dict_get kwargs ''priority'' (PStr ''normal'') = PStr ps"
      "execute_after now (dict_get kwargs ''delay_seconds'' PNone) = Inr after"
    and st: "store_task tc add_row env now (cr_task_id res) tenant cap
       (redis_record (cr_task_id res) tenant cap (priority_map (py_lower ps)) now kwargs) kwargs (w, r) = (Inr (), w', r1)"
    and enq: "enqueue qm r1 now cap (cr_task_id res) (priority_map (py_lower ps)) after = (Inr er, qm', r')"
    and acc: "cr_accepted res = accepted er" by metis
  from store_task_durable [OF st assms(3) persist] obtain p where
    p: "ps = priority_value p" "add_row w (db_row (cr_task_id res) tenant cap p now kwargs) = (Inr (), w')"
    using c(2) by auto
  have "accepted er \<Longrightarrow> zscore r' (pending cap) (RText (cr_task_id res)) =
      Some (encode_score (weight p) (ready_ts after now))"
    using enqueue_room_zscore(1) [OF enqueue_Inr_accepted [OF enq], of now "cr_task_id res"
        "priority_map (py_lower ps)" after "pending cap" "RText (cr_task_id res)"] enq
    by (simp add: p(1) priority_agree)
  with c p acc show ?thesis
    by (intro exI [of _ cap] exI [of _ p] exI [of _ after]) (simp add: db_row_def)
qed


text \<open>
  Creation that raises before the queue is reached leaves every queue as it was, and a
  repeated request with an idempotency key either returns the stored task without any effect
  or uses the same task identifier again.
\<close>

theorem create_task_aborts:
  assumes "create_task tc sha add_row rows env now tenant key kwargs (qm, w, r) = (res, qm', w', r')"
  shows "(case res of
      Inl (QueueError e) \<Rightarrow> True
    | Inl e \<Rightarrow> qm' = qm \<and> (\<forall>k. zbucket r' k = zbucket r k)
    | Inr cr \<Rightarrow> if cr_reused cr
        then qm' = qm \<and> w' = w \<and> r' = r \<and> (\<exists>row \<in> set (rows w). tr_task_id row = cr_task_id cr
               \<and> tr_idempotency_key row = Some key)
        else key \<noteq> [] \<longrightarrow> cr_task_id cr = idempotent_id sha key)"
  using assms
  by (auto simp: create_task_def enqueue_new_def Let_def new_task_id_def find_existing_def
      split: pyval.splits sum.splits option.splits if_splits prod.splits create_error.splits
      dest!: find_Some_in store_task_same)

definition demo_env :: create_env where
  "demo_env = \<lparr>ce_uuid = ''u1'', ce_tx_id = ''x1'', ce_up = True, ce_save_up = True, ce_comp_up = True\<rparr>"

definition demo_add :: "TaskRecord list \<Rightarrow> TaskRecord \<Rightarrow> (string + unit) \<times> TaskRecord list" where
  "demo_add w row = (Inr (), row # w)"

definition demo_create :: "(create_error + create_result) \<times> QueueManager \<times> TaskRecord list \<times> redis" where
  "demo_create = create_task \<lparr>has_db = True, has_compensation = False\<rparr> (\<lambda>s. ''h'') demo_add (\<lambda>w. w) demo_env 5 ''n'' []
     [(''task_type'', PStr ''ocr''), (''priority'', PStr ''high'')] (new_QueueManager None, [], empty_redis)"

lemma demo_create_eq:
  "fst demo_create = Inr \<lparr>cr_task_id = ''u1'', cr_accepted = True, cr_queue_position = 1, cr_pending_count = 1,
      cr_reused = False\<rparr>"
  unfolding demo_create_def by code_simp


theorem create_task_aborts_witness:
  "\<exists>res qm' w' r'. create_task \<lparr>has_db = True, has_compensation = False\<rparr> (\<lambda>s. ''h'') demo_add (\<lambda>w. w) demo_env 5 ''n'' []
       [] (new_QueueManager None, [], empty_redis) = (Inl ValueError, qm', w', r') \<and> zbucket r' (pending ''ocr'') = zbucket empty_redis (pending ''ocr'')"
proof -
  let ?c = "create_task \<lparr>has_db = True, has_compensation = False\<rparr> (\<lambda>s. ''h'') demo_add (\<lambda>w. w) demo_env 5 ''n'' []
       [] (new_QueueManager None, [], empty_redis)"
  have e: "?c = (Inl ValueError, new_QueueManager None, [], empty_redis)"
    by (simp add: create_task_def capability_arg_def dict_get_def)
  from create_task_aborts [OF e] e show ?thesis by simp
qed

text \<open>
  The lookup by idempotency key never finds a row that \<open>create_task\<close> wrote: the key is a
  named parameter, so it is never among the keyword arguments the row is built from.
\<close>

lemma idempotency_key_not_stored:
  "map_of kwargs ''idempotency_key'' = None \<Longrightarrow> tr_idempotency_key (db_row t tenant cap p now kwargs) = None"
  by (simp add: db_row_def dict_get_def new_TaskRecord_def)

end
