(* ===== verification/Task_Completion.thy ===== *)
theory Task_Completion
  imports Task_Model
begin

text \<open>
  \<^verbatim>\<open>TaskCompletionNode\<close>: the final state of a task goes to the database and, in parallel, a
  callback goes to the client. A callback is first tried a few times in a row; then it is
  put, as an event, into a sorted set of due times, from which \<^verbatim>\<open>process_due_callbacks\<close> takes
  the due events: a delivered one is marked, a failed one is put back with a longer delay,
  and after the last attempt it goes to the dead-letter set.

  The HTTP call is a parameter \<open>post\<close> on a world \<open>'w\<close> (whether the receiver accepted). The
  database session is not modelled: \<open>persist\<close> is what \<^verbatim>\<open>_persist\<close> writes in its one
  transaction, from the row it selected.
\<close>

subsection \<open>Keys\<close>

definition callback_retry :: string where
  "callback_retry = ''callback:retry:pending''"

definition callback_done :: "string \<Rightarrow> string" where
  "callback_done task_id = ''callback:done:'' @ task_id"

definition callback_dlq :: string where
  "callback_dlq = ''callback:dlq''"

lemma callback_keys [key_simps]:
  "callback_done a = callback_done b \<longleftrightarrow> a = b" "callback_retry \<noteq> callback_dlq" "callback_dlq \<noteq> callback_retry"
  by (simp_all add: callback_done_def callback_retry_def callback_dlq_def)

record TaskCompletionNode =
  inline_retries :: nat
  max_durable_attempts :: int

definition new_TaskCompletionNode :: TaskCompletionNode where
  "new_TaskCompletionNode = \<lparr>inline_retries = 3, max_durable_attempts = 8\<rparr>"

type_synonym 'w post = "'w \<Rightarrow> string \<Rightarrow> pyval \<Rightarrow> string \<Rightarrow> int \<Rightarrow> bool \<times> 'w"

subsection \<open>The final state\<close>

datatype db_write =
    UpdateTask string TaskStatus "pyval option" "string option"
  | InsertTask string string TaskStatus "pyval option" "string option"
  | InsertOutbox string string string pyval

definition callback_payload :: "string \<Rightarrow> TaskStatus \<Rightarrow> pyval \<Rightarrow> time \<Rightarrow> pyval" where
  "callback_payload task_id st result now = PDict [(''task_id'', PStr task_id),
     (''status'', PStr (status_value st)), (''result'', result), (''timestamp'', PInt \<lfloor>now\<rfloor>)]"

text \<open>\<open>str_of\<close> is \<^verbatim>\<open>str()\<close> on values that are not strings.\<close>

definition error_message :: "(pyval \<Rightarrow> string) \<Rightarrow> TaskStatus \<Rightarrow> pyval \<Rightarrow> string option" where
  "error_message str_of st result = (case (st, result) of
      (FAILED, PDict d) \<Rightarrow>
        (let m = (case dict_get d ''error'' (PStr []) of PStr s \<Rightarrow> s | v \<Rightarrow> str_of v)
         in if m = [] then None else Some (take 2000 m))
    | _ \<Rightarrow> None)"

definition next_status :: "TaskStatus \<Rightarrow> TaskStatus \<Rightarrow> task_error + TaskStatus" where
  "next_status cur target = (case target of
      COMPLETED \<Rightarrow> map_sum id current (transition cur COMPLETE)
    | FAILED \<Rightarrow> map_sum id current (transition cur FAIL)
    | _ \<Rightarrow> Inr target)"

definition persist ::
  "(pyval \<Rightarrow> string) \<Rightarrow> TaskStatus option \<Rightarrow> string \<Rightarrow> TaskStatus \<Rightarrow> pyval \<Rightarrow> string \<Rightarrow> string \<Rightarrow> time
   \<Rightarrow> task_error + db_write list" where
  "persist str_of row task_id st result tenant url now =
     (let output_data = (if result = PNone then None else Some result);
          err = error_message str_of st result;
          outbox = (if url = [] then []
                    else [InsertOutbox task_id tenant url (callback_payload task_id st result now)])
      in case row of
           None \<Rightarrow> Inr (InsertTask task_id tenant st output_data err # outbox)
         | Some cur \<Rightarrow> (case next_status cur st of
             Inl e \<Rightarrow> Inl e
           | Inr nxt \<Rightarrow> Inr (UpdateTask task_id nxt output_data err # outbox)))"

subsection \<open>Durable retries\<close>

definition retry_delay :: "nat \<Rightarrow> int" where
  "retry_delay att = min 600 (10 * 2 ^ (att - 1))"

definition callback_event :: "string \<Rightarrow> string \<Rightarrow> pyval \<Rightarrow> nat \<Rightarrow> rval" where
  "callback_event task_id url payload att = RJson (PDict [(''task_id'', PStr task_id),
     (''callback_url'', PStr url), (''payload'', payload), (''attempt'', PInt (int att))])"

definition enqueue_callback_retry ::
  "redis \<Rightarrow> time \<Rightarrow> string \<Rightarrow> string \<Rightarrow> pyval \<Rightarrow> nat \<Rightarrow> redis" where
  "enqueue_callback_retry r now task_id url payload att =
     zadd r callback_retry (callback_event task_id url payload att) (now + of_int (retry_delay att))"

text \<open>
  What \<^verbatim>\<open>json.loads\<close> and the four \<^verbatim>\<open>get\<close> calls make of a member: a text that is no JSON is
  skipped, a value that is no object has no \<^verbatim>\<open>get\<close>. An object whose fields have other types
  than the ones written by \<open>callback_event\<close> is treated like the latter.
\<close>

datatype parsed = Skipped | Malformed | Event string string pyval nat

definition parse_event :: "rval \<Rightarrow> parsed" where
  "parse_event raw = (case raw of
      RText t \<Rightarrow> Skipped
    | RJson (PDict d) \<Rightarrow>
        (case (dict_get d ''task_id'' (PStr []), dict_get d ''callback_url'' (PStr []),
               dict_get d ''attempt'' (PInt 1)) of
           (PStr t, PStr u, PInt a) \<Rightarrow>
             if a \<ge> 0 then Event t u (dict_get d ''payload'' (PDict [])) (nat a) else Malformed
         | _ \<Rightarrow> Malformed)
    | _ \<Rightarrow> Malformed)"

text \<open>One event of the batch: the new state, how many were processed, or an exception.\<close>

definition process_event ::
  "'w post \<Rightarrow> TaskCompletionNode \<Rightarrow> time \<Rightarrow> rval \<Rightarrow> redis \<times> 'w \<Rightarrow> (string + nat) \<times> redis \<times> 'w" where
  "process_event post node now raw st = (let (r, w) = st in
     if zrem_reply r callback_retry raw = 0 then (Inr 0, r, w)
     else let r1 = zrem r callback_retry raw in
       case parse_event raw of
         Skipped \<Rightarrow> (Inr 0, r1, w)
       | Malformed \<Rightarrow> (Inl ''AttributeError'', r1, w)
       | Event t u payload att \<Rightarrow>
           (case post w u payload t (int att) of
              (True, w') \<Rightarrow> (Inr 1, set_ex r1 (callback_done t) (RText ''1'') (Some 86400), w')
            | (False, w') \<Rightarrow>
                if int att < max_durable_attempts node
                then (Inr 1, enqueue_callback_retry r1 now t u payload (att + 1), w')
                else (Inr 1, expire (zadd r1 callback_dlq raw now) callback_dlq 2592000, w')))"

fun process_events ::
  "'w post \<Rightarrow> TaskCompletionNode \<Rightarrow> time \<Rightarrow> rval list \<Rightarrow> redis \<times> 'w \<Rightarrow> (string + nat) \<times> redis \<times> 'w" where
  "process_events post node now [] st = (Inr 0, st)"
| "process_events post node now (raw # raws) st =
     (case process_event post node now raw st of
        (Inl e, st') \<Rightarrow> (Inl e, st')
      | (Inr n, st') \<Rightarrow> (case process_events post node now raws st' of
            (Inl e, st'') \<Rightarrow> (Inl e, st'')
          | (Inr m, st'') \<Rightarrow> (Inr (n + m), st'')))"

definition due_events :: "redis \<Rightarrow> time \<Rightarrow> nat \<Rightarrow> rval list" where
  "due_events r now batch = map fst (take batch (zrangebyscore r callback_retry NegInf (Score now)))"

definition process_due_callbacks ::
  "'w post \<Rightarrow> TaskCompletionNode \<Rightarrow> time \<Rightarrow> nat \<Rightarrow> redis \<times> 'w \<Rightarrow> (string + nat) \<times> redis \<times> 'w" where
  "process_due_callbacks post node now batch st =
     process_events post node now (due_events (fst st) now batch) st"

subsection \<open>Immediate retries\<close>

text \<open>The attempts are numbered from one; \<open>n\<close> are left. The pauses are not modelled.\<close>

fun inline_attempts :: "'w post \<Rightarrow> string \<Rightarrow> pyval \<Rightarrow> string \<Rightarrow> nat \<Rightarrow> nat \<Rightarrow> 'w \<Rightarrow> bool \<times> 'w" where
  "inline_attempts post url payload task_id i 0 w = (False, w)"
| "inline_attempts post url payload task_id i (Suc n) w =
     (case post w url payload task_id (int i) of
        (True, w') \<Rightarrow> (True, w')
      | (False, w') \<Rightarrow> inline_attempts post url payload task_id (Suc i) n w')"

definition trigger_callback ::
  "'w post \<Rightarrow> TaskCompletionNode \<Rightarrow> time \<Rightarrow> string \<Rightarrow> TaskStatus \<Rightarrow> pyval \<Rightarrow> string \<Rightarrow> redis \<times> 'w \<Rightarrow> redis \<times> 'w" where
  "trigger_callback post node now task_id st result url s =
     (if url = [] then s
      else let (r, w) = s; payload = callback_payload task_id st result now
        in case inline_attempts post url payload task_id 1 (inline_retries node) w of
             (True, w') \<Rightarrow> (set_ex r (callback_done task_id) (RText ''1'') (Some 86400), w')
           | (False, w') \<Rightarrow> (enqueue_callback_retry r now task_id url payload 1, w'))"

text \<open>
  \<^verbatim>\<open>handle_completion\<close>: both parts run, whatever happens to the other; an error of the
  database part is logged.
\<close>

definition handle_completion ::
  "(pyval \<Rightarrow> string) \<Rightarrow> 'w post \<Rightarrow> TaskCompletionNode \<Rightarrow> time \<Rightarrow> TaskStatus option \<Rightarrow> string \<Rightarrow> TaskStatus \<Rightarrow> pyval
   \<Rightarrow> string \<Rightarrow> string \<Rightarrow> redis \<times> 'w \<Rightarrow> bool \<times> (task_error + db_write list) \<times> redis \<times> 'w" where
  "handle_completion str_of post node now row task_id st result url tenant s =
     (True, persist str_of row task_id st result tenant url now,
      trigger_callback post node now task_id st result url s)"
subsection \<open>No callback is lost\<close>

text \<open>
  A callback of a task is accounted for when its delivery is marked, or one of its events
  waits in the retry set or in the dead-letter set.
\<close>

definition accounted :: "redis \<Rightarrow> string \<Rightarrow> string \<Rightarrow> pyval \<Rightarrow> bool" where
  "accounted r t u p \<longleftrightarrow> get r (callback_done t) = Some (RText ''1'')
     \<or> (\<exists>att. callback_event t u p att \<in> zmembers r callback_retry)
     \<or> (\<exists>att. callback_event t u p att \<in> zmembers r callback_dlq)"

lemma parse_callback_event [simp]: "parse_event (callback_event t u p att) = Event t u p att"
  by (simp add: parse_event_def callback_event_def dict_get_def)

lemma callback_event_inj [simp]:
  "callback_event t u p a = callback_event t' u' p' a' \<longleftrightarrow> t = t' \<and> u = u' \<and> p = p' \<and> a = a'"
  by (auto simp: callback_event_def)

lemma zrem_reply_zero: "zrem_reply r k m = 0 \<longleftrightarrow> m \<notin> zmembers r k"
  by (simp add: zrem_reply_def flip: zscore_iff_zmembers)

lemma set_done_accounted: "accounted r t u p \<Longrightarrow> accounted (set_ex r (callback_done t') (RText ''1'') ex) t u p"
  by (auto simp: accounted_def store_simps)

lemma zadd_accounted: "accounted r t u p \<Longrightarrow> accounted (zadd r k m s) t u p"
  by (auto simp: accounted_def store_simps)

lemma enqueue_accounted: "accounted r t u p \<Longrightarrow> accounted (enqueue_callback_retry r now t' u' p' att) t u p"
  by (simp add: enqueue_callback_retry_def zadd_accounted)

lemma expire_accounted [simp]: "accounted (expire r k n) t u p = accounted r t u p"
  by (simp add: accounted_def store_simps)

lemma zrem_accounted:
  "accounted r t u p \<Longrightarrow> (\<And>att. raw \<noteq> callback_event t u p att) \<Longrightarrow> accounted (zrem r callback_retry raw) t u p"
  by (auto simp: accounted_def store_simps key_simps)

lemma process_event_accounted:
  assumes "accounted r t u p"
  shows "accounted (fst (snd (process_event post node now raw (r, w)))) t u p"
proof (cases "\<exists>att. raw = callback_event t u p att")
  case True
  then obtain att where raw: "raw = callback_event t u p att" by blast
  obtain ok w' where pw: "post w u p t (int att) = (ok, w')" by (cases "post w u p t (int att)")
  show ?thesis
    using assms
    by (cases ok)
      (auto simp: process_event_def raw pw accounted_def enqueue_callback_retry_def store_simps
        key_simps Let_def)
next
  case False
  then have "accounted (zrem r callback_retry raw) t u p"
    by (intro zrem_accounted assms) auto
  then show ?thesis
    using assms
    by (auto simp: process_event_def Let_def set_done_accounted enqueue_accounted zadd_accounted
        split: parsed.splits prod.splits bool.splits)
qed

lemma process_events_accounted:
  "accounted (fst s) t u p \<Longrightarrow> accounted (fst (snd (process_events post node now raws s))) t u p"
proof (induction raws arbitrary: s)
  case Nil
  then show ?case by simp
next
  case (Cons raw raws)
  let ?s = "snd (process_event post node now raw s)"
  have "accounted (fst ?s) t u p"
    using process_event_accounted [of "fst s" t u p post node now raw "snd s"] Cons.prems by simp
  from Cons.IH [OF this] this show ?case
    by (simp add: case_prod_unfold split: sum.splits)
qed

lemma trigger_accounted:
  assumes "url \<noteq> []"
  shows "accounted (fst (trigger_callback post node now t st result url s)) t url
    (callback_payload t st result now)"
  using assms
  by (auto simp: trigger_callback_def accounted_def enqueue_callback_retry_def store_simps
      case_prod_unfold Let_def split: bool.splits)

subsection \<open>Every event is attempted a bounded number of times\<close>

definition attempts_left :: "TaskCompletionNode \<Rightarrow> rval \<Rightarrow> nat" where
  "attempts_left node raw = (case parse_event raw of
      Event t u p att \<Rightarrow> max 1 (nat (max_durable_attempts node + 1 - int att))
    | _ \<Rightarrow> 0)"

definition effort :: "TaskCompletionNode \<Rightarrow> redis \<Rightarrow> nat" where
  "effort node r = (\<Sum>raw \<in> zmembers r callback_retry. attempts_left node raw)"

lemma finite_zmembers [simp]: "finite (zmembers r k)"
  by (simp add: zmembers_def)

lemma effort_zrem:
  "raw \<in> zmembers r callback_retry \<Longrightarrow> effort node (zrem r callback_retry raw) + attempts_left node raw = effort node r"
  by (simp add: effort_def store_simps sum.remove [of "zmembers r callback_retry" raw])

lemma effort_zadd: "effort node (zadd r callback_retry m s) \<le> effort node r + attempts_left node m"
  by (simp add: effort_def store_simps sum.insert_if)

lemma effort_set_ex [simp]: "effort node (set_ex r k v ex) = effort node r"
  by (simp add: effort_def store_simps)

lemma effort_dlq [simp]: "effort node (expire (zadd r callback_dlq m s) k n) = effort node r"
  by (simp add: effort_def store_simps key_simps)

lemma process_event_effort:
  assumes "process_event post node now raw (r, w) = (Inr n, r', w')"
  shows "effort node r' + n \<le> effort node r"
proof (cases "raw \<in> zmembers r callback_retry")
  case False
  then show ?thesis using assms by (simp add: process_event_def zrem_reply_zero Let_def)
next
  case True
  let ?r = "zrem r callback_retry raw"
  have e: "effort node ?r + attempts_left node raw = effort node r" by (rule effort_zrem [OF True])
  show ?thesis
  proof (cases "parse_event raw")
    case (Event t u p att)
    have w1: "1 \<le> attempts_left node raw" by (simp add: attempts_left_def Event)
    have "int att < max_durable_attempts node \<Longrightarrow>
        Suc (attempts_left node (callback_event t u p (att + 1))) = attempts_left node raw"
      by (simp add: attempts_left_def Event)
    then have "int att < max_durable_attempts node \<Longrightarrow>
        Suc (effort node (enqueue_callback_retry ?r now t u p (att + 1))) \<le> effort node r"
      using e effort_zadd [of node ?r "callback_event t u p (att + 1)"]
      by (simp add: enqueue_callback_retry_def) (metis Suc_le_mono add_Suc_right)
    then show ?thesis
      using assms True e w1
      by (auto simp: process_event_def zrem_reply_zero Event Let_def case_prod_unfold
          split: bool.splits if_splits)
  qed (use assms True e in \<open>auto simp: process_event_def zrem_reply_zero Let_def\<close>)
qed

lemma process_events_effort:
  "process_events post node now raws s = (Inr n, s') \<Longrightarrow> effort node (fst s') + n \<le> effort node (fst s)"
proof (induction raws arbitrary: s n)
  case Nil
  then show ?case by simp
next
  case (Cons raw raws)
  obtain a s1 where 1: "process_event post node now raw s = (Inr a, s1)"
    using Cons.prems by (auto simp: case_prod_unfold split: sum.splits) (metis prod.collapse)
  obtain b where 2: "process_events post node now raws s1 = (Inr b, s')" and n: "n = a + b"
    using Cons.prems by (auto simp: 1 case_prod_unfold split: sum.splits) (metis prod.collapse)
  from process_event_effort [of post node now raw "fst s" "snd s" a "fst s1" "snd s1"] Cons.IH [OF 2] 1
  show ?case by (simp add: n)
qed

subsection \<open>Properties\<close>

text \<open>What may happen after a callback was triggered: other callbacks, and retry rounds.\<close>

datatype callback_op =
    Trigger time string TaskStatus pyval string
  | Process time nat

fun callback_run :: "'w post \<Rightarrow> TaskCompletionNode \<Rightarrow> callback_op \<Rightarrow> redis \<times> 'w \<Rightarrow> redis \<times> 'w" where
  "callback_run post node (Trigger now t st result url) s = trigger_callback post node now t st result url s"
| "callback_run post node (Process now batch) s = snd (process_due_callbacks post node now batch s)"

lemma trigger_keeps_accounted:
  "accounted (fst s) t u p \<Longrightarrow> accounted (fst (trigger_callback post node now t' st result url s)) t u p"
  by (auto simp: trigger_callback_def case_prod_unfold Let_def set_done_accounted enqueue_accounted
      split: bool.splits)

lemma callback_runs_accounted:
  "accounted (fst s) t u p \<Longrightarrow> accounted (fst (fold (callback_run post node) ops s)) t u p"
proof (induction ops arbitrary: s)
  case (Cons op ops)
  have "accounted (fst (callback_run post node op s)) t u p"
    using Cons.prems
    by (cases op) (simp_all add: process_due_callbacks_def process_events_accounted trigger_keeps_accounted)
  then show ?case by (simp add: Cons.IH)
qed simp


definition refusing :: "nat post" where
  "refusing w url payload task_id att = (False, w + 1)"


text \<open>
  Durable retries end: the attempts left over all waiting events (at least one each)
  fall by at least the number of events a round processes, so whatever the receiver does,
  the rounds after the last trigger process at most that many events in total, and a
  set whose count is zero holds no event.
\<close>

theorem callback_retries_bounded:
  "(process_due_callbacks post node now batch (r, w) = (Inr n, r', w') \<longrightarrow> effort node r' + n \<le> effort node r)
   \<and> (effort node r = 0 \<longrightarrow> callback_event t u p att \<notin> zmembers r callback_retry)
   \<and> 10 \<le> retry_delay att \<and> retry_delay att \<le> 600"
proof (intro conjI impI)
  assume "process_due_callbacks post node now batch (r, w) = (Inr n, r', w')"
  then show "effort node r' + n \<le> effort node r"
    using process_events_effort [of post node now _ "(r, w)" n "(r', w')"] by (simp add: process_due_callbacks_def)
next
  assume "effort node r = 0"
  then show "callback_event t u p att \<notin> zmembers r callback_retry"
    by (auto simp: effort_def attempts_left_def dest!: bspec)
next
  show "10 \<le> retry_delay att" "retry_delay att \<le> 600"
    by (simp_all add: retry_delay_def)
qed

theorem callback_retries_bounded_witness:
  "\<exists>r' w'. process_due_callbacks refusing new_TaskCompletionNode 0 50 (empty_redis, 0) = (Inr 0, r', w')
     \<and> effort new_TaskCompletionNode r' + 0 \<le> effort new_TaskCompletionNode empty_redis
     \<and> effort new_TaskCompletionNode empty_redis = 0
     \<and> callback_event ''t'' ''u'' PNone 1 \<notin> zmembers empty_redis callback_retry"
proof -
  have e: "zbucket empty_redis k = []" for k by (simp add: zbucket_def empty_redis_def)
  have p: "process_due_callbacks refusing new_TaskCompletionNode 0 50 (empty_redis, 0) = (Inr 0, empty_redis, 0)"
    by (simp add: process_due_callbacks_def due_events_def zrangebyscore_def e)
  have "effort new_TaskCompletionNode empty_redis = 0" by (simp add: effort_def zmembers_def e)
  with p show ?thesis
    using callback_retries_bounded [of refusing new_TaskCompletionNode 0 50 empty_redis 0 0 empty_redis 0
        "''t''" "''u''" PNone 1] by simp
qed

text \<open>
  An event of the retry set that is only a task identifier (which is what the reconciler
  adds) is removed from the set without a delivery attempt.
\<close>

lemma bare_identifier_dropped:
  assumes "RText t \<in> zmembers r callback_retry"
  shows "process_event post node now (RText t) (r, w) = (Inr 0, zrem r callback_retry (RText t), w)"
  using assms by (simp add: process_event_def parse_event_def zrem_reply_zero Let_def)

lemma next_status_Inr: "next_status cur st = Inr nxt \<Longrightarrow> nxt = st"
  by (cases st; cases cur) (auto simp: next_status_def transition_def)

lemma next_status_Inr_live: "next_status cur st = Inr nxt \<Longrightarrow> st \<in> {COMPLETED, FAILED} \<Longrightarrow> \<not> terminal cur"
  by (cases cur) (auto simp: next_status_def transition_def terminal_def)

lemma next_status_Inl:
  "next_status cur st = Inl e \<Longrightarrow> st \<in> {COMPLETED, FAILED} \<and>
     (\<exists>ev. ev = (if st = COMPLETED then COMPLETE else FAIL) \<and> allowed cur ev = None \<and> e = InvalidTaskTransition cur ev)"
  by (cases st) (auto simp: next_status_def transition_def split: option.splits)

text \<open>
  What the completion node writes: a finished task is never overwritten by another
  completion or failure, a completion or failure of an existing row is exactly one legal
  step of the state machine, an unknown task gets a new row, and the outbox record is
  written in the same transaction exactly when there is a callback address.
\<close>

theorem persist_writes:
  "(case persist str_of row task_id st result tenant url now of
      Inl e \<Rightarrow> (\<exists>cur ev. row = Some cur \<and> allowed cur ev = None \<and> e = InvalidTaskTransition cur ev
                 \<and> ev = (if st = COMPLETED then COMPLETE else FAIL) \<and> st \<in> {COMPLETED, FAILED})
    | Inr ws \<Rightarrow> (\<exists>out err. hd ws = (case row of None \<Rightarrow> InsertTask task_id tenant st out err
                                         | Some cur \<Rightarrow> UpdateTask task_id st out err))
        \<and> (st \<in> {COMPLETED, FAILED} \<and> row \<noteq> None \<longrightarrow> \<not> terminal (the row))
        \<and> (url \<noteq> [] \<longleftrightarrow> InsertOutbox task_id tenant url (callback_payload task_id st result now) \<in> set ws)
        \<and> length ws = (if url = [] then 1 else 2))"
proof (cases row)
  case None
  then show ?thesis by (auto simp: persist_def Let_def)
next
  case (Some cur)
  then show ?thesis
    by (cases "next_status cur st")
      (auto simp: persist_def Let_def dest: next_status_Inr next_status_Inl next_status_Inr_live)
qed

theorem persist_writes_witness:
  "persist (\<lambda>v. []) (Some COMPLETED) ''t'' FAILED PNone ''n'' ''u'' 0 = Inl (InvalidTaskTransition COMPLETED FAIL)
   \<and> (case persist (\<lambda>v. []) (Some COMPLETED) ''t'' FAILED PNone ''n'' ''u'' 0 of
        Inl e \<Rightarrow> \<exists>cur ev. Some COMPLETED = Some cur \<and> allowed cur ev = None \<and> e = InvalidTaskTransition cur ev
      | Inr ws \<Rightarrow> False)"
  using persist_writes [where str_of = "\<lambda>v. []" and row = "Some COMPLETED" and task_id = "''t''"
      and st = FAILED and result = PNone and tenant = "''n''" and url = "''u''" and now = 0]
  by (simp add: persist_def next_status_def transition_def)

end
