(* ===== verification/Task_Executor.thy ===== *)
theory Task_Executor
  imports Redis_Store
begin

text \<open>
  \<^verbatim>\<open>TaskExecutor\<close>: one execution of a task under a lock in Redis (\<^verbatim>\<open>SET NX PX\<close> with a fresh
  value, renewed by a background loop and released by compare-and-delete).

  \<open>execute_task\<close> is the code of \<^verbatim>\<open>execute\<close> for one worker, with the DAG run and the
  completion callback as parameters. \<open>exec_step\<close> interleaves any number of workers at the
  atomic Redis operations, together with renewals, the expiry of a lock, and changes of
  other keys. Lock values come from \<^verbatim>\<open>uuid.uuid4()\<close>; that they differ is a hypothesis of the
  properties that need it.
\<close>

definition lock_key :: "string \<Rightarrow> string" where
  "lock_key task_id = ''task_lock:'' @ task_id"

definition cancel_key :: "string \<Rightarrow> string" where
  "cancel_key task_id = ''task_cancel:'' @ task_id"

lemma lock_keys [key_simps]:
  "lock_key a = lock_key b \<longleftrightarrow> a = b" "cancel_key a = cancel_key b \<longleftrightarrow> a = b"
  "lock_key a \<noteq> cancel_key b" "cancel_key b \<noteq> lock_key a"
  by (simp_all add: lock_key_def cancel_key_def)

definition lua_lock_release :: "redis \<Rightarrow> string \<Rightarrow> rval \<Rightarrow> int \<times> redis" where
  "lua_lock_release r key val =
     (if get r key = Some val then (1, delete_key r key) else (0, r))"

text \<open>An expiry in milliseconds is kept in whole seconds, rounded up.\<close>

definition px_seconds :: "int \<Rightarrow> int" where
  "px_seconds t = (t + 999) div 1000"

definition lua_lock_renew :: "redis \<Rightarrow> string \<Rightarrow> rval \<Rightarrow> int \<Rightarrow> string \<times> redis" where
  "lua_lock_renew r key val t =
     (if get r key = Some val then (''ok'', expire r key (px_seconds t)) else (''lost'', r))"

record TaskExecutor =
  lock_ttl_ms :: int
  draining :: bool
  active_tasks :: "string set"

definition new_TaskExecutor :: TaskExecutor where
  "new_TaskExecutor = \<lparr>lock_ttl_ms = 30000, draining = False, active_tasks = {}\<rparr>"

text \<open>
  How the awaited DAG run can end: with a value, with an exception, or cancelled. The
  engine is absent (\<open>None\<close>) or a function on the store.
\<close>

datatype dag_outcome = DagOk pyval | DagError string | DagCancelled

datatype exec_error = LockNotAcquired | Cancelled

record exec_result =
  exec_status :: string
  dag_result :: "pyval option"
  exec_error_text :: "string option"

definition plain_result :: "string \<Rightarrow> exec_result" where
  "plain_result s = \<lparr>exec_status = s, dag_result = None, exec_error_text = None\<rparr>"

text \<open>The \<^verbatim>\<open>try\<close> block: the result that is recorded and whether an exception leaves it.\<close>

definition exec_body ::
  "(redis \<Rightarrow> dag_outcome \<times> redis) option \<Rightarrow> redis \<Rightarrow> string \<Rightarrow> exec_result \<times> exec_error option \<times> redis" where
  "exec_body dag r task_id =
     (if (case get r (cancel_key task_id) of None \<Rightarrow> False | Some v \<Rightarrow> v \<noteq> RText [])
      then (plain_result ''cancelled'', None, r)
      else case dag of
        None \<Rightarrow> (plain_result ''completed'', None, r)
      | Some run \<Rightarrow> (case run r of
          (DagOk v, r') \<Rightarrow> ((plain_result ''completed'')\<lparr>dag_result := Some v\<rparr>, None, r')
        | (DagError e, r') \<Rightarrow> ((plain_result ''failed'')\<lparr>exec_error_text := Some e\<rparr>, None, r')
        | (DagCancelled, r') \<Rightarrow> (plain_result ''cancelled'', Some Cancelled, r')))"

definition release_lock :: "redis \<Rightarrow> string \<Rightarrow> rval \<Rightarrow> redis" where
  "release_lock r key val = snd (lua_lock_release r key val)"

text \<open>
  \<^verbatim>\<open>execute\<close>: the reply, the store, and the pairs handed to the callback. The callback's
  own errors are dropped.
\<close>

definition execute_task ::
  "TaskExecutor \<Rightarrow> (redis \<Rightarrow> dag_outcome \<times> redis) option \<Rightarrow> redis \<Rightarrow> string \<Rightarrow> string
   \<Rightarrow> (exec_error + exec_result) \<times> redis \<times> (string \<times> exec_result) list" where
  "execute_task ex dag r task_id lock_val =
     (case set_nx r (lock_key task_id) (RText lock_val) (Some (px_seconds (lock_ttl_ms ex))) of
        (False, r0) \<Rightarrow> (Inl LockNotAcquired, r0, [])
      | (True, r0) \<Rightarrow>
          (let (result, raised, r1) = exec_body dag r0 task_id;
               r2 = release_lock r1 (lock_key task_id) (RText lock_val)
           in (case raised of Some e \<Rightarrow> Inl e | None \<Rightarrow> Inr result, r2, [(task_id, result)])))"

subsection \<open>One worker\<close>

lemma release_lock_get [store_simps]:
  "get (release_lock r key val) k =
     (if k = key \<and> get r key = Some val then None else get r k)"
  by (simp add: release_lock_def lua_lock_release_def store_simps)




subsection \<open>Many workers\<close>

text \<open>
  Workers are numbered; worker \<open>i\<close> executes task \<open>tid i\<close> with lock value \<open>val i\<close>. A worker is
  between two awaits: before the acquisition, before reading the cancel flag, in the DAG
  run, before the release, or done. \<open>renewing\<close> tells whether its renewal loop is alive.
\<close>

datatype worker_pc = Idle | Checking | Running | Releasing string | Ended "exec_error + string"

record lock_state =
  store :: redis
  pc :: "nat \<Rightarrow> worker_pc"
  renewing :: "nat \<Rightarrow> bool"

definition in_section :: "worker_pc \<Rightarrow> bool" where
  "in_section p \<longleftrightarrow> p = Checking \<or> p = Running \<or> (\<exists>s. p = Releasing s)"

text \<open>\<open>lossy\<close>: whether a lock may expire while its holder works.\<close>

inductive exec_step ::
  "(nat \<Rightarrow> string) \<Rightarrow> (nat \<Rightarrow> string) \<Rightarrow> int \<Rightarrow> bool \<Rightarrow> lock_state \<Rightarrow> lock_state \<Rightarrow> bool"
  for tid val t lossy where
  acquire: "pc st i = Idle \<Longrightarrow>
    set_nx (store st) (lock_key (tid i)) (RText (val i)) (Some (px_seconds t)) = (True, r') \<Longrightarrow>
    exec_step tid val t lossy st
      (st\<lparr>store := r', pc := (pc st)(i := Checking), renewing := (renewing st)(i := True)\<rparr>)"
| refuse: "pc st i = Idle \<Longrightarrow>
    set_nx (store st) (lock_key (tid i)) (RText (val i)) (Some (px_seconds t)) = (False, r') \<Longrightarrow>
    exec_step tid val t lossy st (st\<lparr>pc := (pc st)(i := Ended (Inl LockNotAcquired))\<rparr>)"
| cancelled: "pc st i = Checking \<Longrightarrow> get (store st) (cancel_key (tid i)) = Some v \<Longrightarrow> v \<noteq> RText [] \<Longrightarrow>
    exec_step tid val t lossy st (st\<lparr>pc := (pc st)(i := Releasing ''cancelled'')\<rparr>)"
| proceed: "pc st i = Checking \<Longrightarrow> get (store st) (cancel_key (tid i)) \<in> {None, Some (RText [])} \<Longrightarrow>
    exec_step tid val t lossy st (st\<lparr>pc := (pc st)(i := Running)\<rparr>)"
| finish: "pc st i = Running \<Longrightarrow> s \<in> {''completed'', ''failed'', ''cancelled''} \<Longrightarrow>
    exec_step tid val t lossy st (st\<lparr>pc := (pc st)(i := Releasing s)\<rparr>)"
| renew: "renewing st i \<Longrightarrow> in_section (pc st i) \<Longrightarrow>
    lua_lock_renew (store st) (lock_key (tid i)) (RText (val i)) t = (reply, r') \<Longrightarrow>
    exec_step tid val t lossy st
      (st\<lparr>store := r', renewing := (renewing st)(i := reply \<noteq> ''lost'')\<rparr>)"
| release: "pc st i = Releasing s \<Longrightarrow>
    exec_step tid val t lossy st
      (st\<lparr>store := release_lock (store st) (lock_key (tid i)) (RText (val i)),
          pc := (pc st)(i := Ended (Inr s)), renewing := (renewing st)(i := False)\<rparr>)"
| expire_lock: "lossy \<Longrightarrow> exec_step tid val t lossy st (st\<lparr>store := evict (store st) (lock_key task)\<rparr>)"
| other_keys: "(\<forall>task. get r' (lock_key task) = get (store st) (lock_key task)) \<Longrightarrow>
    exec_step tid val t lossy st (st\<lparr>store := r'\<rparr>)"

inductive exec_reachable ::
  "(nat \<Rightarrow> string) \<Rightarrow> (nat \<Rightarrow> string) \<Rightarrow> int \<Rightarrow> bool \<Rightarrow> lock_state \<Rightarrow> bool" for tid val t lossy where
  start: "(\<forall>i. pc st i = Idle) \<Longrightarrow> (\<forall>task. get (store st) (lock_key task) = None) \<Longrightarrow>
    exec_reachable tid val t lossy st"
| step: "exec_reachable tid val t lossy st \<Longrightarrow> exec_step tid val t lossy st st' \<Longrightarrow>
    exec_reachable tid val t lossy st'"

definition holds_lock :: "(nat \<Rightarrow> string) \<Rightarrow> (nat \<Rightarrow> string) \<Rightarrow> lock_state \<Rightarrow> nat \<Rightarrow> bool" where
  "holds_lock tid val st i \<longleftrightarrow> get (store st) (lock_key (tid i)) = Some (RText (val i))"

lemma set_nx_reply:
  "set_nx r k v ex = (b, r') \<Longrightarrow> b = (get r k = None) \<and> r' = (if b then set_ex r k v ex else r)"
  by (auto simp: set_nx_def get_def split: if_splits)

lemma renew_get:
  "lua_lock_renew r k v t = (reply, r') \<Longrightarrow> get r' k' = get r k' \<and> (reply = ''lost'' \<longleftrightarrow> get r k \<noteq> Some v)"
  by (auto simp: lua_lock_renew_def store_simps split: if_splits)

text \<open>A lock key is free or holds the value of a worker of that task that has acquired it.\<close>

definition lock_inv :: "(nat \<Rightarrow> string) \<Rightarrow> (nat \<Rightarrow> string) \<Rightarrow> bool \<Rightarrow> lock_state \<Rightarrow> bool" where
  "lock_inv tid val lossy st \<longleftrightarrow>
     (\<forall>task v. get (store st) (lock_key task) = Some v \<longrightarrow>
        (\<exists>i. tid i = task \<and> v = RText (val i) \<and> in_section (pc st i))) \<and>
     (\<not> lossy \<longrightarrow> (\<forall>i. in_section (pc st i) \<longrightarrow> holds_lock tid val st i))"

lemma in_section_simps [simp]:
  "\<not> in_section Idle" "in_section Checking" "in_section Running" "in_section (Releasing s)" "\<not> in_section (Ended r)"
  by (simp_all add: in_section_def)

lemma lock_inv_local:
  assumes "lock_inv tid val lossy st" and "\<And>task. get (store st') (lock_key task) = get (store st) (lock_key task)"
    and "\<And>i. in_section (pc st' i) = in_section (pc st i)"
  shows "lock_inv tid val lossy st'"
  using assms unfolding lock_inv_def holds_lock_def by simp

lemma exec_step_inv:
  assumes "exec_step tid val t lossy st st'" and "inj val" and "lock_inv tid val lossy st"
  shows "lock_inv tid val lossy st'"
  using assms(1)
proof cases
  case (acquire i r')
  then have r': "get (store st) (lock_key (tid i)) = None"
    "r' = set_ex (store st) (lock_key (tid i)) (RText (val i)) (Some (px_seconds t))"
    using set_nx_reply [OF acquire(3)] by simp_all
  have "tid j \<noteq> tid i" if "\<not> lossy" "in_section (pc st j)" for j
    using assms(3) that r'(1) by (auto simp: lock_inv_def holds_lock_def)
  moreover have "\<exists>j. tid j = task \<and> v = RText (val j) \<and> in_section (pc st' j)"
    if "get (store st') (lock_key task) = Some v" for task v
  proof (cases "task = tid i")
    case True
    then show ?thesis using that acquire r' by (intro exI [of _ i]) (simp add: store_simps key_simps)
  next
    case False
    with that acquire r' have "get (store st) (lock_key task) = Some v" by (simp add: store_simps key_simps)
    then obtain j where "tid j = task" "v = RText (val j)" "in_section (pc st j)"
      using assms(3) unfolding lock_inv_def by blast
    then show ?thesis using False acquire by (intro exI [of _ j]) auto
  qed
  ultimately show ?thesis
    using assms(3) acquire(1,2) r' unfolding lock_inv_def
    by (auto simp: holds_lock_def store_simps key_simps)
next
  case (release i s)
  have owner: "j = i" if "get (store st) (lock_key (tid i)) = Some (RText (val j))" "holds_lock tid val st i" for j
    using that assms(2) by (simp add: holds_lock_def inj_eq)
  show ?thesis
    unfolding lock_inv_def
  proof (intro conjI allI impI)
    fix task v
    assume get: "get (store st') (lock_key task) = Some v"
    then have "get (store st) (lock_key task) = Some v" and not_own: "task = tid i \<longrightarrow> v \<noteq> RText (val i)"
      using release by (auto simp: store_simps key_simps split: if_splits)
    then obtain j where "tid j = task" "v = RText (val j)" "in_section (pc st j)"
      using assms(3) unfolding lock_inv_def by blast
    then show "\<exists>j. tid j = task \<and> v = RText (val j) \<and> in_section (pc st' j)"
      using not_own release by (intro exI [of _ j]) auto
  next
    fix j
    assume "\<not> lossy" "in_section (pc st' j)"
    moreover from this have "j \<noteq> i" "in_section (pc st j)" using release by (auto split: if_splits)
    ultimately have "holds_lock tid val st j" "holds_lock tid val st i"
      using assms(3) release by (auto simp: lock_inv_def)
    with \<open>j \<noteq> i\<close> show "holds_lock tid val st' j"
      using assms(2) release by (auto simp: holds_lock_def store_simps key_simps inj_eq)
  qed
next
  case (expire_lock task)
  then show ?thesis
    using assms(3) by (auto simp: lock_inv_def store_simps key_simps)
next
  case (renew i reply r')
  then show ?thesis
    using renew_get [OF renew(4)] by (intro lock_inv_local [OF assms(3)]) auto
qed (intro lock_inv_local [OF assms(3)]; auto)+

lemma exec_reachable_inv: "exec_reachable tid val t lossy st \<Longrightarrow> inj val \<Longrightarrow> lock_inv tid val lossy st"
proof (induction rule: exec_reachable.induct)
  case (start st)
  then show ?case by (simp add: lock_inv_def)
next
  case (step st st')
  then show ?case using exec_step_inv by blast
qed


text \<open>
  Even when locks expire, a release only removes the worker's own lock: after any step
  of another worker, or an expiry of another task's lock, a worker that held the lock of
  its task still holds it.
\<close>

theorem lock_not_stolen:
  assumes "inj val" and "exec_step tid val t True st st'" and "holds_lock tid val st i"
  shows "holds_lock tid val st' i \<or> (pc st' i \<noteq> pc st i \<and> \<not> in_section (pc st' i)) \<or>
    store st' = evict (store st) (lock_key (tid i))"
  using assms(2)
proof cases
  case (acquire j r')
  then show ?thesis
    using assms(3) set_nx_reply [OF acquire(3)] by (auto simp: holds_lock_def store_simps key_simps)
next
  case (renew j reply r')
  then show ?thesis using assms(3) renew_get [OF renew(4)] by (simp add: holds_lock_def)
next
  case (release j s)
  then show ?thesis
    using assms(1,3) by (cases "j = i") (auto simp: holds_lock_def store_simps key_simps inj_eq)
next
  case (expire_lock task)
  then show ?thesis using assms(3) by (cases "task = tid i") (auto simp: holds_lock_def store_simps key_simps)
qed (use assms(3) in \<open>auto simp: holds_lock_def\<close>)

subsection \<open>Runs\<close>

abbreviation demo_val :: "nat \<Rightarrow> string" where
  "demo_val i \<equiv> replicate i CHR ''x''"

lemma demo_val_inj: "inj demo_val"
  by (rule injI) (metis length_replicate)

lemma get_empty [simp]: "get empty_redis k = None"
  by (simp add: get_def empty_redis_def)

definition lock_start :: lock_state where
  "lock_start = \<lparr>store = empty_redis, pc = \<lambda>_. Idle, renewing = \<lambda>_. False\<rparr>"

lemma lock_start_reachable: "exec_reachable tid val t lossy lock_start"
  by (rule exec_reachable.start) (simp_all add: lock_start_def)

text \<open>A worker whose task is free acquires the lock and goes on to the DAG run.\<close>

lemma worker_enters:
  assumes "exec_reachable tid val t lossy st" and "pc st i = Idle"
    and "get (store st) (lock_key (tid i)) = None" and "get (store st) (cancel_key (tid i)) = None"
  defines "r' \<equiv> set_ex (store st) (lock_key (tid i)) (RText (val i)) (Some (px_seconds t))"
  shows "exec_reachable tid val t lossy
    (st\<lparr>store := r', pc := (pc st)(i := Running), renewing := (renewing st)(i := True)\<rparr>)"
proof -
  let ?st = "st\<lparr>store := r', pc := (pc st)(i := Checking), renewing := (renewing st)(i := True)\<rparr>"
  have "set_nx (store st) (lock_key (tid i)) (RText (val i)) (Some (px_seconds t)) = (True, r')"
    using assms(3) by (simp add: set_nx_def get_def r'_def)
  then have "exec_step tid val t lossy st ?st" by (rule exec_step.acquire [where tid = tid and val = val, OF assms(2)])
  with assms(1) have "exec_reachable tid val t lossy ?st" by (rule exec_reachable.step)
  moreover have "exec_step tid val t lossy ?st (?st\<lparr>pc := (pc ?st)(i := Running)\<rparr>)"
    by (rule exec_step.proceed) (use assms(4) in \<open>simp_all add: r'_def store_simps key_simps\<close>)
  ultimately have "exec_reachable tid val t lossy (?st\<lparr>pc := (pc ?st)(i := Running)\<rparr>)"
    by (rule exec_reachable.step)
  moreover have "?st\<lparr>pc := (pc ?st)(i := Running)\<rparr> =
      st\<lparr>store := r', pc := (pc st)(i := Running), renewing := (renewing st)(i := True)\<rparr>"
    by (cases st) simp
  ultimately show ?thesis by (simp only:)
qed

lemma one_running: "\<exists>st. exec_reachable (\<lambda>_. ''t'') demo_val 30000 lossy st \<and> pc st 0 = Running \<and>
    pc st 1 = Idle \<and> holds_lock (\<lambda>_. ''t'') demo_val st 0 \<and> get (store st) (cancel_key ''t'') = None"
proof -
  have "get (store lock_start) (cancel_key ''t'') = None" "get (store lock_start) (lock_key ''t'') = None"
    "pc lock_start 0 = Idle" by (simp_all add: lock_start_def)
  note worker_enters [OF lock_start_reachable this(3), of "\<lambda>_. ''t''", OF this(2,1), of demo_val 30000 lossy]
  then show ?thesis
    by (intro exI conjI, assumption) (simp_all add: holds_lock_def store_simps key_simps lock_start_def)
qed


theorem lock_not_stolen_witness:
  "\<exists>st st'. exec_step (\<lambda>_. ''t'') demo_val 30000 True st st' \<and> pc st' 1 = Ended (Inl LockNotAcquired) \<and>
     holds_lock (\<lambda>_. ''t'') demo_val st' 0"
proof -
  obtain st where st: "pc st 0 = Running" "pc st 1 = Idle" "holds_lock (\<lambda>_. ''t'') demo_val st 0"
    using one_running [of True] by blast
  let ?st = "st\<lparr>pc := (pc st)(1 := Ended (Inl LockNotAcquired))\<rparr>"
  have "set_nx (store st) (lock_key ''t'') (RText (demo_val 1)) (Some (px_seconds 30000)) = (False, store st)"
    using st(3) by (simp add: set_nx_def holds_lock_def get_def)
  then have step: "exec_step (\<lambda>_. ''t'') demo_val 30000 True st ?st"
    using st(2) by (intro exec_step.refuse) simp_all
  have "store ?st = evict (store st) (lock_key ''t'') \<Longrightarrow> False"
    using st(3) by (auto simp: holds_lock_def store_simps dest: arg_cong [where f = "\<lambda>r. get r (lock_key ''t'')"])
  with lock_not_stolen [OF demo_val_inj step st(3)] step show ?thesis by fastforce
qed

text \<open>
  Once a lock has expired, two workers run the same task at the same time: the renewal loop
  notices the loss and ends, but the DAG run it was started for goes on.
\<close>

lemma lock_loss_two_running:
  "\<exists>st. exec_reachable (\<lambda>_. ''t'') demo_val 30000 True st \<and> pc st 0 = Running \<and> pc st 1 = Running"
proof -
  obtain st where st: "exec_reachable (\<lambda>_. ''t'') demo_val 30000 True st" "pc st 0 = Running" "pc st 1 = Idle"
    "get (store st) (cancel_key ''t'') = None"
    using one_running [of True] by blast
  let ?st = "st\<lparr>store := evict (store st) (lock_key ''t'')\<rparr>"
  have reach: "exec_reachable (\<lambda>_. ''t'') demo_val 30000 True ?st"
    by (rule exec_reachable.step [OF st(1)]) (simp add: exec_step.expire_lock)
  have "get (store ?st) (lock_key ''t'') = None" "get (store ?st) (cancel_key ''t'') = None" "pc ?st 1 = Idle"
    using st(3,4) by (simp_all add: store_simps key_simps)
  note worker_enters [OF reach this(3) this(1,2)]
  then show ?thesis by (intro exI conjI, assumption) (simp_all add: st(2))
qed

end
