(* ===== verification/Task_Reconciler.thy ===== *)
theory Task_Reconciler
  imports Task_Creator Task_Completion Task_Executor
begin

text \<open>
  \<^verbatim>\<open>TaskReconciler\<close> (\<^verbatim>\<open>src/platform/task_reconciler.py\<close>): one instance at a time holds the
  leader key and repairs the task state in four phases: rebuilding Redis from the
  database, inserting finished tasks that the database lacks, requeueing or failing tasks
  whose execution lock is gone, and queueing callbacks that were never sent.

  What the database returns is an argument (\<open>rows\<close>, \<open>persisted\<close>), what it is told is a result
  (the inserted rows, the identifiers whose attempt counter is incremented). The keys that
  SCAN reported are an argument, too. An exception that leaves a phase is an \<open>Inl\<close> result
  beside the state reached; the caller gathers the phases and goes on.
\<close>

subsection \<open>Leader election\<close>

definition reconcile_leader :: string where
  "reconcile_leader = ''reconcile_leader''"

definition requeue_dedup :: "string \<Rightarrow> string" where
  "requeue_dedup task_id = ''requeue_dedup:'' @ task_id"

definition retry_payload_key :: "string \<Rightarrow> string" where
  "retry_payload_key task_id = ''callback:retry:payload:'' @ task_id"

record TaskReconciler =
  stuck_max_per_tick :: nat
  stuck_max_age :: time
  instance_id :: string
  leader_ttl :: int
  has_qm :: bool
  rec_db :: bool
  rec_compensation :: bool

definition new_TaskReconciler :: "string \<Rightarrow> TaskReconciler" where
  "new_TaskReconciler i = \<lparr>stuck_max_per_tick = 20, stuck_max_age = 300, instance_id = i, leader_ttl = 90,
     has_qm = True, rec_db = True, rec_compensation = True\<rparr>"

definition lua_renew_leader :: "redis \<Rightarrow> string \<Rightarrow> int \<Rightarrow> int \<times> redis" where
  "lua_renew_leader r i t =
     (if get r reconcile_leader = Some (RText i) then (1, expire r reconcile_leader t) else (0, r))"

definition try_become_leader :: "TaskReconciler \<Rightarrow> redis \<Rightarrow> bool \<times> redis" where
  "try_become_leader rc r =
     (let (ok, r1) = set_nx r reconcile_leader (RText (instance_id rc)) (Some (leader_ttl rc))
      in if ok then (True, r1)
         else let (renewed, r2) = lua_renew_leader r1 (instance_id rc) (leader_ttl rc) in (renewed = 1, r2))"

subsection \<open>Phase 0: rebuild Redis from the database\<close>

text \<open>\<^verbatim>\<open>_json_load_or_default\<close> on a text column.\<close>

definition json_load_or_default :: "rval option \<Rightarrow> pyval \<Rightarrow> pyval" where
  "json_load_or_default v dflt = (case v of
      Some (RJson x) \<Rightarrow> x | Some (RNum i) \<Rightarrow> PInt i | _ \<Rightarrow> dflt)"

definition opt_str :: "string option \<Rightarrow> pyval" where
  "opt_str v = (case v of None \<Rightarrow> PNone | Some s \<Rightarrow> PStr s)"

definition or_default :: "int \<Rightarrow> int \<Rightarrow> int" where
  "or_default v d = (if v = 0 then d else v)"

text \<open>\<open>str_of\<close> is \<^verbatim>\<open>str()\<close> of a scheduling time, \<open>datetime_str\<close> that of a timestamp.\<close>

definition rebuilt_payload :: "(pyval \<Rightarrow> string) \<Rightarrow> (time \<Rightarrow> string) \<Rightarrow> TaskRecord \<Rightarrow> dict" where
  "rebuilt_payload str_of datetime_str row = [(''task_id'', PStr (tr_task_id row)), (''tenant_id'', PStr (tr_tenant_id row)),
     (''status'', PStr (status_value (tr_status row))), (''capability'', PStr (tr_task_type row)),
     (''priority'', PStr (priority_value (tr_priority row))),
     (''input_data'', json_load_or_default (tr_input_data row) (PDict [])),
     (''output'', json_load_or_default (tr_output_data row) (PDict [])),
     (''error_message'', opt_str (tr_error_message row)),
     (''metadata'', json_load_or_default (tr_metadata_json row) (PDict [])),
     (''callback_url'', PStr (case tr_callback_url row of None \<Rightarrow> [] | Some u \<Rightarrow> u)),
     (''idempotency_key'', opt_str (tr_idempotency_key row)),
     (''timeout_seconds'', PInt (or_default (tr_timeout_seconds row) 3600)),
     (''max_retries'', PInt (or_default (tr_max_retries row) 3)),
     (''attempt'', PInt (or_default (tr_attempt row) 0)),
     (''scheduled_at'', if truthy (tr_scheduled_at row) then PStr (str_of (tr_scheduled_at row)) else PNone),
     (''cron_expr'', opt_str (tr_cron_expr row)),
     (''created_at'', PStr (datetime_str (tr_created_at row))), (''updated_at'', PStr (datetime_str (tr_updated_at row)))]"

definition empty_value :: "rval option \<Rightarrow> bool" where
  "empty_value v \<longleftrightarrow> v = None \<or> v = Some (RText [])"

definition rebuild_row :: "(pyval \<Rightarrow> string) \<Rightarrow> (time \<Rightarrow> string) \<Rightarrow> time \<Rightarrow> TaskRecord \<Rightarrow> redis \<Rightarrow> redis" where
  "rebuild_row str_of datetime_str now row r =
     (if tr_task_id row = [] then r
      else let r1 = (if empty_value (get r (task_key (tr_task_id row)))
                     then set_ex r (task_key (tr_task_id row)) (RJson (PDict (rebuilt_payload str_of datetime_str row))) (Some 86400)
                     else r);
               cap = tr_task_type row
           in if cap \<noteq> [] \<and> tr_status row \<in> {QUEUED, SCHEDULED}
                \<and> zscore r1 (pending cap) (RText (tr_task_id row)) = None
                \<and> zscore r1 (running cap) (RText (tr_task_id row)) = None
              then zadd r1 (pending cap) (RText (tr_task_id row)) now
              else r1)"

definition rebuild_redis_from_mysql ::
  "(pyval \<Rightarrow> string) \<Rightarrow> (time \<Rightarrow> string) \<Rightarrow> time \<Rightarrow> TaskRecord list \<Rightarrow> redis \<Rightarrow> redis" where
  "rebuild_redis_from_mysql str_of datetime_str now rows r = fold (rebuild_row str_of datetime_str now) rows r"

subsection \<open>The batch\<close>

fun task_dict :: "rval option \<Rightarrow> dict option" where
  "task_dict (Some (RJson (PDict d))) = Some d"
| "task_dict _ = None"

definition scan_task_batch :: "redis \<Rightarrow> string list \<Rightarrow> dict list" where
  "scan_task_batch r keys = List.map_filter task_dict (map (get r) keys)"

text \<open>\<^verbatim>\<open>t.get("status", "").lower()\<close>, which raises for a value that is no string.\<close>

definition status_of :: "dict \<Rightarrow> string + string" where
  "status_of t = (case dict_get t ''status'' (PStr []) of PStr s \<Rightarrow> Inr (py_lower s) | _ \<Rightarrow> Inl ''AttributeError'')"

fun with_status :: "string list \<Rightarrow> dict list \<Rightarrow> string + dict list" where
  "with_status names [] = Inr []"
| "with_status names (t # ts) = (case status_of t of
      Inl e \<Rightarrow> Inl e
    | Inr s \<Rightarrow> (case with_status names ts of
          Inl e \<Rightarrow> Inl e
        | Inr xs \<Rightarrow> Inr (if s \<in> set names then t # xs else xs)))"

text \<open>The identifier of a task; a batch is made of records whose identifier is a string.\<close>

definition id_of :: "dict \<Rightarrow> string" where
  "id_of t = (case dict_get t ''task_id'' (PStr []) of PStr s \<Rightarrow> s | _ \<Rightarrow> [])"

subsection \<open>Phase 1: finished tasks the database lacks\<close>

definition terminal_row :: "dict \<Rightarrow> string \<times> pyval \<times> pyval \<times> rval option" where
  "terminal_row t = (id_of t, dict_get t ''tenant_id'' (PStr []), dict_get t ''status'' (PStr ''unknown''),
     (let out = dict_get t ''output'' PNone in if truthy out then Some (RJson out) else None))"

definition reconciler_tx :: "dict \<Rightarrow> time \<Rightarrow> TxRecord" where
  "reconciler_tx t now = (new_TxRecord (''reconciler-'' @ take 8 (id_of t)) (id_of t) ''create_task'' [] now)\<lparr>
     tx_status := TX_FAILED, mysql_written := True, redis_written := False,
     last_error := ''detected by reconciler phase1''\<rparr>"

text \<open>
  \<open>commit\<close> tells whether the database accepts the rows; the rows, or nothing, are returned
  with the state. A finished task without a \<^verbatim>\<open>task_id\<close> field raises once another one has it.
\<close>

definition phase1_double_write ::
  "TaskReconciler \<Rightarrow> (string \<Rightarrow> bool) \<Rightarrow> (( string \<times> pyval \<times> pyval \<times> rval option) list \<Rightarrow> bool) \<Rightarrow> time \<Rightarrow> dict list \<Rightarrow> redis
   \<Rightarrow> (string + (string \<times> pyval \<times> pyval \<times> rval option) list) \<times> redis" where
  "phase1_double_write rc persisted commit now batch r =
     (if \<not> rec_db rc then (Inr [], r)
      else case with_status [''completed'', ''failed'', ''cancelled''] batch of
        Inl e \<Rightarrow> (Inl e, r)
      | Inr ts \<Rightarrow>
          if \<forall>t \<in> set ts. \<not> truthy (dict_get t ''task_id'' PNone) then (Inr [], r)
          else if \<exists>t \<in> set ts. map_of t ''task_id'' = None then (Inl ''KeyError'', r)
          else let missing = filter (\<lambda>t. \<not> persisted (id_of t)) ts; rows = map terminal_row missing
               in if missing = [] then (Inr [], r)
                  else if \<not> commit rows then (Inl ''IntegrityError'', r)
                  else (Inr rows,
                        if rec_compensation rc
                        then fold (\<lambda>t r. compensation_enqueue r (reconciler_tx t now)) missing r else r))"

subsection \<open>Phase 2: stuck tasks\<close>

record requeue_info =
  rq_task_id :: string
  rq_attempt :: int
  rq_capability :: string
  rq_priority_rank :: int

record stuck_state =
  stuck_count :: nat
  st_redis :: redis
  requeue_tasks :: "requeue_info list"
  fail_tasks :: "string list"

fun seconds :: "pyval \<Rightarrow> time option" where
  "seconds (PInt i) = Some (of_int i)"
| "seconds (PFloat q) = Some q"
| "seconds (PBool b) = Some (if b then 1 else 0)"
| "seconds _ = None"

text \<open>
  The age test: a truthy \<^verbatim>\<open>created_at_ts\<close> that is recent enough. \<^verbatim>\<open>float()\<close> of a value that is
  no number raises; strings of digits are not among the values the writers store.
\<close>

definition too_young :: "TaskReconciler \<Rightarrow> time \<Rightarrow> dict \<Rightarrow> string + bool" where
  "too_young rc now t = (let c = dict_get t ''created_at_ts'' (PInt 0) in
     if \<not> truthy c then Inr False
     else case seconds c of None \<Rightarrow> Inl ''ValueError'' | Some s \<Rightarrow> Inr (now - s < stuck_max_age rc))"

definition requeue_of :: "string \<Rightarrow> int \<Rightarrow> dict \<Rightarrow> requeue_info" where
  "requeue_of tid att t = \<lparr>rq_task_id = tid, rq_attempt = att,
     rq_capability = (case str_opt (dict_get t ''capability'' (dict_get t ''task_type'' (PStr []))) of None \<Rightarrow> [] | Some c \<Rightarrow> c),
     rq_priority_rank = int_default 3 (dict_get t ''priority_rank'' (PInt 3))\<rparr>"

text \<open>One task of the loop, with whether its lock existed: \<open>None\<close> continues with the next.\<close>

definition examine ::
  "TaskReconciler \<Rightarrow> time \<Rightarrow> dict \<Rightarrow> bool \<Rightarrow> stuck_state \<Rightarrow> string option \<times> stuck_state" where
  "examine rc now t locked st =
     (let tid = id_of t in
      if tid = [] \<or> locked then (None, st)
      else case too_young rc now t of
        Inl e \<Rightarrow> (Some e, st)
      | Inr True \<Rightarrow> (None, st)
      | Inr False \<Rightarrow>
          (let (fresh, r') = set_nx (st_redis st) (requeue_dedup tid) (RText ''1'') (Some 300); st' = st\<lparr>st_redis := r'\<rparr>
           in if \<not> fresh then (None, st')
              else case (dict_get t ''max_retries'' (PInt 0), dict_get t ''attempt'' (PInt 0)) of
                (PInt m, PInt a) \<Rightarrow>
                  (None, if has_qm rc \<and> a < m
                         then st'\<lparr>requeue_tasks := requeue_tasks st @ [requeue_of tid a t], stuck_count := stuck_count st + 1\<rparr>
                         else st'\<lparr>fail_tasks := fail_tasks st @ [tid], stuck_count := stuck_count st + 1\<rparr>)
              | _ \<Rightarrow> (Some ''TypeError'', st')))"

fun examine_all ::
  "TaskReconciler \<Rightarrow> time \<Rightarrow> (dict \<times> bool) list \<Rightarrow> stuck_state \<Rightarrow> string option \<times> stuck_state" where
  "examine_all rc now [] st = (None, st)"
| "examine_all rc now ((t, locked) # ts) st =
     (if stuck_count st \<ge> stuck_max_per_tick rc then (None, st)
      else case examine rc now t locked st of
        (Some e, st') \<Rightarrow> (Some e, st')
      | (None, st') \<Rightarrow> examine_all rc now ts st')"

definition requeue_delay_ms :: "int \<Rightarrow> int" where
  "requeue_delay_ms att = min 600000 (10000 * 2 ^ nat att)"

fun requeue_all ::
  "time \<Rightarrow> requeue_info list \<Rightarrow> QueueManager \<times> redis \<Rightarrow> queue_error option \<times> QueueManager \<times> redis" where
  "requeue_all now [] s = (None, s)"
| "requeue_all now (q # qs) s =
     (if rq_capability q = [] then requeue_all now qs s
      else case enqueue (fst s) (snd s) now (rq_capability q) (rq_task_id q) (rq_priority_rank q)
                  (ms now + requeue_delay_ms (rq_attempt q)) of
        (Inl e, s') \<Rightarrow> (Some e, s')
      | (Inr _, s') \<Rightarrow> requeue_all now qs s')"

definition failed_data :: "dict \<Rightarrow> dict" where
  "failed_data d = dict_set (dict_set d ''status'' (PStr (status_value FAILED)))
     ''error'' (PStr ''reconciler: stuck task, lock expired'')"

definition fail_all :: "string list \<Rightarrow> redis \<Rightarrow> redis" where
  "fail_all tids r =
     fold (\<lambda>tid r'. case task_dict (get r (task_key tid)) of
              None \<Rightarrow> r'
            | Some d \<Rightarrow> set_ex r' (task_key tid) (RJson (PDict (failed_data d))) None) tids r"

text \<open>
  The phase returns the identifiers whose attempt counter the database is told to
  increment.
\<close>

definition phase2_stuck_recovery ::
  "TaskReconciler \<Rightarrow> time \<Rightarrow> dict list \<Rightarrow> QueueManager \<times> redis \<Rightarrow> (string + string list) \<times> QueueManager \<times> redis" where
  "phase2_stuck_recovery rc now batch s =
     (let (qm, r) = s in
      case with_status [''running'', ''queued''] batch of
        Inl e \<Rightarrow> (Inl e, s)
      | Inr ts \<Rightarrow>
          (case examine_all rc now (map (\<lambda>t. (t, exists r (lock_key (id_of t)))) ts)
                  \<lparr>stuck_count = 0, st_redis = r, requeue_tasks = [], fail_tasks = []\<rparr> of
             (Some e, st) \<Rightarrow> (Inl e, qm, st_redis st)
           | (None, st) \<Rightarrow>
               (case requeue_all now (requeue_tasks st) (qm, st_redis st) of
                  (Some e, qm', r') \<Rightarrow> (Inl ''CircuitOpen'', qm', r')
                | (None, qm', r') \<Rightarrow>
                    (Inr (if rec_db rc then map rq_task_id (requeue_tasks st) else []),
                     qm', fail_all (fail_tasks st) r'))))"

subsection \<open>Phase 3: lost callbacks\<close>

definition callback_of :: "dict \<Rightarrow> pyval" where
  "callback_of t = dict_get t ''callback_url'' (PStr [])"

definition retry_event :: "dict \<Rightarrow> rval" where
  "retry_event t = RJson (PDict [(''task_id'', PStr (id_of t)), (''callback_url'', callback_of t),
     (''payload'', PDict [(''task_id'', PStr (id_of t)), (''status'', dict_get t ''status'' PNone),
        (''result'', dict_get t ''output'' PNone)]),
     (''attempt'', PInt 1)])"

definition compensate_callback :: "time \<Rightarrow> dict \<times> bool \<Rightarrow> redis \<Rightarrow> redis" where
  "compensate_callback now td r = (let (t, sent) = td in
     if sent \<or> zscore r callback_retry (RText (id_of t)) \<noteq> None then r
     else set_ex (zadd r callback_retry (RText (id_of t)) (now + 10)) (retry_payload_key (id_of t))
            (retry_event t) (Some 3600))"

definition phase3_lost_callback :: "time \<Rightarrow> dict list \<Rightarrow> redis \<Rightarrow> (string + unit) \<times> redis" where
  "phase3_lost_callback now batch r = (case with_status [''completed'', ''failed''] batch of
      Inl e \<Rightarrow> (Inl e, r)
    | Inr ts \<Rightarrow> (let sel = filter (\<lambda>t. truthy (callback_of t)) ts
        in (Inr (), fold (compensate_callback now) (map (\<lambda>t. (t, exists r (callback_done (id_of t)))) sel) r)))"

text \<open>
  One turn of the loop. The three phases are gathered; here they run in their textual order,
  one of the orders in which the event loop may run them.
\<close>

definition reconcile_tick ::
  "TaskReconciler \<Rightarrow> (pyval \<Rightarrow> string) \<Rightarrow> (time \<Rightarrow> string) \<Rightarrow> time \<Rightarrow> TaskRecord list \<Rightarrow> string list \<Rightarrow> (string \<Rightarrow> bool)
   \<Rightarrow> ((string \<times> pyval \<times> pyval \<times> rval option) list \<Rightarrow> bool) \<Rightarrow> QueueManager \<times> redis \<Rightarrow> QueueManager \<times> redis" where
  "reconcile_tick rc str_of datetime_str now rows keys persisted commit s =
     (let (qm, r) = s; (lead, r0) = try_become_leader rc r in
      if \<not> lead then (qm, r0)
      else let r1 = (if rec_db rc then rebuild_redis_from_mysql str_of datetime_str now rows r0 else r0);
               batch = scan_task_batch r1 keys
           in if batch = [] then (qm, r1)
              else let r2 = snd (phase1_double_write rc persisted commit now batch r1);
                       (qm3, r3) = snd (phase2_stuck_recovery rc now batch (qm, r2))
                   in (qm3, snd (phase3_lost_callback now batch r3)))"

subsection \<open>Properties\<close>

text \<open>
  At most one leader: an instance becomes or stays leader exactly when the leader key is
  free or carries its own identifier; afterwards the key carries it, and no other instance
  becomes leader (until the key expires). An attempt that fails changes nothing.
\<close>

theorem reconciler_single_leader:
  "(fst (try_become_leader rc r) \<longleftrightarrow> get r reconcile_leader \<in> {None, Some (RText (instance_id rc))})
   \<and> (fst (try_become_leader rc r) \<longrightarrow>
        get (snd (try_become_leader rc r)) reconcile_leader = Some (RText (instance_id rc))
        \<and> (instance_id rc' \<noteq> instance_id rc \<longrightarrow>
             try_become_leader rc' (snd (try_become_leader rc r)) = (False, snd (try_become_leader rc r))))
   \<and> (\<not> fst (try_become_leader rc r) \<longrightarrow> snd (try_become_leader rc r) = r)"
proof (cases "get r reconcile_leader")
  case None
  then show ?thesis
    by (auto simp: try_become_leader_def lua_renew_leader_def set_nx_def set_ex_def get_def)
next
  case (Some v)
  then show ?thesis
    by (auto simp: try_become_leader_def lua_renew_leader_def set_nx_def expire_def get_def)
qed

theorem reconciler_single_leader_witness:
  "fst (try_become_leader (new_TaskReconciler ''a'') empty_redis)
   \<and> try_become_leader (new_TaskReconciler ''b'') (snd (try_become_leader (new_TaskReconciler ''a'') empty_redis))
     = (False, snd (try_become_leader (new_TaskReconciler ''a'') empty_redis))"
proof -
  have "get empty_redis reconcile_leader = None" by (simp add: get_def empty_redis_def)
  then show ?thesis
    using reconciler_single_leader [of "new_TaskReconciler ''a''" empty_redis "new_TaskReconciler ''b''"]
    by (simp add: new_TaskReconciler_def)
qed

lemma requeue_dedup_inj [key_simps]: "requeue_dedup a = requeue_dedup b \<longleftrightarrow> a = b"
  by (simp add: requeue_dedup_def)

definition handled :: "stuck_state \<Rightarrow> string list" where
  "handled st = map rq_task_id (requeue_tasks st) @ fail_tasks st"

text \<open>What a task must be like to be requeued or failed.\<close>

definition stuck :: "TaskReconciler \<Rightarrow> time \<Rightarrow> redis \<Rightarrow> (dict \<times> bool) list \<Rightarrow> string \<Rightarrow> bool" where
  "stuck rc now r ts tid \<longleftrightarrow> tid \<noteq> [] \<and> get r (requeue_dedup tid) = None \<and>
     (\<exists>t. (t, False) \<in> set ts \<and> id_of t = tid \<and> too_young rc now t = Inr False)"

definition retriable :: "(dict \<times> bool) list \<Rightarrow> requeue_info \<Rightarrow> bool" where
  "retriable ts q \<longleftrightarrow> (\<exists>t l m a. (t, l) \<in> set ts \<and> id_of t = rq_task_id q \<and> dict_get t ''max_retries'' (PInt 0) = PInt m
     \<and> dict_get t ''attempt'' (PInt 0) = PInt a \<and> a < m \<and> rq_attempt q = a)"

definition stuck_inv :: "TaskReconciler \<Rightarrow> time \<Rightarrow> redis \<Rightarrow> (dict \<times> bool) list \<Rightarrow> stuck_state \<Rightarrow> bool" where
  "stuck_inv rc now r ts st \<longleftrightarrow> distinct (handled st) \<and> length (handled st) = stuck_count st
     \<and> stuck_count st \<le> stuck_max_per_tick rc
     \<and> (\<forall>tid \<in> set (handled st). stuck rc now r ts tid \<and> get (st_redis st) (requeue_dedup tid) \<noteq> None)
     \<and> (\<forall>q \<in> set (requeue_tasks st). retriable ts q)
     \<and> (\<forall>k. get r k \<noteq> None \<longrightarrow> get (st_redis st) k = get r k)
     \<and> (\<forall>k. k \<notin> range requeue_dedup \<longrightarrow> get (st_redis st) k = get r k)"

lemma set_nx_fresh: "fst (set_nx r k v ex) \<longleftrightarrow> get r k = None"
  by (simp add: set_nx_def get_def)

lemma stuck_inv_marked:
  assumes "stuck_inv rc now r ts st"
  shows "stuck_inv rc now r ts (st\<lparr>st_redis := snd (set_nx (st_redis st) (requeue_dedup tid) v ex)\<rparr>)"
  using assms by (auto simp: stuck_inv_def handled_def store_simps)

lemma stuck_inv_handle:
  assumes inv: "stuck_inv rc now r ts st" and n: "stuck_count st < stuck_max_per_tick rc"
    and fresh: "get (st_redis st) (requeue_dedup tid) = None" and t: "(t, False) \<in> set ts" "id_of t = tid"
    "too_young rc now t = Inr False" "tid \<noteq> []"
    and st': "st_redis st' = snd (set_nx (st_redis st) (requeue_dedup tid) v ex)" "stuck_count st' = Suc (stuck_count st)"
    and ins: "(requeue_tasks st' = requeue_tasks st @ [q] \<and> rq_task_id q = tid \<and> retriable ts q \<and> fail_tasks st' = fail_tasks st)
      \<or> (requeue_tasks st' = requeue_tasks st \<and> fail_tasks st' = fail_tasks st @ [tid])"
  shows "stuck_inv rc now r ts st'"
proof -
  have "get r (requeue_dedup tid) = None"
    using inv fresh unfolding stuck_inv_def by metis
  then have s: "stuck rc now r ts tid" using t by (auto simp: stuck_def)
  have nin: "tid \<notin> set (handled st)" using inv fresh by (auto simp: stuck_inv_def)
  have h: "set (handled st') = insert tid (set (handled st))" "length (handled st') = Suc (length (handled st))"
    using ins by (auto simp: handled_def)
  have "distinct (handled st)" using inv by (simp add: stuck_inv_def)
  then have d: "distinct (handled st')"
    using ins nin by (auto simp: handled_def disjoint_iff)
  have "\<forall>q \<in> set (requeue_tasks st'). retriable ts q" using ins inv by (auto simp: stuck_inv_def)
  then show ?thesis
    using inv n s h d unfolding stuck_inv_def st' by (auto simp: store_simps)
qed

lemma examine_inv:
  assumes inv: "stuck_inv rc now r ts st" and n: "stuck_count st < stuck_max_per_tick rc"
    and t: "(t, l) \<in> set ts" and e: "examine rc now t l st = (res, st')"
  shows "stuck_inv rc now r ts st'"
proof (cases "id_of t = [] \<or> l \<or> too_young rc now t \<noteq> Inr False")
  case True
  then have "st' = st" using e by (auto simp: examine_def Let_def split: sum.splits bool.splits if_splits)
  then show ?thesis using inv by simp
next
  case False
  then have f: "id_of t \<noteq> []" "(t, False) \<in> set ts" "\<not> l" "too_young rc now t = Inr False" using t by auto
  let ?r = "snd (set_nx (st_redis st) (requeue_dedup (id_of t)) (RText ''1'') (Some 300))"
  show ?thesis
  proof (cases "get (st_redis st) (requeue_dedup (id_of t)) = None \<and>
      (\<exists>m a. dict_get t ''max_retries'' (PInt 0) = PInt m \<and> dict_get t ''attempt'' (PInt 0) = PInt a)")
    case False
    then have "st' = st\<lparr>st_redis := ?r\<rparr>"
      using e f by (auto simp: examine_def Let_def case_prod_unfold set_nx_fresh split: pyval.splits if_splits)
    then show ?thesis using stuck_inv_marked [OF inv] by simp
  next
    case True
    then obtain m a where ma: "dict_get t ''max_retries'' (PInt 0) = PInt m" "dict_get t ''attempt'' (PInt 0) = PInt a"
      and fresh: "get (st_redis st) (requeue_dedup (id_of t)) = None" by blast
    have st': "st' = (if has_qm rc \<and> a < m
        then st\<lparr>st_redis := ?r, requeue_tasks := requeue_tasks st @ [requeue_of (id_of t) a t], stuck_count := stuck_count st + 1\<rparr>
        else st\<lparr>st_redis := ?r, fail_tasks := fail_tasks st @ [id_of t], stuck_count := stuck_count st + 1\<rparr>)"
      using e f ma fresh by (simp add: examine_def Let_def case_prod_unfold set_nx_fresh split: if_splits)
    have "a < m \<Longrightarrow> retriable ts (requeue_of (id_of t) a t)"
      using f(2) ma by (auto simp: retriable_def requeue_of_def)
    then show ?thesis
      by (intro stuck_inv_handle [OF inv n fresh f(2) refl f(4,1), where q = "requeue_of (id_of t) a t"])
        (auto simp: st' requeue_of_def)
  qed
qed

lemma examine_all_inv:
  "stuck_inv rc now r ts st \<Longrightarrow> set us \<subseteq> set ts \<Longrightarrow> examine_all rc now us st = (res, st') \<Longrightarrow> stuck_inv rc now r ts st'"
proof (induction rc now us st rule: examine_all.induct)
  case (2 rc now t locked us st)
  then show ?case
    by (cases "stuck_count st \<ge> stuck_max_per_tick rc")
      (auto split: prod.splits option.splits dest: examine_inv)
qed auto

lemma with_status_sub: "with_status names ts = Inr xs \<Longrightarrow> set xs \<subseteq> set ts"
  by (induction ts arbitrary: xs) (auto split: sum.splits if_splits)

lemma stuck_inv_init:
  "stuck_inv rc now r ts \<lparr>stuck_count = 0, st_redis = r, requeue_tasks = [], fail_tasks = []\<rparr>"
  by (simp add: stuck_inv_def handled_def)

lemma enqueue_get:
  "cb qm = None \<Longrightarrow> get (snd (snd (enqueue qm r now cap t p after))) k = get r k
     \<and> cb (fst (snd (enqueue qm r now cap t p after))) = None"
  by (simp add: enqueue_def admit_def lua_enqueue_def case_prod_unfold Let_def store_simps
      refresh_ttl_def invalidate_stats_cache_def)

lemma requeue_all_get:
  "cb (fst s) = None \<Longrightarrow> get (snd (snd (requeue_all now qs s))) k = get (snd s) k"
proof (induction qs arbitrary: s)
  case (Cons q qs)
  let ?e = "enqueue (fst s) (snd s) now (rq_capability q) (rq_task_id q) (rq_priority_rank q)
    (ms now + requeue_delay_ms (rq_attempt q))"
  have "get (snd (snd ?e)) k = get (snd s) k" "cb (fst (snd ?e)) = None"
    using enqueue_get [OF Cons.prems] by blast+
  then show ?case using Cons by (simp add: case_prod_unfold split: sum.splits)
qed simp

lemma fail_all_get: "k \<notin> task_key ` set tids \<Longrightarrow> get (fail_all tids r) k = get r k"
proof -
  have "get (fold (\<lambda>tid r'. case task_dict (get r0 (task_key tid)) of None \<Rightarrow> r'
      | Some d \<Rightarrow> set_ex r' (task_key tid) (RJson (PDict (failed_data d))) None) tids r) k = get r k"
    if "k \<notin> task_key ` set tids" for r0 r
    using that by (induction tids arbitrary: r) (simp_all add: store_simps split: option.splits)
  then show "k \<notin> task_key ` set tids \<Longrightarrow> get (fail_all tids r) k = get r k"
    by (simp add: fail_all_def)
qed

lemma task_key_dedup [key_simps]: "task_key a \<noteq> requeue_dedup b"
  by (simp add: task_key_def requeue_dedup_def)

text \<open>
  Recovery of stuck tasks is safe. The tasks that phase 2 requeues are distinct and at
  most as many as allowed per turn; each was in the batch, had no live execution lock, was
  not requeued recently, is old enough and has attempts left. No record of a task is
  changed whose lock is alive or that was handled recently (circuit breaker aside).
\<close>

theorem stuck_recovery_safe:
  assumes "phase2_stuck_recovery rc now batch (qm, r) = (Inr ids, qm', r')"
  shows "distinct ids \<and> length ids \<le> stuck_max_per_tick rc
    \<and> (\<forall>tid \<in> set ids. get r (requeue_dedup tid) = None \<and> \<not> exists r (lock_key tid)
        \<and> (\<exists>t \<in> set batch. id_of t = tid \<and> too_young rc now t = Inr False)
        \<and> (\<exists>t \<in> set batch. id_of t = tid \<and> (\<exists>m a. dict_get t ''max_retries'' (PInt 0) = PInt m
             \<and> dict_get t ''attempt'' (PInt 0) = PInt a \<and> a < m)))
    \<and> (cb qm = None \<longrightarrow> (\<forall>tid. exists r (lock_key tid) \<or> get r (requeue_dedup tid) \<noteq> None \<longrightarrow>
         get r' (task_key tid) = get r (task_key tid)))"
proof -
  from assms obtain xs where xs: "with_status [''running'', ''queued''] batch = Inr xs"
    by (auto simp: phase2_stuck_recovery_def split: sum.splits)
  let ?ts = "map (\<lambda>t. (t, exists r (lock_key (id_of t)))) xs"
  let ?init = "\<lparr>stuck_count = 0, st_redis = r, requeue_tasks = [], fail_tasks = []\<rparr>"
  obtain st r1 where ex: "examine_all rc now ?ts ?init = (None, st)"
    and rq: "requeue_all now (requeue_tasks st) (qm, st_redis st) = (None, qm', r1)"
    and r': "r' = fail_all (fail_tasks st) r1"
    and ids: "ids = (if rec_db rc then map rq_task_id (requeue_tasks st) else [])"
    using assms xs by (auto simp: phase2_stuck_recovery_def split: prod.splits option.splits)
  have inv: "stuck_inv rc now r ?ts st" by (rule examine_all_inv [OF stuck_inv_init _ ex]) simp
  have sub: "set xs \<subseteq> set batch" by (rule with_status_sub [OF xs])
  have stuckD: "tid \<noteq> [] \<and> get r (requeue_dedup tid) = None \<and> \<not> exists r (lock_key tid)
      \<and> (\<exists>t \<in> set batch. id_of t = tid \<and> too_young rc now t = Inr False)" if "tid \<in> set (handled st)" for tid
  proof -
    have "stuck rc now r ?ts tid" using that inv by (simp add: stuck_inv_def)
    then obtain t where "tid \<noteq> []" "get r (requeue_dedup tid) = None" "t \<in> set xs" "id_of t = tid"
      "\<not> exists r (lock_key (id_of t))" "too_young rc now t = Inr False" by (auto simp: stuck_def)
    then show ?thesis using sub by blast
  qed
  have retr: "\<exists>t \<in> set batch. id_of t = rq_task_id q \<and> (\<exists>m a. dict_get t ''max_retries'' (PInt 0) = PInt m
      \<and> dict_get t ''attempt'' (PInt 0) = PInt a \<and> a < m)" if "q \<in> set (requeue_tasks st)" for q
    using that inv sub by (fastforce simp: stuck_inv_def retriable_def)
  have same: "get r' (task_key tid) = get r (task_key tid)"
    if "cb qm = None" and "exists r (lock_key tid) \<or> get r (requeue_dedup tid) \<noteq> None" for tid
  proof -
    have "tid \<notin> set (handled st)"
    proof
      assume "tid \<in> set (handled st)"
      from stuckD [OF this] that(2) show False by simp
    qed
    then have "task_key tid \<notin> task_key ` set (fail_tasks st)" by (auto simp: handled_def key_simps)
    then have "get r' (task_key tid) = get r1 (task_key tid)" by (simp add: r' fail_all_get)
    also have "\<dots> = get (st_redis st) (task_key tid)"
      using requeue_all_get [of "(qm, st_redis st)" now "requeue_tasks st" "task_key tid"] that(1) rq by simp
    also have "\<dots> = get r (task_key tid)"
    proof -
      have "task_key tid \<notin> range requeue_dedup" by (auto simp: key_simps)
      then show ?thesis using inv by (simp add: stuck_inv_def)
    qed
    finally show ?thesis .
  qed
  have "distinct (map rq_task_id (requeue_tasks st))" "length (requeue_tasks st) \<le> stuck_max_per_tick rc"
    using inv by (auto simp: stuck_inv_def handled_def)
  then have d: "distinct ids" "length ids \<le> stuck_max_per_tick rc" by (simp_all add: ids)
  have idsD: "\<exists>q \<in> set (requeue_tasks st). tid = rq_task_id q" "tid \<in> set (handled st)" if "tid \<in> set ids" for tid
    using that by (auto simp: ids handled_def split: if_splits)
  have "get r (requeue_dedup tid) = None \<and> \<not> exists r (lock_key tid)
        \<and> (\<exists>t \<in> set batch. id_of t = tid \<and> too_young rc now t = Inr False)
        \<and> (\<exists>t \<in> set batch. id_of t = tid \<and> (\<exists>m a. dict_get t ''max_retries'' (PInt 0) = PInt m
             \<and> dict_get t ''attempt'' (PInt 0) = PInt a \<and> a < m))" if tid: "tid \<in> set ids" for tid
  proof -
    obtain q where q: "q \<in> set (requeue_tasks st)" "tid = rq_task_id q" using idsD(1) [OF tid] by blast
    from stuckD [OF idsD(2) [OF tid]] retr [OF q(1)] show ?thesis unfolding q(2) by simp
  qed
  with d same show ?thesis by simp
qed

definition stuck_demo :: dict where
  "stuck_demo = [(''task_id'', PStr ''t''), (''status'', PStr ''running''), (''max_retries'', PInt 3), (''attempt'', PInt 1)]"

lemma stuck_demo_run:
  "fst (phase2_stuck_recovery (new_TaskReconciler ''a'') 1000 [stuck_demo] (new_QueueManager None, empty_redis)) = Inr [''t'']"
  by code_simp

theorem stuck_recovery_safe_witness:
  "\<exists>qm' r'. phase2_stuck_recovery (new_TaskReconciler ''a'') 1000 [stuck_demo] (new_QueueManager None, empty_redis)
      = (Inr [''t''], qm', r') \<and> \<not> exists empty_redis (lock_key ''t'')"
proof -
  obtain qm' r' where p: "phase2_stuck_recovery (new_TaskReconciler ''a'') 1000 [stuck_demo]
      (new_QueueManager None, empty_redis) = (Inr [''t''], qm', r')"
    using stuck_demo_run by (metis prod.collapse)
  from stuck_recovery_safe [OF p] p show ?thesis by auto
qed

subsection \<open>Rebuilding\<close>

lemma rebuild_row_get:
  "get (rebuild_row str_of datetime_str now row r) k =
     (if k = task_key (tr_task_id row) \<and> tr_task_id row \<noteq> [] \<and> empty_value (get r k)
      then Some (RJson (PDict (rebuilt_payload str_of datetime_str row))) else get r k)"
  by (auto simp: rebuild_row_def Let_def store_simps)

lemma rebuild_row_zscore:
  "zscore r k m \<noteq> None \<Longrightarrow> zscore (rebuild_row str_of datetime_str now row r) k m = zscore r k m"
  by (auto simp: rebuild_row_def Let_def store_simps)

lemma rebuild_get_keep:
  "\<not> empty_value (get r k) \<Longrightarrow> get (fold (rebuild_row str_of datetime_str now) rows r) k = get r k"
  by (induction rows arbitrary: r) (simp_all add: rebuild_row_get)

lemma rebuild_zscore_keep:
  "zscore r k m \<noteq> None \<Longrightarrow> zscore (fold (rebuild_row str_of datetime_str now) rows r) k m = zscore r k m"
proof (induction rows arbitrary: r)
  case (Cons row rows)
  from rebuild_row_zscore [OF Cons.prems, of str_of datetime_str now row] Cons show ?case by simp
qed simp

lemma rebuild_row_done:
  assumes "tr_task_id row \<noteq> []"
  shows "\<not> empty_value (get (rebuild_row str_of datetime_str now row r) (task_key (tr_task_id row)))"
    and "tr_task_type row \<noteq> [] \<Longrightarrow> tr_status row \<in> {QUEUED, SCHEDULED} \<Longrightarrow>
      \<exists>k \<in> {pending (tr_task_type row), running (tr_task_type row)}.
        zscore (rebuild_row str_of datetime_str now row r) k (RText (tr_task_id row)) \<noteq> None"
proof -
  show "\<not> empty_value (get (rebuild_row str_of datetime_str now row r) (task_key (tr_task_id row)))"
    using assms by (simp add: rebuild_row_get) (simp add: empty_value_def)
  show "\<exists>k \<in> {pending (tr_task_type row), running (tr_task_type row)}.
        zscore (rebuild_row str_of datetime_str now row r) k (RText (tr_task_id row)) \<noteq> None"
    if "tr_task_type row \<noteq> []" "tr_status row \<in> {QUEUED, SCHEDULED}"
    using assms that by (auto simp: rebuild_row_def Let_def store_simps)
qed



text \<open>
  The score that phase 0 gives is the time in seconds, below every score of a task that was
  queued with a priority of at least one: a restored task overtakes all of them.
\<close>

lemma rebuilt_outranks:
  assumes "now < of_int ts_base" and "1 \<le> p" and "0 \<le> ts"
  shows "now < encode_score p ts"
proof -
  have "ts_base \<le> p * ts_base" using assms(2) by (simp add: ts_base_def)
  then have "ts_base \<le> p * ts_base + ts" using assms(3) by simp
  then have "(of_int ts_base :: rat) \<le> of_int (p * ts_base + ts)" by (simp only: of_int_le_iff)
  then show ?thesis using assms(1) by (simp add: encode_score_def)
qed

text \<open>
  The callback that phase 3 queues is not sent: the completion node reads the bare
  identifier as an event, fails to decode it, and drops it without a delivery attempt.
\<close>

lemma phase3_callback_dropped:
  assumes "zscore r callback_retry (RText (id_of t)) = None"
  shows "process_event post node now' (RText (id_of t)) (compensate_callback now (t, False) r, w)
    = (Inr 0, zrem (compensate_callback now (t, False) r) callback_retry (RText (id_of t)), w)"
  using assms by (intro bare_identifier_dropped) (simp add: compensate_callback_def store_simps)

end
