(* ===== verification/Registry.thy ===== *)
theory Registry
  imports Redis_Store
begin

text \<open>
  \<^verbatim>\<open>BaseRedisRegistry\<close> (\<^verbatim>\<open>src/platform/base_registry.py\<close>): documents under
  \<^verbatim>\<open>prefix:tenant:item\<close>, a set of items per tenant and a set of tenants; and the registry of
  tenants and API keys built on it (\<^verbatim>\<open>src/platform/tenant_registry.py\<close>).

  The locale \<open>document_store\<close> states what the specialised registries rely on; it is
  interpreted on the base registry, whose keys keep tenants apart as long as tenant
  identifiers contain no colon.
\<close>

subsection \<open>The base registry\<close>

record BaseRedisRegistry =
  reg_prefix :: string
  reg_ttl :: int

fun rstrip_colon :: "string \<Rightarrow> string" where
  "rstrip_colon s = rev (dropWhile (\<lambda>c. c = CHR '':'') (rev s))"

definition new_registry :: "string \<Rightarrow> int \<Rightarrow> BaseRedisRegistry" where
  "new_registry key_prefix ttl_seconds = \<lparr>reg_prefix = rstrip_colon key_prefix, reg_ttl = ttl_seconds\<rparr>"

definition make_key :: "BaseRedisRegistry \<Rightarrow> string \<Rightarrow> string \<Rightarrow> string" where
  "make_key reg tenant item = reg_prefix reg @ '':'' @ tenant @ '':'' @ item"

definition index_key :: "BaseRedisRegistry \<Rightarrow> string \<Rightarrow> string" where
  "index_key reg tenant = reg_prefix reg @ '':index:'' @ tenant"

definition tenants_key :: "BaseRedisRegistry \<Rightarrow> string" where
  "tenants_key reg = reg_prefix reg @ '':tenants''"

text \<open>\<^verbatim>\<open>_json_loads\<close> of a reply; a missing key, an empty value and undecodable text give None.\<close>

definition json_loads :: "rval option \<Rightarrow> pyval" where
  "json_loads v = (case v of Some (RJson x) \<Rightarrow> x | Some (RNum i) \<Rightarrow> PInt i | _ \<Rightarrow> PNone)"

definition reg_get :: "BaseRedisRegistry \<Rightarrow> redis \<Rightarrow> string \<Rightarrow> string \<Rightarrow> pyval" where
  "reg_get reg r tenant item = json_loads (get r (make_key reg tenant item))"

definition reg_set :: "BaseRedisRegistry \<Rightarrow> redis \<Rightarrow> string \<Rightarrow> string \<Rightarrow> pyval \<Rightarrow> redis" where
  "reg_set reg r tenant item v =
     (let r1 = set_ex r (make_key reg tenant item) (RJson v) (if reg_ttl reg > 0 then Some (reg_ttl reg) else None)
      in sadd (sadd r1 (index_key reg tenant) item) (tenants_key reg) tenant)"

definition reg_delete :: "BaseRedisRegistry \<Rightarrow> redis \<Rightarrow> string \<Rightarrow> string \<Rightarrow> bool \<times> redis" where
  "reg_delete reg r tenant item =
     (if exists r (make_key reg tenant item)
      then (True, srem (delete_key r (make_key reg tenant item)) (index_key reg tenant) item)
      else (False, r))"

definition reg_list :: "BaseRedisRegistry \<Rightarrow> redis \<Rightarrow> string \<Rightarrow> string list" where
  "reg_list reg r tenant = smembers r (index_key reg tenant)"

definition list_all_tenants :: "BaseRedisRegistry \<Rightarrow> redis \<Rightarrow> string list" where
  "list_all_tenants reg r = smembers r (tenants_key reg)"

subsection \<open>The interface of the specialised registries\<close>

locale document_store =
  fixes lookup :: "'s \<Rightarrow> string \<Rightarrow> string \<Rightarrow> pyval"
    and put :: "'s \<Rightarrow> string \<Rightarrow> string \<Rightarrow> pyval \<Rightarrow> 's"
    and remove :: "'s \<Rightarrow> string \<Rightarrow> string \<Rightarrow> 's"
    and ids :: "'s \<Rightarrow> string \<Rightarrow> string list"
    and valid :: "string \<Rightarrow> bool"
  assumes lookup_put: "valid t \<Longrightarrow> valid t' \<Longrightarrow> lookup (put s t i v) t' i' = (if t' = t \<and> i' = i then v else lookup s t' i')"
    and lookup_remove: "valid t \<Longrightarrow> valid t' \<Longrightarrow> lookup (remove s t i) t' i' = (if t' = t \<and> i' = i then PNone else lookup s t' i')"
    and ids_put: "set (ids (put s t i v) t') = (if t' = t then insert i (set (ids s t')) else set (ids s t'))"
    and ids_remove: "valid t \<Longrightarrow> set (ids s t') - (if t' = t then {i} else {}) \<subseteq> set (ids (remove s t i) t')"
begin

text \<open>A history of writes and removals, each for some tenant.\<close>

fun apply_op :: "'s \<Rightarrow> string \<times> string \<times> pyval option \<Rightarrow> 's" where
  "apply_op s (t, i, Some v) = put s t i v"
| "apply_op s (t, i, None) = remove s t i"

lemma other_tenant:
  "\<forall>op \<in> set ops. fst op \<noteq> t \<and> valid (fst op) \<Longrightarrow> valid t \<Longrightarrow> lookup (foldl apply_op s ops) t i = lookup s t i"
proof (induction ops arbitrary: s)
  case (Cons op ops)
  obtain t' i' v where op: "op = (t', i', v)" by (cases op)
  then show ?case using Cons by (cases v) (auto simp: lookup_put lookup_remove)
qed simp

text \<open>Every document is listed: an invariant of writes and removals.\<close>

definition listed :: "'s \<Rightarrow> bool" where
  "listed s \<longleftrightarrow> (\<forall>t i. valid t \<longrightarrow> lookup s t i \<noteq> PNone \<longrightarrow> i \<in> set (ids s t))"

lemma listed_op: "listed s \<Longrightarrow> valid (fst op) \<Longrightarrow> listed (apply_op s op)"
proof -
  assume l: "listed s" and v: "valid (fst op)"
  obtain t i x where op: "op = (t, i, x)" by (cases op)
  show ?thesis
  proof (cases x)
    case None
    have "i' \<in> set (ids (remove s t i) t')" if "valid t'" "lookup (remove s t i) t' i' \<noteq> PNone" for t' i'
    proof -
      have "lookup s t' i' \<noteq> PNone" "\<not> (t' = t \<and> i' = i)" using that v op by (auto simp: lookup_remove split: if_splits)
      then have "i' \<in> set (ids s t') - (if t' = t then {i} else {})" using l that(1) by (auto simp: listed_def)
      then show ?thesis using ids_remove [of t s t' i] v op by auto
    qed
    then show ?thesis by (simp add: op None listed_def)
  next
    case (Some y)
    then show ?thesis using l v by (auto simp: op listed_def lookup_put ids_put)
  qed
qed

lemma listed_ops: "listed s \<Longrightarrow> \<forall>op \<in> set ops. valid (fst op) \<Longrightarrow> listed (foldl apply_op s ops)"
  by (induction ops arbitrary: s) (auto intro: listed_op)

end

definition colon_free :: "string \<Rightarrow> bool" where
  "colon_free s \<longleftrightarrow> CHR '':'' \<notin> set s"

lemma split_colon:
  "colon_free a \<Longrightarrow> colon_free b \<Longrightarrow> a @ CHR '':'' # x = b @ CHR '':'' # y \<longleftrightarrow> a = b \<and> x = y"
proof (induction a arbitrary: b)
  case Nil
  then show ?case by (cases b) (auto simp: colon_free_def)
next
  case (Cons c a)
  then show ?case by (cases b) (auto simp: colon_free_def)
qed

text \<open>
  A tenant called \<^verbatim>\<open>index\<close> would share keys with the item sets of the others.
\<close>

definition valid_tenant :: "string \<Rightarrow> bool" where
  "valid_tenant t \<longleftrightarrow> colon_free t \<and> t \<noteq> ''index''"

lemma make_key_inj [key_simps]:
  "valid_tenant a \<Longrightarrow> valid_tenant b \<Longrightarrow> make_key reg a x = make_key reg b y \<longleftrightarrow> a = b \<and> x = y"
  by (simp add: make_key_def split_colon valid_tenant_def)

lemma make_key_index [key_simps]: "valid_tenant a \<Longrightarrow> make_key reg a x \<noteq> index_key reg b"
  using split_colon [of a "''index''" x b] by (auto simp: make_key_def index_key_def valid_tenant_def colon_free_def)

lemmas index_make_key [key_simps] = make_key_index [symmetric]

lemma make_key_index_clash: "make_key reg ''index'' x = index_key reg x"
  by (simp add: make_key_def index_key_def)

lemma index_key_inj [key_simps]: "index_key reg a = index_key reg b \<longleftrightarrow> a = b"
  by (simp add: index_key_def)

lemma index_tenants [key_simps]: "index_key reg a \<noteq> tenants_key reg" "tenants_key reg \<noteq> index_key reg a"
  by (simp_all add: index_key_def tenants_key_def)

lemma not_exists_get: "\<not> exists r k \<Longrightarrow> get r k = None"
  by (simp add: exists_def get_def)

lemma reg_frames [store_simps]:
  "get (reg_set reg r t i v) k = (if k = make_key reg t i then Some (RJson v) else get r k)"
  "get (snd (reg_delete reg r t i)) k = (if k = make_key reg t i then None else get r k)"
  by (auto simp: reg_set_def reg_delete_def store_simps Let_def not_exists_get)

interpretation docs: document_store "reg_get reg" "reg_set reg" "\<lambda>r t i. snd (reg_delete reg r t i)" "reg_list reg" valid_tenant
proof
  fix t t' i i' v and s :: redis
  assume "valid_tenant t" "valid_tenant t'"
  then show "reg_get reg (reg_set reg s t i v) t' i' = (if t' = t \<and> i' = i then v else reg_get reg s t' i')"
    and "reg_get reg (snd (reg_delete reg s t i)) t' i' = (if t' = t \<and> i' = i then PNone else reg_get reg s t' i')"
    by (simp_all add: reg_get_def json_loads_def store_simps key_simps)
next
  fix t t' i v and s :: redis
  show "set (reg_list reg (reg_set reg s t i v) t') = (if t' = t then insert i (set (reg_list reg s t')) else set (reg_list reg s t'))"
    by (simp add: reg_list_def reg_set_def Let_def store_simps key_simps)
next
  fix t t' i and s :: redis
  assume "valid_tenant t"
  then show "set (reg_list reg s t') - (if t' = t then {i} else {}) \<subseteq> set (reg_list reg (snd (reg_delete reg s t i)) t')"
    by (auto simp: reg_list_def reg_delete_def store_simps key_simps)
qed

subsection \<open>Tenants and API keys\<close>

text \<open>
  \<open>sha\<close> is the hexadecimal SHA-256 digest and \<open>token\<close> the random part of a new key.
\<close>

definition tenant_reg :: BaseRedisRegistry where
  "tenant_reg = new_registry ''tenant'' 0"

definition api_keys_hash :: string where
  "api_keys_hash = ''tenant:api_keys''"

definition api_key_idx :: "string \<Rightarrow> string" where
  "api_key_idx tid = ''tenant:api_keys_idx:'' @ tid"

definition register_tenant :: "redis \<Rightarrow> dict \<Rightarrow> string + redis" where
  "register_tenant r tenant_info = (case dict_get tenant_info ''tenant_id'' (PStr []) of
      PStr tid \<Rightarrow> if tid = [] then Inl ''ValueError'' else Inr (reg_set tenant_reg r tid tid (PDict tenant_info))
    | _ \<Rightarrow> Inl ''ValueError'')"

definition generate_api_key :: "(string \<Rightarrow> string) \<Rightarrow> string \<Rightarrow> redis \<Rightarrow> string \<Rightarrow> string \<times> redis" where
  "generate_api_key sha token r tid =
     (let raw_key = ''ramu_'' @ token
      in (raw_key, sadd (hset r api_keys_hash (sha raw_key) (RText tid)) (api_key_idx tid) (sha raw_key)))"

definition verify_api_key_hash :: "(string \<Rightarrow> string) \<Rightarrow> redis \<Rightarrow> string \<Rightarrow> string option" where
  "verify_api_key_hash sha r api_key =
     (case hget r api_keys_hash (sha api_key) of Some (RText tid) \<Rightarrow> Some tid | _ \<Rightarrow> None)"

definition revoke_api_key :: "(string \<Rightarrow> string) \<Rightarrow> redis \<Rightarrow> string \<Rightarrow> string \<Rightarrow> bool \<times> redis" where
  "revoke_api_key sha r tid api_key =
     (hget r api_keys_hash (sha api_key) \<noteq> None,
      srem (hdel r api_keys_hash (sha api_key)) (api_key_idx tid) (sha api_key))"

definition unregister_tenant :: "redis \<Rightarrow> string \<Rightarrow> bool \<times> redis" where
  "unregister_tenant r tid =
     (let hs = smembers r (api_key_idx tid);
          r1 = (if hs = [] then r else delete_key (fold (\<lambda>kh r. hdel r api_keys_hash kh) hs r) (api_key_idx tid))
      in reg_delete tenant_reg r1 tid tid)"

text \<open>A stored string would be decoded once more; \<open>register_tenant\<close> stores objects.\<close>

definition get_tenant :: "redis \<Rightarrow> string \<Rightarrow> pyval" where
  "get_tenant r tid = reg_get tenant_reg r tid tid"

definition validate_key :: "(string \<Rightarrow> string) \<Rightarrow> redis \<Rightarrow> string \<Rightarrow> string option \<Rightarrow> pyval" where
  "validate_key sha r api_key tenant_id = (case verify_api_key_hash sha r api_key of
      None \<Rightarrow> PNone
    | Some tid \<Rightarrow> (case tenant_id of
          Some t \<Rightarrow> if tid \<noteq> t then PNone else get_tenant r tid
        | None \<Rightarrow> get_tenant r tid))"

record tenant_usage =
  gpu_count :: int
  task_count :: int
  actor_count :: int

definition usage_field :: "redis \<Rightarrow> string \<Rightarrow> string \<Rightarrow> int" where
  "usage_field r tid f = (case hget r (''tenant_usage:'' @ tid) f of Some (RNum n) \<Rightarrow> n | _ \<Rightarrow> 0)"

definition get_usage :: "redis \<Rightarrow> string \<Rightarrow> tenant_usage" where
  "get_usage r tid = \<lparr>gpu_count = usage_field r tid ''gpu_count'', task_count = usage_field r tid ''task_count'',
     actor_count = usage_field r tid ''actor_count''\<rparr>"

subsection \<open>Properties\<close>

lemma hget_more [store_simps]:
  "hget (hdel r k f) k' f' = (if k' = k \<and> f' = f then None else hget r k' f')"
  "hget (srem r k a) k' f' = hget r k' f'"
  "hget (delete_key r k) k' f' = (if k' = k then None else hget r k' f')"
  by (auto simp: hget_def hbucket_def hdel_def srem_def delete_key_def delete_conv' split: option.splits)

lemma smembers_hdel [store_simps]: "smembers (hdel r k f) k' = smembers r k'"
  by (simp add: smembers_def hdel_def split: option.splits)

lemma tenant_keys [key_simps]:
  "api_key_idx a = api_key_idx b \<longleftrightarrow> a = b" "api_keys_hash \<noteq> api_key_idx a" "api_key_idx a \<noteq> api_keys_hash"
  "api_keys_hash \<noteq> make_key tenant_reg a b" "tenants_key tenant_reg \<noteq> api_key_idx a" "index_key tenant_reg a \<noteq> api_key_idx b"
  by (auto simp: api_key_idx_def api_keys_hash_def make_key_def tenant_reg_def new_registry_def
      tenants_key_def index_key_def dest: arg_cong [where f = "\<lambda>x. CHR '':'' \<in> set x"])

text \<open>Every stored key digest is in the set of its tenant and of no other.\<close>

definition keys_indexed :: "redis \<Rightarrow> bool" where
  "keys_indexed r \<longleftrightarrow> (\<forall>h t. hget r api_keys_hash h = Some (RText t) \<longrightarrow> (\<forall>t'. h \<in> set (smembers r (api_key_idx t')) \<longleftrightarrow> t' = t))"

lemma fold_hdel_hget:
  "hget (fold (\<lambda>kh r. hdel r k kh) hs r) k' f = (if k' = k \<and> f \<in> set hs then None else hget r k' f)"
  by (induction hs arbitrary: r) (auto simp: store_simps)

lemma reg_delete_hget: "k \<noteq> make_key reg t i \<Longrightarrow> hget (snd (reg_delete reg r t i)) k f = hget r k f"
  by (simp add: reg_delete_def store_simps)

lemma unregister_hget:
  "hget (snd (unregister_tenant r tid)) api_keys_hash h =
     (if h \<in> set (smembers r (api_key_idx tid)) then None else hget r api_keys_hash h)"
  by (simp add: unregister_tenant_def Let_def reg_delete_hget key_simps store_simps fold_hdel_hget)

text \<open>
  C18. Life of an API key. In a store where every digest is indexed: a generated key is
  accepted for its tenant, stays out of the way of every key with another digest, and keeps
  the index right; a revoked key is refused; and once a tenant is unregistered none of its
  keys is accepted any more, while the keys of all other tenants are.
\<close>

theorem api_key_lifecycle:
  assumes "keys_indexed r" and "generate_api_key sha token r tid = (key, r')"
    and "\<forall>t. sha (''ramu_'' @ token) \<notin> set (smembers r (api_key_idx t))"
  shows "verify_api_key_hash sha r' key = Some tid \<and> keys_indexed r'
    \<and> (sha k \<noteq> sha key \<longrightarrow> verify_api_key_hash sha r' k = verify_api_key_hash sha r k)
    \<and> verify_api_key_hash sha (snd (revoke_api_key sha r' tid key)) key = None
    \<and> verify_api_key_hash sha (snd (unregister_tenant r' t)) k =
        (if verify_api_key_hash sha r' k = Some t then None else verify_api_key_hash sha r' k)"
proof -
  have key: "key = ''ramu_'' @ token" and r': "r' = sadd (hset r api_keys_hash (sha key) (RText tid)) (api_key_idx tid) (sha key)"
    using assms(2) by (auto simp: generate_api_key_def Let_def)
  have h: "hget r' api_keys_hash x = (if x = sha key then Some (RText tid) else hget r api_keys_hash x)" for x
    by (simp add: r' store_simps)
  have m: "set (smembers r' (api_key_idx t)) =
      (if t = tid then insert (sha key) (set (smembers r (api_key_idx t))) else set (smembers r (api_key_idx t)))" for t
    by (simp add: r' store_simps key_simps)
  have ind: "keys_indexed r'"
    using assms(1,3) unfolding keys_indexed_def h m key [symmetric] by auto
  have "hget (snd (unregister_tenant r' t)) api_keys_hash (sha k) =
      (if hget r' api_keys_hash (sha k) = Some (RText t) then None else hget r' api_keys_hash (sha k))
    \<or> (\<forall>u. hget r' api_keys_hash (sha k) \<noteq> Some (RText u))"
    using ind unfolding keys_indexed_def unregister_hget by auto
  then have u: "verify_api_key_hash sha (snd (unregister_tenant r' t)) k =
        (if verify_api_key_hash sha r' k = Some t then None else verify_api_key_hash sha r' k)"
    unfolding verify_api_key_hash_def unregister_hget by (auto split: option.splits rval.splits if_splits)
  show ?thesis
    using ind u by (simp add: verify_api_key_hash_def h revoke_api_key_def store_simps)
qed

theorem api_key_lifecycle_witness:
  "\<exists>key r'. keys_indexed empty_redis \<and> generate_api_key (\<lambda>s. s) ''x'' empty_redis ''acme'' = (key, r')
     \<and> verify_api_key_hash (\<lambda>s. s) r' key = Some ''acme''
     \<and> verify_api_key_hash (\<lambda>s. s) (snd (unregister_tenant r' ''acme'')) ''ramu_x'' = None"
proof -
  have i: "keys_indexed empty_redis"
    by (simp add: keys_indexed_def hget_def hbucket_def empty_redis_def)
  obtain key r' where g: "generate_api_key (\<lambda>s. s) ''x'' empty_redis ''acme'' = (key, r')" by fastforce
  have f: "\<forall>t. ''ramu_'' @ ''x'' \<notin> set (smembers empty_redis (api_key_idx t))"
    by (simp add: smembers_def empty_redis_def)
  have key: "key = ''ramu_x''" using g by (simp add: generate_api_key_def Let_def)
  from api_key_lifecycle [OF i g, of "''ramu_x''" "''acme''"] f i g key show ?thesis by auto
qed

text \<open>
  Registries keep tenants apart and their lists complete: writes and removals for other
  tenants never change what a tenant's items look up to, and from a store in which every
  document is listed, every document stays listed.
\<close>

theorem registry_isolated:
  assumes "\<forall>op \<in> set ops. valid_tenant (fst op)" and "valid_tenant t"
    and "r' = foldl (\<lambda>r (t, i, x). case x of Some v \<Rightarrow> reg_set reg r t i v | None \<Rightarrow> snd (reg_delete reg r t i)) r ops"
  shows "((\<forall>op \<in> set ops. fst op \<noteq> t) \<longrightarrow> reg_get reg r' t i = reg_get reg r t i)
    \<and> ((\<forall>t i. valid_tenant t \<longrightarrow> reg_get reg r t i \<noteq> PNone \<longrightarrow> i \<in> set (reg_list reg r t)) \<longrightarrow>
        reg_get reg r' t i \<noteq> PNone \<longrightarrow> i \<in> set (reg_list reg r' t))"
proof -
  have "docs.apply_op reg = (\<lambda>r (t, i, x). case x of Some v \<Rightarrow> reg_set reg r t i v | None \<Rightarrow> snd (reg_delete reg r t i))"
    by (intro ext) (auto simp: docs.apply_op.simps split: option.splits)
  then have r': "r' = foldl (docs.apply_op reg) r ops" by (simp add: assms(3))
  show ?thesis
    using docs.other_tenant [of ops t reg r i] docs.listed_ops [of reg r ops] assms(1,2)
    unfolding r' docs.listed_def by blast
qed

theorem registry_isolated_witness:
  "reg_get tenant_reg (reg_set tenant_reg empty_redis ''a'' ''x'' (PInt 1)) ''b'' ''x'' = PNone"
  using registry_isolated [where ops = "[(''a'', ''x'', Some (PInt 1))]" and t = "''b''" and r = empty_redis and reg = tenant_reg
      and r' = "reg_set tenant_reg empty_redis ''a'' ''x'' (PInt 1)" and i = "''x''"]
  by (simp add: valid_tenant_def colon_free_def reg_get_def json_loads_def get_def empty_redis_def)

end
