(* ===== verification/Health_Registry.thy ===== *)
theory Health_Registry
  imports Registry
begin

text \<open>
  \<^verbatim>\<open>CapabilityRegistry\<close> (\<^verbatim>\<open>src/platform/capability_registry.py\<close>) with its three-state health
  machine. The machine itself is \<open>health_step\<close>; \<open>lua_update_health\<close> is the script that runs
  it on the stored counters and copies the state into the capability's document.

  Of \<^verbatim>\<open>CapabilityInfo\<close> the name and the health state are read back; the document also keeps
  the other fields. Documents in the registry are dumps of validated objects, so only these
  two fields are checked again here.
\<close>

datatype HealthStatus = HEALTHY | DEGRADED | UNHEALTHY

fun health_value :: "HealthStatus \<Rightarrow> string" where
  "health_value HEALTHY = ''healthy''"
| "health_value DEGRADED = ''degraded''"
| "health_value UNHEALTHY = ''unhealthy''"

definition health_of_value :: "string \<Rightarrow> HealthStatus option" where
  "health_of_value v = List.find (\<lambda>s. health_value s = v) [HEALTHY, DEGRADED, UNHEALTHY]"

record CapabilityInfo =
  capability_name :: string
  health_status :: HealthStatus
  cap_doc :: dict

definition validate_capability :: "pyval \<Rightarrow> CapabilityInfo option" where
  "validate_capability v = (case v of
      PDict d \<Rightarrow>
        (case (map_of d ''capability_name'', dict_get d ''health_status'' (PStr ''healthy'')) of
           (Some (PStr n), PStr h) \<Rightarrow>
             map_option (\<lambda>s. \<lparr>capability_name = n, health_status = s, cap_doc = d\<rparr>) (health_of_value h)
         | _ \<Rightarrow> None)
    | _ \<Rightarrow> None)"

definition cap_index :: string where
  "cap_index = ''capabilities:all''"

definition health_key :: "string \<Rightarrow> string" where
  "health_key name = ''capability_health:'' @ name"

definition global_tenant :: string where
  "global_tenant = ''_global_''"

definition cap_reg :: BaseRedisRegistry where
  "cap_reg = new_registry ''capability'' 0"

definition cap_key :: "string \<Rightarrow> string" where
  "cap_key name = make_key cap_reg global_tenant name"

subsection \<open>The health machine\<close>

record health =
  h_status :: string
  consec_ok :: int
  consec_fail :: int

definition next_health :: "int \<Rightarrow> int \<Rightarrow> string \<Rightarrow> int \<Rightarrow> int \<Rightarrow> string" where
  "next_health unhealthy_thresh healthy_thresh status oks fails =
     (if (status = ''unhealthy'' \<or> status = ''degraded'') \<and> oks \<ge> healthy_thresh then ''healthy''
      else if status = ''healthy'' \<and> fails \<ge> 2 then ''degraded''
      else if status = ''degraded'' \<and> fails \<ge> unhealthy_thresh then ''unhealthy''
      else status)"

definition health_step :: "int \<Rightarrow> int \<Rightarrow> bool \<Rightarrow> health \<Rightarrow> health" where
  "health_step ut ht ok h =
     (let oks = (if ok then consec_ok h + 1 else 0); fails = (if ok then 0 else consec_fail h + 1)
      in \<lparr>h_status = next_health ut ht (h_status h) oks fails, consec_ok = oks, consec_fail = fails\<rparr>)"

definition read_health :: "redis \<Rightarrow> string \<Rightarrow> health" where
  "read_health r hkey = \<lparr>
     h_status = (case hget r hkey ''status'' of Some (RText s) \<Rightarrow> s | _ \<Rightarrow> ''healthy''),
     consec_ok = (case hget r hkey ''consec_ok'' of Some (RNum n) \<Rightarrow> n | _ \<Rightarrow> 0),
     consec_fail = (case hget r hkey ''consec_fail'' of Some (RNum n) \<Rightarrow> n | _ \<Rightarrow> 0)\<rparr>"

definition write_health :: "redis \<Rightarrow> string \<Rightarrow> health \<Rightarrow> redis" where
  "write_health r hkey h = hset (hset (hset r hkey ''status'' (RText (h_status h)))
     hkey ''consec_ok'' (RNum (consec_ok h))) hkey ''consec_fail'' (RNum (consec_fail h))"

text \<open>A document that is no object makes the script fail after the counters were written.\<close>

definition lua_update_health ::
  "redis \<Rightarrow> string \<Rightarrow> string \<Rightarrow> bool \<Rightarrow> int \<Rightarrow> int \<Rightarrow> (string + string) \<times> redis" where
  "lua_update_health r hkey capkey ok ut ht =
     (let h = health_step ut ht ok (read_health r hkey); r1 = write_health r hkey h
      in case get r capkey of
           None \<Rightarrow> (Inr (h_status h), r1)
         | Some (RJson (PDict d)) \<Rightarrow>
             (Inr (h_status h), set_ex r1 capkey (RJson (PDict (dict_set d ''health_status'' (PStr (h_status h))))) None)
         | Some _ \<Rightarrow> (Inl ''ResponseError'', r1))"

subsection \<open>Operations\<close>

definition register_capability :: "redis \<Rightarrow> CapabilityInfo \<Rightarrow> redis" where
  "register_capability r cap =
     write_health
       (sadd (reg_set cap_reg r global_tenant (capability_name cap) (PDict (cap_doc cap))) cap_index (capability_name cap))
       (health_key (capability_name cap))
       \<lparr>h_status = health_value (health_status cap), consec_ok = 0, consec_fail = 0\<rparr>"

text \<open>\<^verbatim>\<open>get_capability\<close>: a document that does not validate raises, which is logged and gives None.\<close>

definition get_capability :: "redis \<Rightarrow> string \<Rightarrow> CapabilityInfo option" where
  "get_capability r name = (case reg_get cap_reg r global_tenant name of
      PNone \<Rightarrow> None | v \<Rightarrow> validate_capability v)"

definition find_capability :: "redis \<Rightarrow> string \<Rightarrow> CapabilityInfo option" where
  "find_capability r name = (case get_capability r name of
      None \<Rightarrow> None
    | Some cap \<Rightarrow> if health_status cap = UNHEALTHY then None else Some cap)"

definition list_all_capabilities :: "redis \<Rightarrow> CapabilityInfo list" where
  "list_all_capabilities r =
     List.map_filter (\<lambda>name. case get r (cap_key name) of
         Some (RJson v) \<Rightarrow> validate_capability v
       | _ \<Rightarrow> None) (smembers r cap_index)"

definition unregister_capability :: "redis \<Rightarrow> string \<Rightarrow> redis" where
  "unregister_capability r name =
     srem (delete_key (snd (reg_delete cap_reg r global_tenant name)) (health_key name)) cap_index name"

definition update_health :: "redis \<Rightarrow> string \<Rightarrow> bool \<Rightarrow> int \<Rightarrow> int \<Rightarrow> (string + HealthStatus) \<times> redis" where
  "update_health r name success ut ht =
     (case lua_update_health r (health_key name) (cap_key name) success ut ht of
        (Inl e, r') \<Rightarrow> (Inl e, r')
      | (Inr s, r') \<Rightarrow> (case health_of_value s of None \<Rightarrow> (Inl ''ValueError'', r') | Some h \<Rightarrow> (Inr h, r')))"

subsection \<open>The machine\<close>

fun health_run :: "int \<Rightarrow> int \<Rightarrow> bool list \<Rightarrow> health \<Rightarrow> health" where
  "health_run ut ht [] h = h"
| "health_run ut ht (ok # oks) h = health_run ut ht oks (health_step ut ht ok h)"

definition health_ok :: "health \<Rightarrow> bool" where
  "health_ok h \<longleftrightarrow> h_status h \<in> {''healthy'', ''degraded'', ''unhealthy''} \<and> 0 \<le> consec_ok h \<and> 0 \<le> consec_fail h"

lemma health_step_ok: "health_ok h \<Longrightarrow> health_ok (health_step ut ht ok h)"
  by (auto simp: health_ok_def health_step_def next_health_def Let_def)

lemma health_run_ok: "health_ok h \<Longrightarrow> health_ok (health_run ut ht oks h)"
  by (induction oks arbitrary: h) (simp_all add: health_step_ok)

lemma health_run_Suc:
  "health_run ut ht (replicate (Suc n) b) h = health_step ut ht b (health_run ut ht (replicate n b) h)"
  by (induction n arbitrary: h) simp_all

lemma run_successes:
  "health_ok h \<Longrightarrow> consec_ok (health_run ut ht (replicate n True) h) \<ge> consec_ok h + int n
     \<and> (h_status h = ''healthy'' \<longrightarrow> h_status (health_run ut ht (replicate n True) h) = ''healthy'')"
proof (induction n arbitrary: h)
  case (Suc n)
  from Suc.IH [OF health_step_ok [OF Suc.prems], of ut ht True] show ?case
    by (auto simp: health_step_def next_health_def Let_def)
qed (simp add: health_ok_def)

lemma recover_run:
  assumes "health_ok h" and "0 < n" and "ht \<le> int n"
  shows "h_status (health_run ut ht (replicate n True) h) = ''healthy''"
proof -
  obtain m where n: "n = Suc m" using assms(2) by (cases n) auto
  let ?h = "health_run ut ht (replicate m True) h"
  have ok: "health_ok ?h" by (rule health_run_ok [OF assms(1)])
  have "consec_ok ?h + 1 \<ge> ht"
    using run_successes [OF assms(1), of m ut ht] assms(1,3) by (simp add: n health_ok_def)
  moreover have "health_run ut ht (replicate n True) h = health_step ut ht True ?h"
    unfolding n by (rule health_run_Suc)
  ultimately show ?thesis
    using ok by (auto simp: health_step_def next_health_def Let_def health_ok_def)
qed

lemma fail_steps:
  assumes "health_ok h" and "0 < ht"
  shows "int n \<le> consec_fail (health_run ut ht (replicate n False) h)
    \<and> (2 \<le> n \<longrightarrow> h_status (health_run ut ht (replicate n False) h) \<noteq> ''healthy'')
    \<and> (3 \<le> n \<and> ut \<le> int n \<longrightarrow> h_status (health_run ut ht (replicate n False) h) = ''unhealthy'')"
proof (induction n)
  case 0
  then show ?case using assms by (simp add: health_ok_def)
next
  case (Suc n)
  let ?h = "health_run ut ht (replicate n False) h"
  have "health_run ut ht (replicate (Suc n) False) h = health_step ut ht False ?h"
    by (rule health_run_Suc)
  moreover have "health_ok ?h" by (rule health_run_ok [OF assms(1)])
  ultimately show ?case
    using Suc assms(2) by (auto simp: health_step_def next_health_def Let_def health_ok_def)
qed

text \<open>
  The health machine debounces: from every state, as many successes in a row as the
  recovery threshold lead to healthy, and as many failures in a row as the failure
  threshold (but three at least) lead to unhealthy; a single failure after a success never
  makes a healthy capability degraded.
\<close>

theorem health_debounced:
  assumes "health_ok h" and "0 < ht"
  shows "(ht \<le> int n \<longrightarrow> h_status (health_run ut ht (replicate n True) h) = ''healthy'')
    \<and> (3 \<le> n \<and> ut \<le> int n \<longrightarrow> h_status (health_run ut ht (replicate n False) h) = ''unhealthy'')
    \<and> (h_status h = ''healthy'' \<and> consec_fail h = 0 \<longrightarrow> h_status (health_step ut ht False h) = ''healthy'')"
proof -
  have "ht \<le> int n \<Longrightarrow> 0 < n" using assms(2) by simp
  then show ?thesis
    using recover_run [OF assms(1), of n ht ut] fail_steps [OF assms, of n ut] assms
    by (auto simp: health_step_def next_health_def Let_def)
qed

theorem health_debounced_witness:
  "h_status (health_run 3 2 (replicate 3 False) \<lparr>h_status = ''healthy'', consec_ok = 0, consec_fail = 0\<rparr>) = ''unhealthy''
   \<and> h_status (health_run 3 2 (replicate 2 True) \<lparr>h_status = ''unhealthy'', consec_ok = 0, consec_fail = 9\<rparr>) = ''healthy''"
  using health_debounced [of "\<lparr>h_status = ''healthy'', consec_ok = 0, consec_fail = 0\<rparr>" 2 3 3]
    health_debounced [of "\<lparr>h_status = ''unhealthy'', consec_ok = 0, consec_fail = 9\<rparr>" 2 2 3]
  by (simp add: health_ok_def)

subsection \<open>The registry\<close>

lemma health_values [simp]: "health_of_value (health_value s) = Some s"
  by (cases s) (simp_all add: health_of_value_def)

lemma read_write_health [simp]: "read_health (write_health r k h) k = h"
  by (simp add: read_health_def write_health_def store_simps)

lemma write_health_get [store_simps]: "get (write_health r k h) k' = get r k'"
  by (simp add: write_health_def store_simps)

lemma health_step_value:
  "h_status h \<in> health_value ` UNIV \<Longrightarrow> h_status (health_step ut ht ok h) \<in> health_value ` UNIV"
proof -
  have u: "(UNIV :: HealthStatus set) = {HEALTHY, DEGRADED, UNHEALTHY}" using HealthStatus.exhaust by auto
  show "h_status h \<in> health_value ` UNIV \<Longrightarrow> h_status (health_step ut ht ok h) \<in> health_value ` UNIV"
    by (auto simp: u health_step_def next_health_def Let_def)
qed

text \<open>
  A capability is registered when its document is stored and carries the state of its
  counters.
\<close>

definition registered :: "redis \<Rightarrow> string \<Rightarrow> HealthStatus \<Rightarrow> bool" where
  "registered r name s \<longleftrightarrow> h_status (read_health r (health_key name)) = health_value s
     \<and> (\<exists>cap. get_capability r name = Some cap \<and> health_status cap = s)"

lemma get_capability_doc:
  "get_capability r name = Some cap \<longleftrightarrow> (\<exists>d n h. get r (cap_key name) = Some (RJson (PDict d))
     \<and> map_of d ''capability_name'' = Some (PStr n) \<and> dict_get d ''health_status'' (PStr ''healthy'') = PStr h
     \<and> health_of_value h = Some (health_status cap) \<and> cap = \<lparr>capability_name = n, health_status = health_status cap, cap_doc = d\<rparr>)"
  by (auto simp: get_capability_def reg_get_def json_loads_def cap_key_def validate_capability_def
      split: option.splits rval.splits pyval.splits prod.splits)

text \<open>
  Registration and health reports keep the document and the counters of a capability in
  agreement: right after registration the capability is found in its own state, a report
  returns exactly the state that lookups then see, and \<^verbatim>\<open>find_capability\<close> hides it exactly
  while it is unhealthy.
\<close>

theorem capability_health_visible:
  "(map_of (cap_doc cap) ''capability_name'' = Some (PStr (capability_name cap)) \<and>
      dict_get (cap_doc cap) ''health_status'' (PStr ''healthy'') = PStr (health_value (health_status cap)) \<longrightarrow>
        registered (register_capability r cap) (capability_name cap) (health_status cap))
   \<and> (registered r name s \<longrightarrow>
        (\<exists>s' r'. update_health r name ok ut ht = (Inr s', r') \<and> registered r' name s'
           \<and> health_value s' = h_status (health_step ut ht ok (read_health r (health_key name)))))
   \<and> (registered r name s \<longrightarrow> (find_capability r name = None \<longleftrightarrow> s = UNHEALTHY))"
proof (intro conjI impI)
  assume d: "map_of (cap_doc cap) ''capability_name'' = Some (PStr (capability_name cap)) \<and>
      dict_get (cap_doc cap) ''health_status'' (PStr ''healthy'') = PStr (health_value (health_status cap))"
  have "get_capability (register_capability r cap) (capability_name cap) =
      Some \<lparr>capability_name = capability_name cap, health_status = health_status cap, cap_doc = cap_doc cap\<rparr>"
    unfolding get_capability_doc using d by (simp add: register_capability_def store_simps cap_key_def)
  then show "registered (register_capability r cap) (capability_name cap) (health_status cap)"
    by (simp add: registered_def register_capability_def)
next
  assume reg: "registered r name s"
  let ?h = "health_step ut ht ok (read_health r (health_key name))"
  obtain s' where s': "h_status ?h = health_value s'"
    using health_step_value [of "read_health r (health_key name)" ut ht ok] reg by (auto simp: registered_def)
  from reg obtain cap where "get_capability r name = Some cap" by (auto simp: registered_def)
  then obtain d n where d: "get r (cap_key name) = Some (RJson (PDict d))" "map_of d ''capability_name'' = Some (PStr n)"
    unfolding get_capability_doc by blast
  let ?d = "dict_set d ''health_status'' (PStr (health_value s'))"
  let ?r = "set_ex (write_health r (health_key name) ?h) (cap_key name) (RJson (PDict ?d)) None"
  have "get_capability ?r name = Some \<lparr>capability_name = n, health_status = s', cap_doc = ?d\<rparr>"
    unfolding get_capability_doc using d by (simp add: store_simps)
  moreover have "read_health ?r (health_key name) = ?h"
    by (simp add: read_health_def write_health_def store_simps)
  ultimately have "registered ?r name s'" by (simp add: registered_def s')
  moreover have "update_health r name ok ut ht = (Inr s', ?r)"
    using d s' by (simp add: update_health_def lua_update_health_def Let_def)
  ultimately show "\<exists>s' r'. update_health r name ok ut ht = (Inr s', r') \<and> registered r' name s' \<and> health_value s' = h_status ?h"
    using s' by metis
next
  assume "registered r name s"
  then show "find_capability r name = None \<longleftrightarrow> s = UNHEALTHY"
    by (auto simp: registered_def find_capability_def split: if_splits)
qed

definition demo_cap :: CapabilityInfo where
  "demo_cap = \<lparr>capability_name = ''ocr'', health_status = HEALTHY, cap_doc = [(''capability_name'', PStr ''ocr''), (''health_status'', PStr ''healthy'')]\<rparr>"

theorem capability_health_visible_witness:
  "registered (register_capability empty_redis demo_cap) ''ocr'' HEALTHY
   \<and> find_capability (register_capability empty_redis demo_cap) ''ocr'' \<noteq> None"
proof -
  have "registered (register_capability empty_redis demo_cap) ''ocr'' HEALTHY"
    using capability_health_visible [of demo_cap empty_redis] by (simp add: demo_cap_def dict_get_def)
  then show ?thesis
    using capability_health_visible [where r = "register_capability empty_redis demo_cap" and name = "''ocr''" and s = HEALTHY]
    by simp
qed

end
