(* ===== verification/Cluster_Registry.thy ===== *)
theory Cluster_Registry
  imports Health_Registry "HOL-Library.Product_Lexorder"
begin

text \<open>
  The registries of machine nodes and of clusters (\<^verbatim>\<open>src/platform/node_registry.py\<close>,
  \<^verbatim>\<open>src/platform/cluster_registry.py\<close>) with the models they validate
  (\<^verbatim>\<open>src/models/node.py\<close>, \<^verbatim>\<open>src/models/cluster.py\<close>): reservation of a node by a Lua script,
  greedy selection of nodes by GPUs, detection of dead nodes, and selection of the best
  cluster. Validation reads the fields the registries use, with their defaults; numbers are
  integers or rationals as declared.
\<close>

subsection \<open>Nodes\<close>

datatype NodeState = IDLE | RESERVED | JOINING | JOINED | DRAINING | OFFLINE

fun node_state_value :: "NodeState \<Rightarrow> string" where
  "node_state_value IDLE = ''idle''"
| "node_state_value RESERVED = ''reserved''"
| "node_state_value JOINING = ''joining''"
| "node_state_value JOINED = ''joined''"
| "node_state_value DRAINING = ''draining''"
| "node_state_value OFFLINE = ''offline''"

definition node_state_of :: "string \<Rightarrow> NodeState option" where
  "node_state_of v = List.find (\<lambda>s. node_state_value s = v) [IDLE, RESERVED, JOINING, JOINED, DRAINING, OFFLINE]"

record NodeResources =
  nr_total_cpus :: int
  nr_total_memory_mb :: int
  nr_total_gpus :: int
  ray_resources_total :: "(string \<times> rat) list"
  ray_sync_time :: rat

definition new_NodeResources :: NodeResources where
  "new_NodeResources = \<lparr>nr_total_cpus = 0, nr_total_memory_mb = 0, nr_total_gpus = 0,
     ray_resources_total = [], ray_sync_time = 0\<rparr>"

definition is_ray_synced :: "NodeResources \<Rightarrow> bool" where
  "is_ray_synced n \<longleftrightarrow> ray_sync_time n > 0 \<and> ray_resources_total n \<noteq> []"

definition get_effective_cpus :: "NodeResources \<Rightarrow> int" where
  "get_effective_cpus n = (if is_ray_synced n
     then (case map_of (ray_resources_total n) ''CPU'' of None \<Rightarrow> nr_total_cpus n | Some q \<Rightarrow> trunc q)
     else nr_total_cpus n)"

definition get_effective_memory_mb :: "NodeResources \<Rightarrow> int" where
  "get_effective_memory_mb n = (if is_ray_synced n
     then (let mem = (case map_of (ray_resources_total n) ''memory'' of None \<Rightarrow> 0 | Some q \<Rightarrow> q)
           in if mem \<noteq> 0 then trunc (mem / (1024 * 1024)) else nr_total_memory_mb n)
     else nr_total_memory_mb n)"

definition get_effective_gpus :: "NodeResources \<Rightarrow> int" where
  "get_effective_gpus n = (if is_ray_synced n
     then (case map_of (ray_resources_total n) ''GPU'' of None \<Rightarrow> nr_total_gpus n | Some q \<Rightarrow> trunc q)
     else nr_total_gpus n)"

record NodeInfo =
  node_id :: string
  node_state :: NodeState
  node_resources :: NodeResources
  node_host :: string
  node_agent_port :: int

fun num_field :: "pyval \<Rightarrow> rat option" where
  "num_field (PInt i) = Some (of_int i)"
| "num_field (PFloat q) = Some q"
| "num_field _ = None"

text \<open>A missing field has its default; a field of another type is rejected.\<close>

definition int_field :: "dict \<Rightarrow> string \<Rightarrow> int \<Rightarrow> int option" where
  "int_field d k dflt = (case map_of d k of None \<Rightarrow> Some dflt | Some (PInt i) \<Rightarrow> Some i | _ \<Rightarrow> None)"

definition str_field :: "dict \<Rightarrow> string \<Rightarrow> string \<Rightarrow> string option" where
  "str_field d k dflt = (case map_of d k of None \<Rightarrow> Some dflt | Some (PStr s) \<Rightarrow> Some s | _ \<Rightarrow> None)"

fun num_dict :: "dict \<Rightarrow> (string \<times> rat) list option" where
  "num_dict [] = Some []"
| "num_dict ((k, v) # d) = (case (num_field v, num_dict d) of (Some q, Some e) \<Rightarrow> Some ((k, q) # e) | _ \<Rightarrow> None)"

definition validate_resources :: "pyval \<Rightarrow> NodeResources option" where
  "validate_resources v = (case v of
      PDict d \<Rightarrow>
        (case (int_field d ''total_cpus'' 0, int_field d ''total_memory_mb'' 0, int_field d ''total_gpus'' 0,
               dict_get d ''ray_resources_total'' (PDict []), num_field (dict_get d ''ray_sync_time'' (PFloat 0))) of
           (Some c, Some m, Some g, PDict e, Some t) \<Rightarrow>
             map_option (\<lambda>e'. \<lparr>nr_total_cpus = c, nr_total_memory_mb = m, nr_total_gpus = g,
                 ray_resources_total = e', ray_sync_time = t\<rparr>) (num_dict e)
         | _ \<Rightarrow> None)
    | _ \<Rightarrow> None)"

definition validate_node :: "pyval \<Rightarrow> NodeInfo option" where
  "validate_node v = (case v of
      PDict d \<Rightarrow>
        (case (map_of d ''node_id'', str_field d ''state'' ''idle'', validate_resources (dict_get d ''resources'' (PDict [])),
               str_field d ''host'' [], int_field d ''agent_port'' 9100) of
           (Some (PStr i), Some st, Some res, Some h, Some p) \<Rightarrow>
             map_option (\<lambda>s. \<lparr>node_id = i, node_state = s, node_resources = res, node_host = h, node_agent_port = p\<rparr>)
               (node_state_of st)
         | _ \<Rightarrow> None)
    | _ \<Rightarrow> None)"

definition heartbeat_zset :: string where
  "heartbeat_zset = ''nodes:heartbeat''"

definition lease_key :: "string \<Rightarrow> string" where
  "lease_key n = ''node_lease:'' @ n"

definition node_index :: string where
  "node_index = ''nodes:all''"

definition node_reg :: BaseRedisRegistry where
  "node_reg = new_registry ''node'' 0"

definition node_key :: "string \<Rightarrow> string" where
  "node_key n = make_key node_reg global_tenant n"

definition register_node :: "redis \<Rightarrow> time \<Rightarrow> dict \<Rightarrow> string + redis" where
  "register_node r now node_info = (case map_of node_info ''node_id'' of
      Some (PStr n) \<Rightarrow>
        (let d1 = (case map_of node_info ''registered_at'' of
                     None \<Rightarrow> dict_set node_info ''registered_at'' (PFloat now) | Some _ \<Rightarrow> node_info);
             d2 = dict_set d1 ''last_heartbeat'' (PFloat now)
         in Inr (zadd (sadd (reg_set node_reg r global_tenant n (PDict d2)) node_index n) heartbeat_zset (RText n) now))
    | _ \<Rightarrow> Inl ''KeyError'')"

text \<open>
  \<^verbatim>\<open>NodeRegistry.get(tenant, id)\<close>: a validated object, or the raw value when it does not
  validate.
\<close>

datatype node_item = Missing | Info NodeInfo | Raw pyval

definition node_get :: "redis \<Rightarrow> string \<Rightarrow> node_item" where
  "node_get r n = (case reg_get node_reg r global_tenant n of
      PNone \<Rightarrow> Missing
    | v \<Rightarrow> (case validate_node v of Some i \<Rightarrow> Info i | None \<Rightarrow> Raw v))"

definition get_node :: "redis \<Rightarrow> string \<Rightarrow> NodeInfo option" where
  "get_node r n = (case reg_get node_reg r global_tenant n of PNone \<Rightarrow> None | v \<Rightarrow> validate_node v)"

text \<open>
  Item assignment: a validated object does not support it and raises; the reply is the
  error or the updated dictionary.
\<close>

definition set_items :: "node_item \<Rightarrow> dict \<Rightarrow> string + dict" where
  "set_items item upd = (case item of Raw (PDict d) \<Rightarrow> Inr (dict_merge d upd) | _ \<Rightarrow> Inl ''TypeError'')"

text \<open>\<^verbatim>\<open>heartbeat\<close>: an exception is logged and swallowed.\<close>

definition heartbeat :: "redis \<Rightarrow> time \<Rightarrow> string \<Rightarrow> pyval \<Rightarrow> redis" where
  "heartbeat r now n resources = (case node_get r n of
      Missing \<Rightarrow> r
    | item \<Rightarrow>
        (case set_items item ((''last_heartbeat'', PFloat now) #
                (if truthy resources then [(''resources'', resources)] else [])) of
           Inl e \<Rightarrow> r
         | Inr d \<Rightarrow> zadd (reg_set node_reg r global_tenant n (PDict d)) heartbeat_zset (RText n) now))"

definition update_state :: "redis \<Rightarrow> string \<Rightarrow> string \<Rightarrow> dict \<Rightarrow> string + redis" where
  "update_state r n st extra = (case node_get r n of
      Missing \<Rightarrow> Inr r
    | item \<Rightarrow> (case set_items item ((''state'', PStr st) # extra) of
          Inl e \<Rightarrow> Inl e
        | Inr d \<Rightarrow> Inr (reg_set node_reg r global_tenant n (PDict d))))"

definition mark_joined :: "redis \<Rightarrow> string \<Rightarrow> string \<Rightarrow> string + redis" where
  "mark_joined r n ip = update_state r n ''joined'' [(''ray_node_ip'', PStr ip)]"

definition mark_released :: "redis \<Rightarrow> string \<Rightarrow> string + redis" where
  "mark_released r n = map_sum id (\<lambda>r'. delete_key r' (lease_key n)) (update_state r n ''idle'' [(''cluster_id'', PStr [])])"

definition mark_draining :: "redis \<Rightarrow> string \<Rightarrow> string + redis" where
  "mark_draining r n = update_state r n ''draining'' []"

definition mark_offline :: "redis \<Rightarrow> string \<Rightarrow> string + redis" where
  "mark_offline r n = map_sum id (\<lambda>r'. zrem r' heartbeat_zset (RText n)) (update_state r n ''offline'' [])"

definition list_all_nodes :: "redis \<Rightarrow> NodeInfo list" where
  "list_all_nodes r =
     List.map_filter (\<lambda>n. case get r (node_key n) of Some (RJson v) \<Rightarrow> validate_node v | _ \<Rightarrow> None) (smembers r node_index)"

text \<open>The greedy loop over the candidates, with the GPUs collected so far.\<close>

fun take_until :: "int \<Rightarrow> int \<Rightarrow> NodeInfo list \<Rightarrow> NodeInfo list" where
  "take_until required got [] = []"
| "take_until required got (n # ns) =
     (if got \<ge> required then []
      else n # take_until required (got + get_effective_gpus (node_resources n)) ns)"

definition idle_nodes :: "NodeInfo list \<Rightarrow> NodeInfo list" where
  "idle_nodes ns = sort_key (\<lambda>n. - get_effective_gpus (node_resources n))
     (filter (\<lambda>n. node_state n = IDLE \<and> get_effective_gpus (node_resources n) > 0) ns)"

definition select_nodes :: "redis \<Rightarrow> int \<Rightarrow> NodeInfo list" where
  "select_nodes r required = take_until required 0 (idle_nodes (list_all_nodes r))"

text \<open>
  The script: an error reply becomes an exception of the client. A document that is no
  object makes it fail as well.
\<close>

definition lua_reserve :: "redis \<Rightarrow> string \<Rightarrow> string \<Rightarrow> string \<Rightarrow> int \<Rightarrow> (string + unit) \<times> redis" where
  "lua_reserve r key lease cid ttl_ms = (case get r key of
      None \<Rightarrow> (Inl ''node_not_found'', r)
    | Some (RJson (PDict d)) \<Rightarrow>
        if map_of d ''state'' \<noteq> Some (PStr ''idle'') then (Inl ''not_idle'', r)
        else (Inr (), expire (set_ex (set_ex r key
                 (RJson (PDict (dict_set (dict_set d ''state'' (PStr ''reserved'')) ''cluster_id'' (PStr cid)))) None)
                 lease (RText cid) None) lease (ttl_ms div 1000))
    | Some _ \<Rightarrow> (Inl ''ResponseError'', r))"

definition reserve_node :: "redis \<Rightarrow> int \<Rightarrow> string \<Rightarrow> string \<Rightarrow> (string + unit) \<times> redis" where
  "reserve_node r lease_ttl_ms n cid = lua_reserve r (node_key n) (lease_key n) cid lease_ttl_ms"

fun mark_all_offline :: "redis \<Rightarrow> string list \<Rightarrow> bool \<times> redis" where
  "mark_all_offline r [] = (True, r)"
| "mark_all_offline r (n # ns) = (case mark_offline r n of Inl e \<Rightarrow> (False, r) | Inr r' \<Rightarrow> mark_all_offline r' ns)"

fun text_of :: "rval \<Rightarrow> string" where
  "text_of (RText t) = t"
| "text_of _ = []"

text \<open>\<open>None\<close>: an exception was logged and nothing is returned.\<close>

definition detect_dead_nodes :: "redis \<Rightarrow> time \<Rightarrow> time \<Rightarrow> string list option \<times> redis" where
  "detect_dead_nodes r now timeout_seconds =
     (let dead = map (text_of \<circ> fst) (zrangebyscore r heartbeat_zset NegInf (Score (now - timeout_seconds)));
          (ok, r') = mark_all_offline r dead
      in (if ok then Some dead else None, r'))"

subsection \<open>Clusters\<close>

datatype ClusterStatus = ACTIVE | CL_DRAINING | CL_OFFLINE

fun cluster_status_value :: "ClusterStatus \<Rightarrow> string" where
  "cluster_status_value ACTIVE = ''active''"
| "cluster_status_value CL_DRAINING = ''draining''"
| "cluster_status_value CL_OFFLINE = ''offline''"

definition cluster_status_of :: "string \<Rightarrow> ClusterStatus option" where
  "cluster_status_of v = List.find (\<lambda>s. cluster_status_value s = v) [ACTIVE, CL_DRAINING, CL_OFFLINE]"

record PlannedResources =
  fixed_gpus :: int
  tidal_gpus :: int
  gpu_types :: dict
  plan_cpus :: int
  plan_memory_gb :: rat

record ObservedResources =
  obs_gpus :: int
  available_gpus :: int
  available_cpus :: int
  available_memory_gb :: rat

record ClusterResources =
  cr_plan :: PlannedResources
  cr_observed :: ObservedResources

definition to_flat :: "ClusterResources \<Rightarrow> dict" where
  "to_flat c = [(''fixed_gpus'', PInt (fixed_gpus (cr_plan c))), (''tidal_gpus'', PInt (tidal_gpus (cr_plan c))),
     (''gpu_types'', PDict (gpu_types (cr_plan c))), (''total_cpus'', PInt (plan_cpus (cr_plan c))),
     (''total_memory_gb'', PFloat (plan_memory_gb (cr_plan c))), (''total_gpus'', PInt (obs_gpus (cr_observed c))),
     (''available_gpus'', PInt (available_gpus (cr_observed c))), (''available_cpus'', PInt (available_cpus (cr_observed c))),
     (''available_memory_gb'', PFloat (available_memory_gb (cr_observed c)))]"

definition validate_plan :: "dict \<Rightarrow> PlannedResources option" where
  "validate_plan d = (case (int_field d ''fixed_gpus'' 0, int_field d ''tidal_gpus'' 0, dict_get d ''gpu_types'' (PDict []),
        int_field d ''total_cpus'' 0, num_field (dict_get d ''total_memory_gb'' (PFloat 0))) of
      (Some f, Some t, PDict g, Some c, Some m) \<Rightarrow>
        Some \<lparr>fixed_gpus = f, tidal_gpus = t, gpu_types = g, plan_cpus = c, plan_memory_gb = m\<rparr>
    | _ \<Rightarrow> None)"

definition validate_observed :: "dict \<Rightarrow> ObservedResources option" where
  "validate_observed d = (case (int_field d ''total_gpus'' 0, int_field d ''available_gpus'' 0,
        int_field d ''available_cpus'' 0, num_field (dict_get d ''available_memory_gb'' (PFloat 0))) of
      (Some t, Some g, Some c, Some m) \<Rightarrow>
        Some \<lparr>obs_gpus = t, available_gpus = g, available_cpus = c, available_memory_gb = m\<rparr>
    | _ \<Rightarrow> None)"

definition plan_keys :: "string list" where
  "plan_keys = [''fixed_gpus'', ''tidal_gpus'', ''gpu_types'', ''total_cpus'', ''total_memory_gb'']"

definition obs_keys :: "string list" where
  "obs_keys = [''total_gpus'', ''available_gpus'', ''available_cpus'', ''available_memory_gb'']"

definition from_flat :: "dict \<Rightarrow> pyval \<times> pyval" where
  "from_flat d = (if map_of d ''plan'' \<noteq> None \<or> map_of d ''observed'' \<noteq> None
     then (dict_get d ''plan'' (PDict []), dict_get d ''observed'' (PDict []))
     else (PDict (filter (\<lambda>(k, v). k \<in> set plan_keys) d), PDict (filter (\<lambda>(k, v). k \<in> set obs_keys) d)))"

definition validate_cluster_resources :: "pyval \<Rightarrow> ClusterResources option" where
  "validate_cluster_resources v = (case v of
      PDict d \<Rightarrow> (case from_flat d of
          (PDict p, PDict ob) \<Rightarrow> (case (validate_plan p, validate_observed ob) of
              (Some x, Some y) \<Rightarrow> Some \<lparr>cr_plan = x, cr_observed = y\<rparr> | _ \<Rightarrow> None)
        | _ \<Rightarrow> None)
    | _ \<Rightarrow> None)"

record ClusterInfo =
  cluster_id :: string
  cluster_tenant_id :: string
  cluster_resources :: ClusterResources
  cluster_capabilities :: "string list"
  cluster_status :: ClusterStatus

definition cluster_dump :: "ClusterInfo \<Rightarrow> dict" where
  "cluster_dump c = [(''cluster_id'', PStr (cluster_id c)), (''tenant_id'', PStr (cluster_tenant_id c)),
     (''resources'', PDict (to_flat (cluster_resources c))),
     (''capabilities'', PList (map PStr (cluster_capabilities c))),
     (''status'', PStr (cluster_status_value (cluster_status c)))]"

fun str_list :: "pyval list \<Rightarrow> string list option" where
  "str_list [] = Some []"
| "str_list (PStr s # vs) = map_option ((#) s) (str_list vs)"
| "str_list (_ # vs) = None"

definition validate_cluster :: "pyval \<Rightarrow> ClusterInfo option" where
  "validate_cluster v = (case v of
      PDict d \<Rightarrow>
        (case (map_of d ''cluster_id'', str_field d ''tenant_id'' [], validate_cluster_resources (dict_get d ''resources'' (PDict [])),
               dict_get d ''capabilities'' (PList []), str_field d ''status'' ''active'') of
           (Some (PStr i), Some t, Some res, PList caps, Some st) \<Rightarrow>
             (case (str_list caps, cluster_status_of st) of
                (Some cs, Some s) \<Rightarrow> Some \<lparr>cluster_id = i, cluster_tenant_id = t, cluster_resources = res,
                    cluster_capabilities = cs, cluster_status = s\<rparr>
              | _ \<Rightarrow> None)
         | _ \<Rightarrow> None)
    | _ \<Rightarrow> None)"

definition cluster_index :: string where
  "cluster_index = ''clusters:all''"

definition cluster_reg :: BaseRedisRegistry where
  "cluster_reg = new_registry ''cluster'' 0"

definition register_cluster :: "redis \<Rightarrow> ClusterInfo \<Rightarrow> redis" where
  "register_cluster r c =
     sadd (reg_set cluster_reg r global_tenant (cluster_id c) (PDict (cluster_dump c))) cluster_index (cluster_id c)"

definition get_cluster :: "redis \<Rightarrow> string \<Rightarrow> ClusterInfo option" where
  "get_cluster r i = (case reg_get cluster_reg r global_tenant i of PNone \<Rightarrow> None | v \<Rightarrow> validate_cluster v)"

definition list_all_clusters :: "redis \<Rightarrow> ClusterInfo list" where
  "list_all_clusters r = List.map_filter (get_cluster r) (smembers r cluster_index)"

definition unregister_cluster :: "redis \<Rightarrow> string \<Rightarrow> redis" where
  "unregister_cluster r i = srem (snd (reg_delete cluster_reg r global_tenant i)) cluster_index i"

definition lua_update_cluster :: "redis \<Rightarrow> string \<Rightarrow> dict \<Rightarrow> (string + unit) \<times> redis" where
  "lua_update_cluster r key upd = (case get r key of
      None \<Rightarrow> (Inl ''not_found'', r)
    | Some (RJson (PDict d)) \<Rightarrow> (Inr (), set_ex r key (RJson (PDict (dict_merge d upd))) None)
    | Some _ \<Rightarrow> (Inl ''ResponseError'', r))"

definition update_resources :: "redis \<Rightarrow> string \<Rightarrow> ObservedResources \<Rightarrow> (string + unit) \<times> redis" where
  "update_resources r i ob = lua_update_cluster r (make_key cluster_reg global_tenant i)
     [(''total_gpus'', PInt (obs_gpus ob)), (''available_gpus'', PInt (available_gpus ob)),
      (''available_cpus'', PInt (available_cpus ob)), (''available_memory_gb'', PFloat (available_memory_gb ob))]"

definition update_status :: "redis \<Rightarrow> string \<Rightarrow> ClusterStatus \<Rightarrow> (string + unit) \<times> redis" where
  "update_status r i s = lua_update_cluster r (make_key cluster_reg global_tenant i) [(''status'', PStr (cluster_status_value s))]"

definition candidate :: "int \<Rightarrow> string \<Rightarrow> string \<Rightarrow> ClusterInfo \<Rightarrow> bool" where
  "candidate required_gpus capability tenant c \<longleftrightarrow> cluster_status c = ACTIVE
     \<and> \<not> (required_gpus > 0 \<and> available_gpus (cr_observed (cluster_resources c)) < required_gpus)
     \<and> \<not> (capability \<noteq> [] \<and> capability \<notin> set (cluster_capabilities c))
     \<and> \<not> (tenant \<noteq> [] \<and> cluster_tenant_id c \<notin> {[], tenant})"

definition rank :: "ClusterInfo \<Rightarrow> int \<times> int" where
  "rank c = (available_gpus (cr_observed (cluster_resources c)), available_cpus (cr_observed (cluster_resources c)))"

text \<open>
  The sort in descending order keeps equal elements in place, like an ascending sort by the
  negated key. An absent capability or tenant is the empty string.
\<close>

definition select_cluster :: "redis \<Rightarrow> int \<Rightarrow> string \<Rightarrow> string \<Rightarrow> ClusterInfo option" where
  "select_cluster r required_gpus capability tenant =
     (case sort_key (\<lambda>c. (- fst (rank c), - snd (rank c))) (filter (candidate required_gpus capability tenant) (list_all_clusters r)) of
        [] \<Rightarrow> None | c # cs \<Rightarrow> Some c)"

subsection \<open>Selecting nodes\<close>

definition gpu_sum :: "NodeInfo list \<Rightarrow> int" where
  "gpu_sum ns = (\<Sum>n \<leftarrow> ns. get_effective_gpus (node_resources n))"

lemma gpu_sum_simps [simp]:
  "gpu_sum [] = 0" "gpu_sum (n # ns) = get_effective_gpus (node_resources n) + gpu_sum ns"
  by (simp_all add: gpu_sum_def)

lemma take_until_prefix: "\<exists>rest. ns = take_until required got ns @ rest"
  by (induction ns arbitrary: got) auto

lemma take_until_enough:
  "got + gpu_sum (take_until required got ns) \<ge> required \<or> take_until required got ns = ns"
proof (induction ns arbitrary: got)
  case (Cons n ns)
  from Cons.IH [of "got + get_effective_gpus (node_resources n)"] show ?case by (simp add: add.assoc)
qed simp

lemma take_until_minimal:
  "take_until required got ns = xs @ [x] \<Longrightarrow> got + gpu_sum xs < required"
proof (induction ns arbitrary: got xs)
  case ih: (Cons n ns)
  then have lt: "got < required" and tl: "n # take_until required (got + get_effective_gpus (node_resources n)) ns = xs @ [x]"
    by (auto split: if_splits)
  show ?case
  proof (cases xs)
    case Nil
    then show ?thesis using lt by simp
  next
    case (Cons y ys)
    then have "take_until required (got + get_effective_gpus (node_resources n)) ns = ys @ [x]" "y = n" using tl by auto
    from ih.IH [OF this(1)] this(2) Cons show ?thesis by simp
  qed
qed simp

text \<open>
  Greedy selection of nodes: only idle nodes with GPUs are selected, in descending order
  of their GPUs and no unselected one has more; together they have the required GPUs unless
  all idle nodes together do not; and without the last one they would not.
\<close>

theorem select_nodes_greedy:
  "set (select_nodes r required) \<subseteq> {n \<in> set (list_all_nodes r). node_state n = IDLE \<and> get_effective_gpus (node_resources n) > 0}
   \<and> sorted (map (\<lambda>n. - get_effective_gpus (node_resources n)) (select_nodes r required))
   \<and> (\<exists>rest. idle_nodes (list_all_nodes r) = select_nodes r required @ rest
        \<and> (\<forall>x \<in> set (select_nodes r required). \<forall>y \<in> set rest.
              get_effective_gpus (node_resources y) \<le> get_effective_gpus (node_resources x))
        \<and> (required \<le> gpu_sum (select_nodes r required) \<or> rest = []))
   \<and> (\<forall>xs x. select_nodes r required = xs @ [x] \<longrightarrow> gpu_sum xs < required)"
proof -
  let ?ns = "idle_nodes (list_all_nodes r)"
  obtain rest where rest: "?ns = select_nodes r required @ rest"
    using take_until_prefix [of ?ns required 0] unfolding select_nodes_def by blast
  have "sorted (map (\<lambda>n. - get_effective_gpus (node_resources n)) ?ns)"
    by (simp add: idle_nodes_def)
  then have s: "sorted (map (\<lambda>n. - get_effective_gpus (node_resources n)) (select_nodes r required))"
    "\<forall>x \<in> set (select_nodes r required). \<forall>y \<in> set rest.
       get_effective_gpus (node_resources y) \<le> get_effective_gpus (node_resources x)"
    unfolding rest by (auto simp: sorted_append)
  have "set (select_nodes r required) \<subseteq> set ?ns" unfolding rest by simp
  then have 1: "set (select_nodes r required) \<subseteq> {n \<in> set (list_all_nodes r). node_state n = IDLE \<and> get_effective_gpus (node_resources n) > 0}"
    by (auto simp: idle_nodes_def)
  have 2: "required \<le> gpu_sum (select_nodes r required) \<or> rest = []"
  proof -
    have "required \<le> 0 + gpu_sum (select_nodes r required) \<or> select_nodes r required = ?ns"
      using take_until_enough [of required 0 ?ns] unfolding select_nodes_def .
    then show ?thesis using rest by (metis add_0 append_self_conv)
  qed
  have 3: "\<forall>xs x. select_nodes r required = xs @ [x] \<longrightarrow> gpu_sum xs < required"
  proof (intro allI impI)
    fix xs x
    assume "select_nodes r required = xs @ [x]"
    then have "take_until required 0 ?ns = xs @ [x]" by (simp only: select_nodes_def)
    from take_until_minimal [OF this] show "gpu_sum xs < required" by simp
  qed
  show ?thesis
    by (intro conjI exI [of _ rest]) (fact 1 2 3 s rest)+
qed

text \<open>
  C19. A node is reserved once: the script succeeds exactly for a stored node whose state is
  idle; afterwards the node carries the cluster and the lease is set, and every further
  reservation, for any cluster, is refused until the document changes.
\<close>

theorem node_reserved_once:
  "(fst (reserve_node r ttl_ms n cid) = Inr () \<longleftrightarrow>
      (\<exists>d. get r (node_key n) = Some (RJson (PDict d)) \<and> map_of d ''state'' = Some (PStr ''idle'')))
   \<and> (fst (reserve_node r ttl_ms n cid) = Inr () \<longrightarrow>
        get (snd (reserve_node r ttl_ms n cid)) (lease_key n) = Some (RText cid)
        \<and> (\<exists>d. get (snd (reserve_node r ttl_ms n cid)) (node_key n) = Some (RJson (PDict d))
             \<and> map_of d ''cluster_id'' = Some (PStr cid) \<and> map_of d ''state'' = Some (PStr ''reserved''))
        \<and> reserve_node (snd (reserve_node r ttl_ms n cid)) ttl_ms' n cid'
            = (Inl ''not_idle'', snd (reserve_node r ttl_ms n cid)))
   \<and> (fst (reserve_node r ttl_ms n cid) \<noteq> Inr () \<longrightarrow> snd (reserve_node r ttl_ms n cid) = r)"
proof -
  have k: "node_key n \<noteq> lease_key n" "lease_key n \<noteq> node_key n"
    by (simp_all add: node_key_def make_key_def node_reg_def new_registry_def lease_key_def)
  show ?thesis
    by (auto simp: reserve_node_def lua_reserve_def store_simps k split: option.splits rval.splits pyval.splits if_splits)
qed

definition demo_node :: dict where
  "demo_node = [(''node_id'', PStr ''n1''), (''state'', PStr ''idle''), (''resources'', PDict [(''total_gpus'', PInt 8)])]"

definition demo_nodes :: redis where
  "demo_nodes = (case register_node empty_redis 5 demo_node of Inr r \<Rightarrow> r | Inl e \<Rightarrow> empty_redis)"

lemma demo_nodes_get: "\<exists>d. get demo_nodes (node_key ''n1'') = Some (RJson (PDict d)) \<and> map_of d ''state'' = Some (PStr ''idle'')"
  by (simp add: demo_nodes_def demo_node_def register_node_def Let_def store_simps node_key_def)

theorem node_reserved_once_witness:
  "fst (reserve_node demo_nodes 30000 ''n1'' ''c1'') = Inr ()
   \<and> fst (reserve_node (snd (reserve_node demo_nodes 30000 ''n1'' ''c1'')) 30000 ''n1'' ''c2'') = Inl ''not_idle''"
  using node_reserved_once [of demo_nodes 30000 "''n1''" "''c1''" 30000 "''c2''"] demo_nodes_get by simp

theorem select_nodes_greedy_witness:
  "select_nodes demo_nodes 8 = [] @ [hd (select_nodes demo_nodes 8)] \<and> gpu_sum [] < 8"
proof -
  have e: "select_nodes demo_nodes 8 = [] @ [hd (select_nodes demo_nodes 8)]" by code_simp
  from select_nodes_greedy [of demo_nodes 8] e show ?thesis by blast
qed

text \<open>
  The registry hands out validated objects, which do not support item assignment: for every
  stored node that validates, a heartbeat changes nothing and every state change raises.
\<close>

lemma node_state_frozen:
  assumes "get_node r n = Some i"
  shows "heartbeat r now n res = r" and "mark_joined r n ip = Inl ''TypeError''"
    and "mark_released r n = Inl ''TypeError''" and "mark_draining r n = Inl ''TypeError''"
    and "mark_offline r n = Inl ''TypeError''"
proof -
  have g: "node_get r n = Info i"
    using assms by (auto simp: get_node_def node_get_def split: pyval.splits)
  then have u: "update_state r n st extra = Inl ''TypeError''" for st extra
    by (simp add: update_state_def set_items_def)
  show "heartbeat r now n res = r" by (simp add: heartbeat_def g set_items_def)
  show "mark_joined r n ip = Inl ''TypeError''" "mark_released r n = Inl ''TypeError''"
    "mark_draining r n = Inl ''TypeError''" "mark_offline r n = Inl ''TypeError''"
    by (simp_all add: mark_joined_def mark_released_def mark_draining_def mark_offline_def u)
qed

subsection \<open>Clusters\<close>

lemma str_list_map [simp]: "str_list (map PStr xs) = Some xs"
  by (induction xs) simp_all

lemma cluster_status_of_value [simp]: "cluster_status_of (cluster_status_value s) = Some s"
  by (cases s) (simp_all add: cluster_status_of_def)

lemma resources_roundtrip: "validate_cluster_resources (PDict (to_flat c)) = Some c"
  by (simp add: validate_cluster_resources_def from_flat_def to_flat_def plan_keys_def obs_keys_def validate_plan_def
      validate_observed_def int_field_def dict_get_def)

lemma cluster_roundtrip: "validate_cluster (PDict (cluster_dump c)) = Some c"
  by (simp add: validate_cluster_def cluster_dump_def str_field_def dict_get_def resources_roundtrip)

lemma global_valid [simp]: "valid_tenant global_tenant"
  by (simp add: valid_tenant_def colon_free_def global_tenant_def)

text \<open>
  A registered cluster is read back exactly, through the flat form of its resources, and
  is listed; other clusters are read as before; an unregistered cluster is gone.
\<close>

theorem cluster_registry_roundtrip:
  "get_cluster (register_cluster r c) i = (if i = cluster_id c then Some c else get_cluster r i)
   \<and> c \<in> set (list_all_clusters (register_cluster r c))
   \<and> get_cluster (unregister_cluster r j) i = (if i = j then None else get_cluster r i)"
proof -
  have g: "get_cluster (register_cluster r c) i = (if i = cluster_id c then Some c else get_cluster r i)" for i
    by (simp add: get_cluster_def register_cluster_def reg_get_def json_loads_def store_simps key_simps cluster_roundtrip)
  have "cluster_id c \<in> set (smembers (register_cluster r c) cluster_index)"
    by (simp add: register_cluster_def store_simps)
  then have "c \<in> set (list_all_clusters (register_cluster r c))"
    using g [of "cluster_id c"] by (auto simp: list_all_clusters_def set_map_filter)
  moreover have "get_cluster (unregister_cluster r j) i = (if i = j then None else get_cluster r i)"
    by (simp add: get_cluster_def unregister_cluster_def reg_get_def json_loads_def store_simps key_simps)
  ultimately show ?thesis using g by simp
qed

text \<open>
  The selected cluster is a registered one that is active and has the required GPUs, the
  capability and an admissible tenant, and no other such cluster has more available GPUs,
  or as many and more CPUs; nothing is selected exactly when no cluster qualifies.
\<close>

theorem select_cluster_best:
  "case select_cluster r req cap tenant of
     None \<Rightarrow> \<not> (\<exists>c. c \<in> set (list_all_clusters r) \<and> candidate req cap tenant c)
   | Some c \<Rightarrow> c \<in> set (list_all_clusters r) \<and> candidate req cap tenant c
       \<and> \<not> (\<exists>c'. c' \<in> set (list_all_clusters r) \<and> candidate req cap tenant c' \<and> rank c < rank c')"
proof -
  let ?key = "\<lambda>c. (- fst (rank c), - snd (rank c))"
  let ?cs = "filter (candidate req cap tenant) (list_all_clusters r)"
  let ?s = "sort_key ?key ?cs"
  have set: "set ?s = {c \<in> set (list_all_clusters r). candidate req cap tenant c}" by auto
  have sorted: "sorted (map ?key ?s)" by (rule sorted_sort_key)
  show ?thesis
  proof (cases ?s)
    case Nil
    then have "select_cluster r req cap tenant = None" by (simp only: select_cluster_def list.case)
    moreover have "set ?s = {}" using Nil by simp
    ultimately show ?thesis using set by auto
  next
    case (Cons c cs)
    then have sel: "select_cluster r req cap tenant = Some c" by (simp only: select_cluster_def list.case)
    have c: "c \<in> set (list_all_clusters r)" "candidate req cap tenant c" using set Cons by auto
    have "\<not> rank c < rank c'" if "c' \<in> set (list_all_clusters r)" "candidate req cap tenant c'" for c'
    proof -
      have "c' \<in> set (c # cs)" using set Cons that by auto
      then have "c' = c \<or> ?key c \<le> ?key c'" using sorted unfolding Cons by auto
      then show ?thesis by (auto simp: less_prod_def less_eq_prod_def prod_le_def)
    qed
    with sel c show ?thesis by auto
  qed
qed

text \<open>
  The update of the observed resources is written beside the resources that validation
  reads: selection does not see it.
\<close>

lemma validate_cluster_cong:
  assumes "\<And>k. k \<in> {''cluster_id'', ''tenant_id'', ''resources'', ''capabilities'', ''status''} \<Longrightarrow> map_of d k = map_of e k"
  shows "validate_cluster (PDict d) = validate_cluster (PDict e)"
  using assms by (simp add: validate_cluster_def str_field_def dict_get_def)

lemma update_resources_unseen: "get_cluster (snd (update_resources r i ob)) j = get_cluster r j"
proof (cases "\<exists>d. get r (make_key cluster_reg global_tenant i) = Some (RJson (PDict d)) \<and> j = i")
  case True
  then obtain d where d: "get r (make_key cluster_reg global_tenant i) = Some (RJson (PDict d))" and j: "j = i" by blast
  show ?thesis
    unfolding get_cluster_def reg_get_def update_resources_def lua_update_cluster_def j
    by (simp add: d store_simps json_loads_def) (intro validate_cluster_cong, auto)
next
  case False
  then show ?thesis
    by (auto simp: get_cluster_def reg_get_def update_resources_def lua_update_cluster_def store_simps key_simps
        json_loads_def split: option.splits rval.splits pyval.splits)
qed

end
