(* ===== verification/Cron_Scheduling.thy ===== *)
theory Cron_Scheduling
  imports Registry Task_Creator
begin

text \<open>
  Cron schedules: \<^verbatim>\<open>ScheduleRegistry\<close> (\<^verbatim>\<open>src/platform/schedule_registry.py\<close>), a registry with a
  reverse index and two Lua scripts, and \<^verbatim>\<open>CronScheduler\<close> (\<^verbatim>\<open>src/platform/cron_scheduler.py\<close>),
  which elects a leader, creates a task for every due schedule through the task creator and
  moves the schedule to its next time.

  Parameters: \<open>to_iso\<close> and \<open>from_iso\<close> for the text of a time (a text without time zone is read
  as UTC), \<open>next_of\<close> for the next time of a cron expression after a given time (\<^verbatim>\<open>croniter\<close>,
  which raises for a malformed expression), and \<open>loads\<close> for decoding a JSON text.
\<close>

subsection \<open>The schedule registry\<close>

definition schedule_reg :: BaseRedisRegistry where
  "schedule_reg = new_registry ''schedules'' 31536000"

definition sid_to_tenant :: string where
  "sid_to_tenant = ''schedules:sid_to_tenant''"

definition set_schedule :: "redis \<Rightarrow> string \<Rightarrow> string \<Rightarrow> pyval \<Rightarrow> redis" where
  "set_schedule r tenant sid v = hset (reg_set schedule_reg r tenant sid v) sid_to_tenant sid (RText tenant)"

text \<open>The scripts reply 0 for a missing document and fail for one that is no object.\<close>

definition lua_toggle :: "redis \<Rightarrow> string \<Rightarrow> bool \<Rightarrow> (string + int) \<times> redis" where
  "lua_toggle r key enabled = (case get r key of
      None \<Rightarrow> (Inr 0, r)
    | Some (RJson (PDict d)) \<Rightarrow> (Inr 1, set_ex r key (RJson (PDict (dict_set d ''enabled'' (PBool enabled)))) None)
    | Some _ \<Rightarrow> (Inl ''ResponseError'', r))"

definition toggle :: "redis \<Rightarrow> string \<Rightarrow> string \<Rightarrow> bool \<Rightarrow> (string + bool) \<times> redis" where
  "toggle r tenant sid enabled =
     (let (res, r') = lua_toggle r (make_key schedule_reg tenant sid) enabled in (map_sum id (\<lambda>n. n \<noteq> 0) res, r'))"

definition lua_advance_next_fire :: "redis \<Rightarrow> string \<Rightarrow> string \<Rightarrow> string \<Rightarrow> (string + int) \<times> redis" where
  "lua_advance_next_fire r key next_iso now_iso = (case get r key of
      None \<Rightarrow> (Inr 0, r)
    | Some (RJson (PDict d)) \<Rightarrow>
        (Inr 1, set_ex r key (RJson (PDict (dict_set (dict_set d ''next_fire_at'' (PStr next_iso))
                  ''last_triggered_at'' (PStr now_iso)))) None)
    | Some _ \<Rightarrow> (Inl ''ResponseError'', r))"

definition advance_next_fire ::
  "(time \<Rightarrow> string) \<Rightarrow> redis \<Rightarrow> time \<Rightarrow> string \<Rightarrow> string \<Rightarrow> time \<Rightarrow> (string + bool) \<times> redis" where
  "advance_next_fire to_iso r now tenant sid nxt =
     (let (res, r') = lua_advance_next_fire r (make_key schedule_reg tenant sid) (to_iso nxt) (to_iso now)
      in (map_sum id (\<lambda>n. n \<noteq> 0) res, r'))"

text \<open>Whether one document is due: \<open>None\<close> when reading it raises (it is no object).\<close>

definition is_due :: "(string \<Rightarrow> time option) \<Rightarrow> time \<Rightarrow> dict \<Rightarrow> bool" where
  "is_due from_iso as_of d \<longleftrightarrow> truthy (dict_get d ''enabled'' (PBool True)) \<and>
     (case dict_get d ''next_fire_at'' PNone of
        PStr nf \<Rightarrow> nf \<noteq> [] \<and> (case from_iso nf of None \<Rightarrow> False | Some t \<Rightarrow> t \<le> as_of)
      | _ \<Rightarrow> False)"

fun due_docs :: "(string \<Rightarrow> time option) \<Rightarrow> time \<Rightarrow> rval option list \<Rightarrow> string + dict list" where
  "due_docs from_iso as_of [] = Inr []"
| "due_docs from_iso as_of (raw # raws) = (case raw of
      None \<Rightarrow> due_docs from_iso as_of raws
    | Some (RText t) \<Rightarrow> due_docs from_iso as_of raws
    | Some (RJson (PDict d)) \<Rightarrow>
        map_sum id (\<lambda>ds. if is_due from_iso as_of d then d # ds else ds) (due_docs from_iso as_of raws)
    | Some _ \<Rightarrow> Inl ''AttributeError'')"

definition schedule_keys :: "redis \<Rightarrow> (string \<times> string) list" where
  "schedule_keys r =
     concat (map (\<lambda>t. map (Pair t) (reg_list schedule_reg r t)) (list_all_tenants schedule_reg r))"

definition list_due :: "(string \<Rightarrow> time option) \<Rightarrow> redis \<Rightarrow> time \<Rightarrow> string + dict list" where
  "list_due from_iso r as_of =
     due_docs from_iso as_of (map (\<lambda>(t, sid). get r (make_key schedule_reg t sid)) (schedule_keys r))"

definition update_next_fire ::
  "(time \<Rightarrow> string) \<Rightarrow> redis \<Rightarrow> time \<Rightarrow> string \<Rightarrow> time \<Rightarrow> (string + unit) \<times> redis" where
  "update_next_fire to_iso r now sid nxt = (case hget r sid_to_tenant sid of
      Some (RText tenant) \<Rightarrow>
        (let (res, r') = advance_next_fire to_iso r now tenant sid nxt in (map_sum id (\<lambda>_. ()) res, r'))
    | _ \<Rightarrow> (case List.find (\<lambda>t. sid \<in> set (reg_list schedule_reg r t)) (list_all_tenants schedule_reg r) of
          None \<Rightarrow> (Inr (), r)
        | Some tenant \<Rightarrow>
            (case advance_next_fire to_iso r now tenant sid nxt of
               (Inl e, r') \<Rightarrow> (Inl e, r')
             | (Inr _, r') \<Rightarrow> (Inr (), hset r' sid_to_tenant sid (RText tenant)))))"

subsection \<open>The scheduler\<close>

record CronScheduler =
  cron_instance_id :: string
  cron_leader_ttl :: int

definition cron_leader :: string where
  "cron_leader = ''cron_leader''"

definition cron_become_leader :: "CronScheduler \<Rightarrow> redis \<Rightarrow> bool \<times> redis" where
  "cron_become_leader cs r =
     (let (ok, r1) = set_nx r cron_leader (RText (cron_instance_id cs)) (Some (cron_leader_ttl cs))
      in if ok then (True, r1)
         else if get r1 cron_leader = Some (RText (cron_instance_id cs))
              then (True, expire r1 cron_leader (cron_leader_ttl cs)) else (False, r1))"

text \<open>The start of the current minute, in seconds.\<close>

definition window :: "time \<Rightarrow> int" where
  "window now = \<lfloor>now / 60\<rfloor> * 60"

definition idem_key :: "string \<Rightarrow> time \<Rightarrow> string" where
  "idem_key sid now = ''cron:'' @ sid @ '':'' @ nat_str (nat (window now))"

definition field_str :: "dict \<Rightarrow> string \<Rightarrow> string \<Rightarrow> string" where
  "field_str d k dflt = (case map_of d k of Some (PStr s) \<Rightarrow> s | _ \<Rightarrow> dflt)"

text \<open>The template; \<open>None\<close> when it is no object, so that unpacking it raises.\<close>

definition template_of :: "(string \<Rightarrow> pyval option) \<Rightarrow> dict \<Rightarrow> dict option" where
  "template_of loads d = (case dict_get d ''task_template'' (PStr ''{}'') of
      PStr s \<Rightarrow> (case loads s of None \<Rightarrow> Some [] | Some (PDict t) \<Rightarrow> Some t | Some _ \<Rightarrow> None)
    | PDict t \<Rightarrow> Some t
    | _ \<Rightarrow> None)"

record 'w cron_env =
  cron_creator :: TaskCreator
  cron_sha :: "string \<Rightarrow> string"
  cron_add_row :: "'w \<Rightarrow> TaskRecord \<Rightarrow> (string + unit) \<times> 'w"
  cron_rows :: "'w \<Rightarrow> TaskRecord list"
  cron_create_env :: create_env
  to_iso :: "time \<Rightarrow> string"
  from_iso :: "string \<Rightarrow> time option"
  next_of :: "string \<Rightarrow> time \<Rightarrow> time option"
  loads :: "string \<Rightarrow> pyval option"
  proxy_repr :: "dict \<Rightarrow> string"

type_synonym 'w cron_state = "QueueManager \<times> 'w \<times> redis"

definition fire_create :: "'w cron_env \<Rightarrow> time \<Rightarrow> dict \<Rightarrow> 'w cron_state \<Rightarrow> (create_error + create_result) \<times> 'w cron_state" where
  "fire_create env now d st = (case template_of (loads env) d of
      None \<Rightarrow> (Inl TypeError, st)
    | Some template \<Rightarrow>
        if map_of template ''tenant_id'' \<noteq> None \<or> map_of template ''idempotency_key'' \<noteq> None then (Inl TypeError, st)
        else create_task (cron_creator env) (cron_sha env) (cron_add_row env) (cron_rows env) (cron_create_env env) now
          (field_str d ''tenant_id'' []) (idem_key (field_str d ''schedule_id'' (proxy_repr env d)) now) template st)"

text \<open>\<open>Inl\<close>: an exception leaves \<^verbatim>\<open>_fire_one\<close> and with it the loop of the scheduler.\<close>

definition fire_one :: "'w cron_env \<Rightarrow> time \<Rightarrow> dict \<Rightarrow> 'w cron_state \<Rightarrow> (string + unit) \<times> 'w cron_state" where
  "fire_one env now d st = (case fire_create env now d st of
      (Inl e, st') \<Rightarrow> (Inr (), st')
    | (Inr res, (qm, w, r)) \<Rightarrow>
        (case next_of env (field_str d ''cron_expr'' []) now of
           None \<Rightarrow> (Inl ''CroniterBadCronError'', (qm, w, r))
         | Some nxt \<Rightarrow>
             (let (x, r') = update_next_fire (to_iso env) r now (field_str d ''schedule_id'' (proxy_repr env d)) nxt
              in (x, (qm, w, r')))))"

fun fire_all :: "'w cron_env \<Rightarrow> time \<Rightarrow> dict list \<Rightarrow> 'w cron_state \<Rightarrow> (string + unit) \<times> 'w cron_state" where
  "fire_all env now [] st = (Inr (), st)"
| "fire_all env now (d # ds) st = (case fire_one env now d st of
      (Inl e, st') \<Rightarrow> (Inl e, st')
    | (Inr _, st') \<Rightarrow> fire_all env now ds st')"

definition fire_due_schedules :: "'w cron_env \<Rightarrow> time \<Rightarrow> 'w cron_state \<Rightarrow> (string + unit) \<times> 'w cron_state" where
  "fire_due_schedules env now st = (case list_due (from_iso env) (snd (snd st)) now of
      Inl e \<Rightarrow> (Inl e, st)
    | Inr ds \<Rightarrow> fire_all env now ds st)"

definition cron_turn :: "CronScheduler \<Rightarrow> 'w cron_env \<Rightarrow> time \<Rightarrow> 'w cron_state \<Rightarrow> (string + unit) \<times> 'w cron_state" where
  "cron_turn cs env now st = (let (qm, w, r) = st; (lead, r') = cron_become_leader cs r in
     if lead then fire_due_schedules env now (qm, w, r') else (Inr (), (qm, w, r')))"

subsection \<open>What the creation of a task leaves alone\<close>

definition same_at :: "string \<Rightarrow> redis \<Rightarrow> redis \<Rightarrow> bool" where
  "same_at k r r' \<longleftrightarrow> get r' k = get r k \<and> (\<forall>f. hget r' k f = hget r k f)"

lemma same_at_refl [simp]: "same_at k r r"
  by (simp add: same_at_def)

lemma same_at_trans: "same_at k r r' \<Longrightarrow> same_at k r' r'' \<Longrightarrow> same_at k r r''"
  by (simp add: same_at_def)

lemma same_at_set_ex: "k \<noteq> k' \<Longrightarrow> same_at k r (set_ex r k' v ex)"
  by (simp add: same_at_def store_simps)

lemma same_at_redis_write: "k \<noteq> task_key t \<Longrightarrow> same_at k r (snd (redis_write up t rec r))"
  by (simp add: redis_write_def same_at_set_ex)

lemma same_at_save: "k \<noteq> tx_key (tx_id tx) \<Longrightarrow> same_at k r (save_pending_tx up r tx)"
  by (simp add: save_pending_tx_def same_at_set_ex)

lemma same_at_compensation:
  "k \<noteq> tx_key (tx_id tx) \<Longrightarrow> tx_status tx = TX_FAILED \<Longrightarrow> same_at k r (compensation_enqueue r tx)"
  by (simp add: compensation_enqueue_def save_transaction_def same_at_set_ex)

lemma same_at_write_atomic:
  assumes "k \<noteq> task_key t'" and "k \<noteq> tx_key i"
  shows "same_at k r (snd (snd (write_atomic compensation save_up comp_up t op p i now mysql (redis_write up t' rec) (w, r))))"
proof (cases "fst (mysql w)")
  case (Inl e)
  then show ?thesis by (simp add: write_atomic_mysql_fails)
next
  case (Inr a)
  have tx: "tx_id (failed_tx t op p i now e) = i" "tx_status (failed_tx t op p i now e) = TX_FAILED" for e
    by (simp_all add: failed_tx_def new_TxRecord_def)
  note w = same_at_redis_write [OF assms(1), of r up rec]
  show ?thesis
  proof (cases "fst (redis_write up t' rec r)")
    case (Inr b)
    with \<open>fst (mysql w) = Inr a\<close> show ?thesis using w by (simp add: write_atomic_both)
  next
    case (Inl e)
    have s: "same_at k r (save_pending_tx save_up (snd (redis_write up t' rec r)) (failed_tx t op p i now e))"
      by (rule same_at_trans [OF w same_at_save]) (simp add: tx assms(2))
    show ?thesis
      using \<open>fst (mysql w) = Inr a\<close> Inl s same_at_trans [OF s same_at_compensation] assms(2)
      by (simp add: write_atomic_redis_fails Let_def tx)
  qed
qed

lemma same_at_store_task:
  assumes "k \<noteq> task_key t" and "k \<noteq> tx_key (ce_tx_id env)"
  shows "same_at k r (snd (snd (store_task tc add_row env now t tenant cap rec kwargs (w, r))))"
  using assms
  by (simp add: store_task_def case_prod_unfold same_at_write_atomic same_at_redis_write split: sum.splits)

lemma same_at_enqueue:
  assumes "cb qm = None" and "k \<noteq> stats cap"
  shows "same_at k r (snd (snd (enqueue qm r now cap t p after)))"
  using assms
  by (simp add: same_at_def enqueue_def admit_def lua_enqueue_def case_prod_unfold Let_def store_simps refresh_ttl_def)

lemma same_at_create_task:
  assumes "cb qm = None" and "hd k \<noteq> CHR ''{''" and "\<And>t. k \<noteq> task_key t" and "\<And>i. k \<noteq> tx_key i"
    and "create_task tc sha add_row rows env now tenant key kwargs (qm, w, r) = (res, qm', w', r')"
  shows "same_at k r r'"
proof -
  have "k \<noteq> stats c" for c using assms(2) by (auto simp: stats_def)
  note e = same_at_enqueue [OF assms(1) this]
  have s: "same_at k r r1" if "store_task tc add_row env now t tenant cap rec kwargs (w, r) = (x, w1, r1)" for t cap rec x w1 r1
    using same_at_store_task [OF assms(3,4), where tc = tc and add_row = add_row and r = r] that by (metis snd_conv)
  have se: "same_at k r r2" if "store_task tc add_row env now t tenant cap rec kwargs (w, r) = (x, w1, r1)"
    "enqueue qm r1 now cap t p after = (y, q2, r2)" for t cap rec x w1 r1 p after y q2 r2
    using same_at_trans [OF s [OF that(1)] e [where r = r1]] that(2) by (metis snd_conv)
  show ?thesis
    using assms(5)
    by (auto simp: create_task_def enqueue_new_def Let_def split: pyval.splits sum.splits option.splits if_splits prod.splits
        intro: s se)
qed

subsection \<open>Properties\<close>

lemma schedule_key_parts:
  "hd (make_key schedule_reg t sid) \<noteq> CHR ''{''" "make_key schedule_reg t sid \<noteq> task_key x" "make_key schedule_reg t sid \<noteq> tx_key x"
  "hd sid_to_tenant \<noteq> CHR ''{''" "sid_to_tenant \<noteq> task_key x" "sid_to_tenant \<noteq> tx_key x"
  by (simp_all add: make_key_def schedule_reg_def new_registry_def task_key_def tx_key_def sid_to_tenant_def)

lemma fire_create_same:
  assumes "cb qm = None" and "fire_create env now d (qm, w, r) = (res, qm', w', r')"
  shows "same_at (make_key schedule_reg t sid) r r'" and "same_at sid_to_tenant r r'"
proof -
  have "same_at k r r'" if "hd k \<noteq> CHR ''{''" "\<And>t. k \<noteq> task_key t" "\<And>i. k \<noteq> tx_key i" for k
    using assms same_at_create_task [OF assms(1) that]
    by (auto simp: fire_create_def split: option.splits if_splits)
  then show "same_at (make_key schedule_reg t sid) r r'" "same_at sid_to_tenant r r'"
    by (simp_all add: schedule_key_parts)
qed

lemma not_due_before:
  "dict_get d ''next_fire_at'' PNone = PStr s \<Longrightarrow> f s = Some nxt \<Longrightarrow> as_of < nxt \<Longrightarrow> \<not> is_due f as_of d"
  by (simp add: is_due_def)

text \<open>
  A schedule that has fired is not due again before its next time: when the task of a
  stored schedule was created and the cron expression has a next time, then firing ends
  without exception, the stored document carries the next time and the time of this firing,
  and no listing of due schedules before the next time reports it. (Queue without circuit
  breaker; the text of a time reads back as that time.)
\<close>

theorem fired_schedule_advances:
  assumes "cb qm = None" and "get r (make_key schedule_reg tenant sid) = Some (RJson (PDict d))"
    and "hget r sid_to_tenant sid = Some (RText tenant)" and "map_of d ''schedule_id'' = Some (PStr sid)"
    and "fire_create env now d (qm, w, r) = (Inr res, qm', w', r1)"
    and "next_of env (field_str d ''cron_expr'' []) now = Some nxt"
    and "from_iso env (to_iso env nxt) = Some nxt"
  shows "\<exists>r' d'. fire_one env now d (qm, w, r) = (Inr (), qm', w', r')
    \<and> get r' (make_key schedule_reg tenant sid) = Some (RJson (PDict d'))
    \<and> map_of d' ''next_fire_at'' = Some (PStr (to_iso env nxt)) \<and> map_of d' ''last_triggered_at'' = Some (PStr (to_iso env now))
    \<and> (\<forall>as_of. as_of < nxt \<longrightarrow> \<not> is_due (from_iso env) as_of d')"
proof -
  let ?k = "make_key schedule_reg tenant sid"
  let ?d = "dict_set (dict_set d ''next_fire_at'' (PStr (to_iso env nxt))) ''last_triggered_at'' (PStr (to_iso env now))"
  have sid: "field_str d ''schedule_id'' x = sid" for x by (simp add: field_str_def assms(4))
  have g: "get r1 ?k = Some (RJson (PDict d))" "hget r1 sid_to_tenant sid = Some (RText tenant)"
    using fire_create_same [OF assms(1,5)] assms(2,3) by (simp_all add: same_at_def)
  have "update_next_fire (to_iso env) r1 now sid nxt = (Inr (), set_ex r1 ?k (RJson (PDict ?d)) None)"
    by (simp add: update_next_fire_def advance_next_fire_def lua_advance_next_fire_def g)
  then have "fire_one env now d (qm, w, r) = (Inr (), qm', w', set_ex r1 ?k (RJson (PDict ?d)) None)"
    by (simp add: fire_one_def assms(5,6) sid)
  moreover have "\<not> is_due (from_iso env) as_of ?d" if "as_of < nxt" for as_of
    using assms(7) that by (intro not_due_before [where s = "to_iso env nxt" and nxt = nxt]) (simp_all add: dict_get_def)
  ultimately show ?thesis
    by (intro exI conjI) (auto simp: store_simps)
qed

lemma idem_key_nonempty [simp]: "idem_key sid now \<noteq> []"
  by (simp add: idem_key_def)

text \<open>
  C17. Firing a schedule twice in the same minute, by two leaders or after a crash, queues one
  task: both creations use the same identifier, so if the queue accepts both, the second
  leaves the number of waiting tasks unchanged.
\<close>

theorem cron_fires_once_per_minute:
  assumes "window now = window now'"
    and "fire_create env now d (qm, w, r) = (Inr a, qm1, w1, r1)" and "\<not> cr_reused a" and "cr_accepted a"
    and "fire_create env' now' d (qm1, w1', r1) = (Inr b, qm2, w2, r2)" and "\<not> cr_reused b" and "cr_accepted b"
    and "cron_sha env' = cron_sha env" and "loads env' = loads env" and "proxy_repr env' = proxy_repr env"
  shows "cr_task_id b = cr_task_id a \<and>
    (\<exists>cap. zscore r1 (pending cap) (RText (cr_task_id a)) \<noteq> None
       \<and> zcard r2 (pending cap) = zcard r1 (pending cap))"
proof -
  define sid where "sid = field_str d ''schedule_id'' (proxy_repr env d)"
  have key: "idem_key sid now' = idem_key sid now" by (simp add: idem_key_def assms(1))
  obtain kw where kw: "template_of (loads env) d = Some kw"
    using assms(2) by (auto simp: fire_create_def split: option.splits)
  have 1: "create_task (cron_creator env) (cron_sha env) (cron_add_row env) (cron_rows env) (cron_create_env env) now
      (field_str d ''tenant_id'' []) (idem_key sid now) kw (qm, w, r) = (Inr a, qm1, w1, r1)"
    using assms(2) kw by (auto simp: fire_create_def sid_def split: if_splits)
  have 2: "create_task (cron_creator env') (cron_sha env) (cron_add_row env') (cron_rows env') (cron_create_env env') now'
      (field_str d ''tenant_id'' []) (idem_key sid now) kw (qm1, w1', r1) = (Inr b, qm2, w2, r2)"
    using assms(5,8,9,10) kw by (auto simp: fire_create_def sid_def key [unfolded sid_def] split: if_splits)
  from create_task_new [OF 1 assms(3)] obtain cap ps after rs er where a: "capability_arg kw = PStr cap"
    "cr_task_id a = new_task_id (cron_sha env) (ce_uuid (cron_create_env env)) (idem_key sid now)"
    "enqueue qm rs now cap (cr_task_id a) (priority_map (py_lower ps)) after = (Inr er, qm1, r1)" "cr_accepted a = accepted er"
    by metis
  from create_task_new [OF 2 assms(6)] obtain ps' after' ws rs' er' where b: "capability_arg kw = PStr cap"
    "cr_task_id b = new_task_id (cron_sha env) (ce_uuid (cron_create_env env')) (idem_key sid now)"
    "store_task (cron_creator env') (cron_add_row env') (cron_create_env env') now' (cr_task_id b) (field_str d ''tenant_id'' []) cap
       (redis_record (cr_task_id b) (field_str d ''tenant_id'' []) cap (priority_map (py_lower ps')) now' kw) kw (w1', r1) = (Inr (), ws, rs')"
    "enqueue qm1 rs' now' cap (cr_task_id b) (priority_map (py_lower ps')) after' = (Inr er', qm2, r2)" "cr_accepted b = accepted er'"
    using a(1) by (metis pyval.inject(4))
  have id: "cr_task_id b = cr_task_id a" by (simp add: a(2) b(2) new_task_id_def)
  have w: "zscore r1 (pending cap) (RText (cr_task_id a)) \<noteq> None"
    using enqueue_room_zscore(1) [OF enqueue_Inr_accepted [OF a(3)], of now "cr_task_id a" "priority_map (py_lower ps)" after
        "pending cap" "RText (cr_task_id a)"] a(3,4) assms(4) by simp
  have z: "zbucket rs' k = zbucket r1 k" for k using store_task_same [OF b(3)] by simp
  then have "zscore rs' (pending cap) (RText (cr_task_id b)) \<noteq> None" "zcard rs' (pending cap) = zcard r1 (pending cap)"
    using w id by (simp_all add: zscore_def zcard_def)
  then have "zcard r2 (pending cap) = zcard r1 (pending cap)"
    using enqueue_room_zscore(2) [OF enqueue_Inr_accepted [OF b(4)], of now' "cr_task_id b" "priority_map (py_lower ps')" after']
      b(4,5) assms(7) by simp
  with id w show ?thesis by blast
qed

definition demo_schedule :: dict where
  "demo_schedule = [(''schedule_id'', PStr ''s1''), (''cron_expr'', PStr ''* * * * *''), (''tenant_id'', PStr ''acme''),
     (''task_template'', PDict [(''task_type'', PStr ''ocr'')])]"

definition demo_cron :: "TaskRecord list cron_env" where
  "demo_cron = \<lparr>cron_creator = \<lparr>has_db = True, has_compensation = False\<rparr>, cron_sha = (\<lambda>s. ''h''), cron_add_row = demo_add,
     cron_rows = (\<lambda>w. w), cron_create_env = demo_env, to_iso = (\<lambda>t. nat_str (nat \<lfloor>t\<rfloor>)),
     from_iso = (\<lambda>s. if s = ''120'' then Some 120 else None), next_of = (\<lambda>e t. Some 120), loads = (\<lambda>s. None),
     proxy_repr = (\<lambda>d. ''?'')\<rparr>"

definition demo_schedules :: redis where
  "demo_schedules = set_schedule empty_redis ''acme'' ''s1'' (PDict demo_schedule)"

definition demo_fire :: "redis \<Rightarrow> (create_error + create_result) \<times> TaskRecord list cron_state" where
  "demo_fire r = fire_create demo_cron 61 demo_schedule (new_QueueManager None, [], r)"

definition demo_task :: create_result where
  "demo_task = \<lparr>cr_task_id = ''cron-cron-s1-60-h'', cr_accepted = True, cr_queue_position = 1, cr_pending_count = 1, cr_reused = False\<rparr>"

lemma demo_fire_eq: "fst (demo_fire demo_schedules) = Inr demo_task"
  unfolding demo_fire_def by code_simp

theorem fired_schedule_advances_witness:
  "\<exists>qm' w' r' d'. fire_one demo_cron 61 demo_schedule (new_QueueManager None, [], demo_schedules) = (Inr (), qm', w', r')
     \<and> get r' (make_key schedule_reg ''acme'' ''s1'') = Some (RJson (PDict d')) \<and> \<not> is_due (from_iso demo_cron) 100 d'"
proof -
  obtain x qm' w' r1 where f: "demo_fire demo_schedules = (x, qm', w', r1)" by (metis prod_cases4)
  then have x: "fire_create demo_cron 61 demo_schedule (new_QueueManager None, [], demo_schedules) = (Inr demo_task, qm', w', r1)"
    using demo_fire_eq unfolding demo_fire_def by simp
  have s: "get demo_schedules (make_key schedule_reg ''acme'' ''s1'') = Some (RJson (PDict demo_schedule))"
    "hget demo_schedules sid_to_tenant ''s1'' = Some (RText ''acme'')"
    by (simp_all add: demo_schedules_def set_schedule_def store_simps)
  have n: "from_iso demo_cron (to_iso demo_cron 120) = Some 120" by code_simp
  have "next_of demo_cron (field_str demo_schedule ''cron_expr'' []) 61 = Some 120"
    "map_of demo_schedule ''schedule_id'' = Some (PStr ''s1'')" "cb (new_QueueManager None) = None"
    by (simp_all add: demo_cron_def demo_schedule_def new_QueueManager_def)
  from fired_schedule_advances [OF this(3) s this(2) x this(1) n] obtain r' d' where
    "fire_one demo_cron 61 demo_schedule (new_QueueManager None, [], demo_schedules) = (Inr (), qm', w', r')"
    "get r' (make_key schedule_reg ''acme'' ''s1'') = Some (RJson (PDict d'))"
    and due: "\<And>as_of. as_of < 120 \<Longrightarrow> \<not> is_due (from_iso demo_cron) as_of d'" by blast
  moreover have "\<not> is_due (from_iso demo_cron) 100 d'" by (rule due) simp
  ultimately show ?thesis by blast
qed

lemma demo_refire:
  "case demo_fire demo_schedules of (x, qm1, w1, r1) \<Rightarrow>
     (case fire_create demo_cron 62 demo_schedule (qm1, [], r1) of
        (Inr b, s) \<Rightarrow> \<not> cr_reused b \<and> cr_accepted b | (Inl e, s) \<Rightarrow> False)"
  unfolding demo_fire_def by code_simp

theorem cron_fires_once_per_minute_witness:
  "\<exists>a qm1 w1 r1 b qm2 w2 r2. demo_fire demo_schedules = (Inr a, qm1, w1, r1)
     \<and> fire_create demo_cron 62 demo_schedule (qm1, [], r1) = (Inr b, qm2, w2, r2) \<and> cr_task_id b = cr_task_id a"
proof -
  obtain x qm1 w1 r1 where f: "demo_fire demo_schedules = (x, qm1, w1, r1)" by (metis prod_cases4)
  have x: "x = Inr demo_task" using demo_fire_eq by (simp add: f)
  obtain y qm2 w2 r2 where g: "fire_create demo_cron 62 demo_schedule (qm1, [], r1) = (y, qm2, w2, r2)" by (metis prod_cases4)
  then obtain b where b: "y = Inr b" "\<not> cr_reused b" "cr_accepted b"
    using demo_refire by (cases y) (simp_all add: f)
  have a: "\<not> cr_reused demo_task" "cr_accepted demo_task" by (simp_all add: demo_task_def)
  have w: "window 61 = window 62" by code_simp
  from cron_fires_once_per_minute [OF w f [unfolded x demo_fire_def] a g [unfolded b(1)] b(2,3) refl refl refl] f g x b(1)
  show ?thesis by blast
qed

text \<open>
  Election: an instance leads exactly when the leader key is free or its own.
\<close>

lemma cron_leader_iff:
  "fst (cron_become_leader cs r) \<longleftrightarrow> get r cron_leader \<in> {None, Some (RText (cron_instance_id cs))}"
  "fst (cron_become_leader cs r) \<Longrightarrow> get (snd (cron_become_leader cs r)) cron_leader = Some (RText (cron_instance_id cs))"
  by (auto simp: cron_become_leader_def set_nx_def set_ex_def expire_def get_def Let_def split: if_splits)

text \<open>
  A malformed cron expression makes \<^verbatim>\<open>_fire_one\<close> raise after the task was created; the exception
  ends the round, and no later due schedule is fired.
\<close>

lemma bad_expression_stops_round:
  assumes "fire_create env now d st = (Inr res, st')" and "next_of env (field_str d ''cron_expr'' []) now = None"
  shows "fire_all env now (d # ds) st = (Inl ''CroniterBadCronError'', st')"
  using assms by (simp add: fire_one_def split: prod.splits)

end
