(* ===== verification/Redis_HA.thy ===== *)
theory Redis_HA
  imports Scheduler_Prelude "HOL-Library.Multiset"
begin

text \<open>
  The high-availability Redis client (\<^verbatim>\<open>src/common/redis_ha.py\<close>): a circuit breaker, retries
  with backoff, and a queue of writes that failed while Redis was down.

  The Redis connection and the clock are the environment: \<open>invoke\<close> is one call of a method of
  the underlying client, which returns or raises; \<open>clock\<close> is \<^verbatim>\<open>time.time()\<close>; \<open>uniform\<close> is
  \<^verbatim>\<open>random.uniform\<close>; \<open>sleep\<close> is \<^verbatim>\<open>asyncio.sleep\<close>. The lemmas show when the breaker admits
  calls, that no write reported as successful is lost, and that replaying the queue ends.
\<close>

subsection \<open>The circuit breaker\<close>

datatype ha_state = HaClosed | HaOpen | HaHalfOpen

record HaBreaker =
  failure_threshold :: int
  reset_timeout :: rat
  failure_count :: int
  last_failure_time :: "time option"
  circuit :: ha_state

definition new_HaBreaker :: "int \<Rightarrow> rat \<Rightarrow> HaBreaker" where
  "new_HaBreaker threshold timeout =
     \<lparr>failure_threshold = threshold, reset_timeout = timeout, failure_count = 0,
      last_failure_time = None, circuit = HaClosed\<rparr>"

definition ha_failure :: "time \<Rightarrow> HaBreaker \<Rightarrow> HaBreaker" where
  "ha_failure now b =
     (let b1 = b\<lparr>failure_count := failure_count b + 1, last_failure_time := Some now\<rparr>
      in if failure_count b1 \<ge> failure_threshold b1 then b1\<lparr>circuit := HaOpen\<rparr> else b1)"

definition ha_success :: "HaBreaker \<Rightarrow> HaBreaker" where
  "ha_success b =
     (let b1 = (if circuit b = HaHalfOpen then b\<lparr>circuit := HaClosed\<rparr> else b)
      in b1\<lparr>failure_count := 0, last_failure_time := None\<rparr>)"

text \<open>The time of the last failure is tested for truth: zero counts as no failure.\<close>

definition should_allow :: "time \<Rightarrow> HaBreaker \<Rightarrow> bool \<times> HaBreaker" where
  "should_allow now b = (case circuit b of
      HaClosed \<Rightarrow> (True, b)
    | HaOpen \<Rightarrow> (case last_failure_time b of
         None \<Rightarrow> (False, b)
       | Some t \<Rightarrow> if t \<noteq> 0 \<and> now - t > reset_timeout b then (True, b\<lparr>circuit := HaHalfOpen\<rparr>) else (False, b))
    | HaHalfOpen \<Rightarrow> (True, b))"

subsection \<open>The client\<close>

type_synonym ha_op = "string \<times> pyval list \<times> dict"

datatype ha_error = ConnectionError string | ClientError string

record 'w ha_env =
  invoke :: "ha_op \<Rightarrow> 'w \<Rightarrow> (string + pyval) \<times> 'w"
  clock :: "'w \<Rightarrow> time"
  uniform :: "rat \<Rightarrow> 'w \<Rightarrow> rat"
  sleep :: "rat \<Rightarrow> 'w \<Rightarrow> 'w"

record RedisHA =
  max_attempts :: nat
  degradation_mode :: bool
  breaker :: HaBreaker
  client_ready :: bool
  is_connected :: bool
  degradation_queue :: "ha_op list"

definition new_RedisHA :: "nat \<Rightarrow> int \<Rightarrow> rat \<Rightarrow> bool \<Rightarrow> RedisHA" where
  "new_RedisHA retries threshold timeout degrade =
     \<lparr>max_attempts = retries, degradation_mode = degrade,
      breaker = new_HaBreaker threshold timeout, client_ready = False, is_connected = False,
      degradation_queue = []\<rparr>"

text \<open>
  \<^verbatim>\<open>start\<close>: \<open>open_client\<close> creates the client (through a sentinel or directly) and \<open>ping\<close>
  tests it; either may raise.
\<close>

definition start_failed :: "time \<Rightarrow> string \<Rightarrow> RedisHA \<Rightarrow> (string + unit) \<times> RedisHA" where
  "start_failed now e ha =
     (let ha1 = ha\<lparr>breaker := ha_failure now (breaker ha)\<rparr>
      in (if degradation_mode ha1 then Inr () else Inl e, ha1))"

definition start_ha :: "time \<Rightarrow> (string + unit) \<Rightarrow> (string + unit) \<Rightarrow> RedisHA \<Rightarrow> (string + unit) \<times> RedisHA" where
  "start_ha now open_client ping ha = (case open_client of
      Inl e \<Rightarrow> start_failed now e ha
    | Inr _ \<Rightarrow> (let ha1 = ha\<lparr>client_ready := True\<rparr> in case ping of
         Inl e \<Rightarrow> start_failed now e ha1
       | Inr _ \<Rightarrow> (Inr (), ha1\<lparr>is_connected := True, breaker := ha_success (breaker ha1)\<rparr>)))"

definition close_ha :: "RedisHA \<Rightarrow> RedisHA" where
  "close_ha ha = (if client_ready ha then ha\<lparr>client_ready := False, is_connected := False\<rparr> else ha)"

definition should_degrade :: "RedisHA \<Rightarrow> bool" where
  "should_degrade ha \<longleftrightarrow> \<not> is_connected ha \<or> circuit (breaker ha) = HaOpen"

definition health_check_ha :: "(string + unit) \<Rightarrow> RedisHA \<Rightarrow> bool" where
  "health_check_ha ping ha \<longleftrightarrow>
     client_ready ha \<and> is_connected ha \<and> (case ping of Inl _ \<Rightarrow> False | Inr _ \<Rightarrow> True)"

definition write_methods :: "string list" where
  "write_methods = [''set'', ''setex'', ''hset'', ''zadd'', ''sadd'']"

definition degraded_reply :: "string \<Rightarrow> pyval" where
  "degraded_reply m = (if m = ''zadd'' \<or> m = ''sadd'' then PInt 1 else PBool True)"

definition backoff :: "nat \<Rightarrow> rat \<Rightarrow> rat" where
  "backoff attempt jitter = min (1 / 10 * 2 ^ attempt + jitter) 30"

text \<open>The retry loop; \<open>n\<close> attempts are left, \<open>attempt\<close> were made.\<close>

fun attempts :: "('w, 'z) ha_env_scheme \<Rightarrow> ha_op \<Rightarrow> nat \<Rightarrow> nat \<Rightarrow> RedisHA \<Rightarrow> 'w \<Rightarrow> (ha_error + pyval) \<times> RedisHA \<times> 'w" where
  "attempts env op 0 attempt ha w = (Inr PNone, ha, w)"
| "attempts env op (Suc n) attempt ha w = (case invoke env op w of
      (Inr v, w1) \<Rightarrow> (Inr v, ha\<lparr>breaker := ha_success (breaker ha), is_connected := True\<rparr>, w1)
    | (Inl e, w1) \<Rightarrow>
        (let ha1 = ha\<lparr>breaker := ha_failure (clock env w1) (breaker ha)\<rparr>
         in if n > 0
            then attempts env op n (Suc attempt) ha1
                   (sleep env (backoff attempt (uniform env (1 / 10 * 2 ^ attempt * (1 / 5)) w1)) w1)
            else let ha2 = ha1\<lparr>is_connected := False\<rparr>
                 in if degradation_mode ha2 \<and> fst op \<in> set write_methods
                    then (Inr (degraded_reply (fst op)),
                          ha2\<lparr>degradation_queue := degradation_queue ha2 @ [op]\<rparr>, w1)
                    else (Inl (ClientError e), ha2, w1)))"

definition call_with_retry :: "('w, 'z) ha_env_scheme \<Rightarrow> ha_op \<Rightarrow> RedisHA \<Rightarrow> 'w \<Rightarrow> (ha_error + pyval) \<times> RedisHA \<times> 'w" where
  "call_with_retry env op ha w = (case should_allow (clock env w) (breaker ha) of
      (False, b) \<Rightarrow> (Inl (ConnectionError ''Circuit breaker is OPEN''), ha\<lparr>breaker := b\<rparr>, w)
    | (True, b) \<Rightarrow>
        (let ha1 = ha\<lparr>breaker := b\<rparr>
         in if \<not> client_ready ha1
            then (Inl (ConnectionError ''Redis client not initialized''), ha1, w)
            else attempts env op (max_attempts ha1) 0 ha1 w))"

text \<open>
  \<^verbatim>\<open>retry_degraded_operations\<close>. The loop runs over the queue itself, which a call that fails
  again extends: the list is read afresh at every position. \<open>fuel\<close> bounds the positions.
\<close>

fun replay_loop :: "('w, 'z) ha_env_scheme \<Rightarrow> nat \<Rightarrow> nat \<Rightarrow> nat \<Rightarrow> ha_op list \<Rightarrow> RedisHA \<Rightarrow> 'w \<Rightarrow> (nat \<times> ha_op list \<times> RedisHA \<times> 'w) option" where
  "replay_loop env 0 i retried failed ha w = None"
| "replay_loop env (Suc fuel) i retried failed ha w =
     (if i < length (degradation_queue ha)
      then (case call_with_retry env (degradation_queue ha ! i) ha w of
              (Inr _, ha', w') \<Rightarrow> replay_loop env fuel (Suc i) (Suc retried) failed ha' w'
            | (Inl _, ha', w') \<Rightarrow> replay_loop env fuel (Suc i) retried (failed @ [degradation_queue ha ! i]) ha' w')
      else Some (retried, failed, ha, w))"

definition retry_degraded_operations :: "('w, 'z) ha_env_scheme \<Rightarrow> nat \<Rightarrow> RedisHA \<Rightarrow> 'w \<Rightarrow> (nat \<times> RedisHA \<times> 'w) option" where
  "retry_degraded_operations env fuel ha w =
     (if degradation_queue ha = [] \<or> \<not> is_connected ha then Some (0, ha, w)
      else case replay_loop env fuel 0 0 [] ha w of
             None \<Rightarrow> None
           | Some (retried, failed, ha', w') \<Rightarrow> Some (retried, ha'\<lparr>degradation_queue := failed\<rparr>, w'))"

subsection \<open>When the breaker admits calls\<close>

lemma ha_breaker_params [simp]:
  "failure_threshold (ha_failure now b) = failure_threshold b"
  "reset_timeout (ha_failure now b) = reset_timeout b"
  "failure_count (ha_failure now b) = failure_count b + 1"
  "last_failure_time (ha_failure now b) = Some now"
  "failure_threshold (ha_success b) = failure_threshold b"
  "reset_timeout (ha_success b) = reset_timeout b"
  "failure_count (ha_success b) = 0"
  "last_failure_time (ha_success b) = None"
  by (simp_all add: ha_failure_def ha_success_def Let_def)

lemma ha_circuit_record [simp]:
  "circuit (ha_failure now b) = (if failure_count b + 1 \<ge> failure_threshold b then HaOpen else circuit b)"
  "circuit (ha_success b) = (if circuit b = HaHalfOpen then HaClosed else circuit b)"
  by (simp_all add: ha_failure_def ha_success_def Let_def)

lemma should_allow_params [simp]:
  "failure_threshold (snd (should_allow now b)) = failure_threshold b"
  "reset_timeout (snd (should_allow now b)) = reset_timeout b"
  "failure_count (snd (should_allow now b)) = failure_count b"
  "last_failure_time (snd (should_allow now b)) = last_failure_time b"
  by (simp_all add: should_allow_def split: ha_state.splits option.splits)

text \<open>Failures one after the other, with the times at which they are recorded.\<close>

definition ha_failures :: "time list \<Rightarrow> HaBreaker \<Rightarrow> HaBreaker" where
  "ha_failures ts b = foldl (\<lambda>b t. ha_failure t b) b ts"

lemma ha_failures_count: "failure_count (ha_failures ts b) = failure_count b + int (length ts)"
  by (induction ts arbitrary: b) (simp_all add: ha_failures_def)

lemma ha_failures_params [simp]:
  "failure_threshold (ha_failures ts b) = failure_threshold b" "reset_timeout (ha_failures ts b) = reset_timeout b"
  by (induction ts arbitrary: b) (simp_all add: ha_failures_def)

lemma ha_failures_snoc: "ha_failures (ts @ [t]) b = ha_failure t (ha_failures ts b)"
  by (simp add: ha_failures_def)

lemma ha_failures_closed:
  "circuit b = HaClosed \<Longrightarrow> failure_count b + int (length ts) < failure_threshold b \<Longrightarrow> circuit (ha_failures ts b) = HaClosed"
  by (induction ts rule: rev_induct) (simp_all add: ha_failures_snoc ha_failures_count, simp add: ha_failures_def)

text \<open>
  The breaker of a fresh client trips at the threshold and not before: after a sequence of
  consecutive failures, the last at time \<open>t\<close>, a call is admitted exactly when there were fewer
  failures than the threshold or more than the reset timeout has passed since \<open>t\<close>; and the
  success of an admitted call restores the initial state.
\<close>

theorem ha_breaker_trips:
  assumes pos: "threshold > 0" and t: "t \<noteq> 0"
    and b: "b = ha_failures (ts @ [t]) (new_HaBreaker threshold timeout)"
  shows "(fst (should_allow now b) \<longleftrightarrow> length ts + 1 < nat threshold \<or> now - t > timeout)
    \<and> (fst (should_allow now b) \<longrightarrow> ha_success (snd (should_allow now b)) = new_HaBreaker threshold timeout)"
proof -
  have new: "circuit (new_HaBreaker threshold timeout) = HaClosed" "failure_count (new_HaBreaker threshold timeout) = 0"
    "failure_threshold (new_HaBreaker threshold timeout) = threshold" "reset_timeout (new_HaBreaker threshold timeout) = timeout"
    by (simp_all add: new_HaBreaker_def)
  have params: "failure_threshold b = threshold" "reset_timeout b = timeout" "last_failure_time b = Some t"
    by (simp_all add: b ha_failures_snoc new)
  have c: "circuit b = (if length ts + 1 < nat threshold then HaClosed else HaOpen)"
  proof (cases "length ts + 1 < nat threshold")
    case True
    then have "circuit b = HaClosed" unfolding b by (intro ha_failures_closed) (auto simp: new)
    with True show ?thesis by simp
  next
    case False
    then have "threshold \<le> int (length ts) + 1" using pos by linarith
    with False show ?thesis by (simp add: b ha_failures_snoc ha_failures_count new)
  qed
  have closed: "ha_success (snd (should_allow now b)) = new_HaBreaker threshold timeout" if "fst (should_allow now b)"
    using that c t params
    by (auto simp: should_allow_def new_HaBreaker_def intro!: HaBreaker.equality split: if_splits)
  show ?thesis using c t params closed by (auto simp: should_allow_def)
qed

theorem ha_breaker_trips_witness:
  "\<not> fst (should_allow 50 (ha_failures ([10, 20, 30] @ [40]) (new_HaBreaker 3 30)))
   \<and> fst (should_allow 71 (ha_failures ([10, 20, 30] @ [40]) (new_HaBreaker 3 30)))"
  using ha_breaker_trips [of 3 40 "ha_failures ([10, 20, 30] @ [40]) (new_HaBreaker 3 30)" "[10, 20, 30]" 30 50]
    ha_breaker_trips [of 3 40 "ha_failures ([10, 20, 30] @ [40]) (new_HaBreaker 3 30)" "[10, 20, 30]" 30 71]
  by simp

subsection \<open>A breaker that never closes again\<close>

text \<open>An open breaker with no time of a last failure refuses every call and stays as it is.\<close>

definition stuck_open :: "RedisHA \<Rightarrow> bool" where
  "stuck_open ha \<longleftrightarrow> circuit (breaker ha) = HaOpen \<and> last_failure_time (breaker ha) = None"

lemma stuck_open_call:
  "stuck_open ha \<Longrightarrow> call_with_retry env op ha w = (Inl (ConnectionError ''Circuit breaker is OPEN''), ha, w)"
  by (simp add: stuck_open_def call_with_retry_def should_allow_def)

text \<open>Calls one after the other; each starts in a state of the world of its own.\<close>

fun calls :: "('w, 'z) ha_env_scheme \<Rightarrow> (ha_op \<times> 'w) list \<Rightarrow> RedisHA \<Rightarrow> (ha_error + pyval) list \<times> RedisHA" where
  "calls env [] ha = ([], ha)"
| "calls env ((op, w) # ops) ha =
     (let (res, ha1, w1) = call_with_retry env op ha w; (rs, ha2) = calls env ops ha1 in (res # rs, ha2))"

lemma stuck_open_calls:
  "stuck_open ha \<Longrightarrow> calls env ops ha = (map (\<lambda>_. Inl (ConnectionError ''Circuit breaker is OPEN'')) ops, ha)"
  by (induction ops) (auto simp: stuck_open_call)

text \<open>
  C39. When the attempt that trips the breaker is followed, in the same call, by an attempt that
  succeeds, the call returns its result and the breaker stays open with no time of a last
  failure: from then on every call is refused, at whatever time it is made and although Redis
  answers.
\<close>

theorem ha_breaker_stuck:
  assumes "circuit (breaker ha) = HaClosed" and "client_ready ha" and "max_attempts ha \<ge> 2"
    and "failure_count (breaker ha) + 1 = failure_threshold (breaker ha)"
    and "invoke env op w = (Inl e, w1)"
    and "invoke env op (sleep env (backoff 0 (uniform env (1 / 50) w1)) w1) = (Inr v, w2)"
    and "call_with_retry env op ha w = (res, ha', w')"
  shows "res = Inr v \<and> is_connected ha'
    \<and> calls env ops ha' = (map (\<lambda>_. Inl (ConnectionError ''Circuit breaker is OPEN'')) ops, ha')"
proof -
  obtain n where n: "max_attempts ha = Suc (Suc n)"
    using assms(3) by (metis add_2_eq_Suc le_Suc_ex)
  have "res = Inr v \<and> is_connected ha' \<and> stuck_open ha'"
    using assms n by (auto simp: call_with_retry_def should_allow_def stuck_open_def)
  then show ?thesis by (simp add: stuck_open_calls)
qed

text \<open>An environment in which every second call of the server fails, for the witness.\<close>

definition flaky :: "nat ha_env" where
  "flaky = \<lparr>invoke = (\<lambda>op n. (if even n then Inl ''down'' else Inr (PBool True), Suc n)),
     clock = (\<lambda>n. of_nat n), uniform = (\<lambda>_ _. 0), sleep = (\<lambda>_ n. n)\<rparr>"

definition tripping :: RedisHA where
  "tripping = \<lparr>max_attempts = 3, degradation_mode = True, breaker = (new_HaBreaker 5 30)\<lparr>failure_count := 4, last_failure_time := Some 1\<rparr>,
     client_ready = True, is_connected = True, degradation_queue = []\<rparr>"

theorem ha_breaker_stuck_witness:
  "fst (call_with_retry flaky (''get'', [PStr ''k''], []) tripping 2) = Inr (PBool True)
   \<and> fst (calls flaky [((''get'', [PStr ''k''], []), 1000000)]
       (fst (snd (call_with_retry flaky (''get'', [PStr ''k''], []) tripping 2))))
     = [Inl (ConnectionError ''Circuit breaker is OPEN'')]"
proof -
  obtain res ha' w' where r: "call_with_retry flaky (''get'', [PStr ''k''], []) tripping 2 = (res, ha', w')"
    by (cases "call_with_retry flaky (''get'', [PStr ''k''], []) tripping 2")
  have "res = Inr (PBool True) \<and> is_connected ha'
    \<and> calls flaky [((''get'', [PStr ''k''], []), 1000000)] ha'
      = (map (\<lambda>_. Inl (ConnectionError ''Circuit breaker is OPEN'')) [((''get'', [PStr ''k''], [] :: dict), 1000000 :: nat)], ha')"
    by (rule ha_breaker_stuck [OF _ _ _ _ _ _ r, where e = "''down''" and ?w1.0 = 3 and ?w2.0 = 4])
      (simp_all add: tripping_def flaky_def new_HaBreaker_def)
  then show ?thesis by (simp add: r)
qed

subsection \<open>No reported write is lost\<close>

text \<open>
  What one call changes: the parameters stay, and the queue stays or gets the operation
  appended; in the second case every attempt failed.
\<close>

lemma attempts_effect:
  assumes "attempts env op n k ha w = (res, ha', w')"
  shows "max_attempts ha' = max_attempts ha \<and> degradation_mode ha' = degradation_mode ha \<and> client_ready ha' = client_ready ha
    \<and> failure_threshold (breaker ha') = failure_threshold (breaker ha) \<and> reset_timeout (breaker ha') = reset_timeout (breaker ha)
    \<and> (0 \<le> failure_count (breaker ha) \<longrightarrow> 0 \<le> failure_count (breaker ha'))
    \<and> (degradation_queue ha' = degradation_queue ha
       \<or> degradation_queue ha' = degradation_queue ha @ [op] \<and> n > 0
         \<and> failure_count (breaker ha') = failure_count (breaker ha) + int n
         \<and> (\<exists>v. last_failure_time (breaker ha') = Some (clock env v))
         \<and> circuit (breaker ha') = (if failure_count (breaker ha) + int n \<ge> failure_threshold (breaker ha) then HaOpen
             else circuit (breaker ha)))"
  using assms
proof (induction env op n k ha w rule: attempts.induct)
  case (2 env op n k ha w)
  obtain r w1 where r: "invoke env op w = (r, w1)" by (cases "invoke env op w")
  show ?case
  proof (cases r)
    case (Inr v)
    with 2 r show ?thesis by auto
  next
    case (Inl e)
    let ?ha1 = "ha\<lparr>breaker := ha_failure (clock env w1) (breaker ha)\<rparr>"
    show ?thesis
    proof (cases "n > 0")
      case True
      have "attempts env op n (Suc k) ?ha1
          (sleep env (backoff k (uniform env (1 / 10 * 2 ^ k * (1 / 5)) w1)) w1) = (res, ha', w')"
        using 2(2) r Inl True by simp
      from 2(1) [OF r [symmetric] Inl refl True this] show ?thesis by auto
    next
      case False
      then show ?thesis using 2(2) r Inl by (auto simp: Let_def split: if_splits)
    qed
  qed
qed simp

lemma call_effect:
  assumes "call_with_retry env op ha w = (res, ha', w')"
  shows "max_attempts ha' = max_attempts ha" and "degradation_mode ha' = degradation_mode ha"
    and "client_ready ha' = client_ready ha"
    and "failure_threshold (breaker ha') = failure_threshold (breaker ha)"
    and "reset_timeout (breaker ha') = reset_timeout (breaker ha)"
    and "0 \<le> failure_count (breaker ha) \<Longrightarrow> 0 \<le> failure_count (breaker ha')"
    and "degradation_queue ha' = degradation_queue ha \<or> degradation_queue ha' = degradation_queue ha @ [op]"
proof -
  obtain a b where a: "should_allow (clock env w) (breaker ha) = (a, b)" by (cases "should_allow (clock env w) (breaker ha)")
  have b: "failure_threshold b = failure_threshold (breaker ha)" "reset_timeout b = reset_timeout (breaker ha)"
    "failure_count b = failure_count (breaker ha)"
    using should_allow_params [of "clock env w" "breaker ha"] by (simp_all add: a)
  have "max_attempts ha' = max_attempts ha \<and> degradation_mode ha' = degradation_mode ha \<and> client_ready ha' = client_ready ha
    \<and> failure_threshold (breaker ha') = failure_threshold (breaker ha) \<and> reset_timeout (breaker ha') = reset_timeout (breaker ha)
    \<and> (0 \<le> failure_count (breaker ha) \<longrightarrow> 0 \<le> failure_count (breaker ha'))
    \<and> (degradation_queue ha' = degradation_queue ha \<or> degradation_queue ha' = degradation_queue ha @ [op])"
  proof (cases "a \<and> client_ready ha")
    case True
    then have "attempts env op (max_attempts ha) 0 (ha\<lparr>breaker := b\<rparr>) w = (res, ha', w')"
      using assms a by (simp add: call_with_retry_def)
    from attempts_effect [OF this] b show ?thesis by auto
  next
    case False
    then show ?thesis using assms a b by (auto simp: call_with_retry_def split: bool.splits if_splits)
  qed
  then show "max_attempts ha' = max_attempts ha" "degradation_mode ha' = degradation_mode ha"
    "client_ready ha' = client_ready ha"
    "failure_threshold (breaker ha') = failure_threshold (breaker ha)"
    "reset_timeout (breaker ha') = reset_timeout (breaker ha)"
    "0 \<le> failure_count (breaker ha) \<Longrightarrow> 0 \<le> failure_count (breaker ha')"
    "degradation_queue ha' = degradation_queue ha \<or> degradation_queue ha' = degradation_queue ha @ [op]"
    by auto
qed

text \<open>An environment that also keeps the operations the server has acknowledged.\<close>

definition logged :: "'w ha_env \<Rightarrow> ('w \<times> ha_op list) ha_env" where
  "logged env = \<lparr>
     invoke = (\<lambda>op (w, l). case invoke env op w of (Inr v, w') \<Rightarrow> (Inr v, (w', op # l)) | (Inl e, w') \<Rightarrow> (Inl e, (w', l))),
     clock = (\<lambda>(w, l). clock env w),
     uniform = (\<lambda>b (w, l). uniform env b w),
     sleep = (\<lambda>d (w, l). (sleep env d w, l))\<rparr>"

definition account :: "RedisHA \<Rightarrow> 'w \<times> ha_op list \<Rightarrow> ha_op multiset" where
  "account ha s = mset (snd s) + mset (degradation_queue ha)"

definition reported :: "ha_op \<Rightarrow> ha_error + pyval \<Rightarrow> ha_op multiset" where
  "reported op res = (case res of Inl _ \<Rightarrow> {#} | Inr _ \<Rightarrow> {#op#})"

lemma attempts_account:
  assumes "attempts (logged env) op n k ha s = (res, ha', s')" and "n > 0"
  shows "account ha' s' = account ha s + reported op res"
  using assms
proof (induction n arbitrary: k ha s)
  case (Suc n)
  obtain w l where s: "s = (w, l)" by (cases s)
  obtain r w1 where r: "invoke env op w = (r, w1)" by (cases "invoke env op w")
  show ?case
  proof (cases r)
    case (Inr v)
    then show ?thesis using Suc.prems by (auto simp: s r logged_def account_def reported_def)
  next
    case (Inl e)
    show ?thesis
    proof (cases "n > 0")
      case True
      obtain d where "attempts (logged env) op n (Suc k) (ha\<lparr>breaker := ha_failure (clock env w1) (breaker ha)\<rparr>)
          (sleep env d w1, l) = (res, ha', s')"
        using Suc.prems(1) True by (simp add: s r Inl logged_def)
      from Suc.IH [OF this True] show ?thesis by (simp add: s account_def)
    next
      case False
      then show ?thesis using Suc.prems
        by (auto simp: s r Inl logged_def account_def reported_def Let_def split: if_splits)
    qed
  qed
qed simp

lemma call_account:
  assumes "call_with_retry (logged env) op ha s = (res, ha', s')" and "max_attempts ha > 0"
  shows "account ha' s' = account ha s + reported op res"
proof -
  obtain a b where a: "should_allow (clock (logged env) s) (breaker ha) = (a, b)"
    by (cases "should_allow (clock (logged env) s) (breaker ha)")
  show ?thesis
  proof (cases "a \<and> client_ready ha")
    case True
    then have "attempts (logged env) op (max_attempts ha) 0 (ha\<lparr>breaker := b\<rparr>) s = (res, ha', s')"
      using assms(1) a by (simp add: call_with_retry_def)
    from attempts_account [OF this assms(2)] show ?thesis by (simp add: account_def)
  next
    case False
    then show ?thesis using assms(1) a
      by (auto simp: call_with_retry_def account_def reported_def split: bool.splits if_splits)
  qed
qed

text \<open>The replay keeps account of every queued write: acknowledged, still failing, or ahead.\<close>

lemma replay_loop_account:
  assumes "replay_loop (logged env) fuel i n failed ha s = Some (n', failed', ha', s')" and "max_attempts ha > 0"
  shows "mset (snd s') + mset failed' = mset (snd s) + mset failed + mset (drop i (degradation_queue ha))
    \<and> max_attempts ha' = max_attempts ha"
  using assms
proof (induction fuel arbitrary: i n failed ha s)
  case (Suc fuel)
  let ?op = "degradation_queue ha ! i"
  show ?case
  proof (cases "i < length (degradation_queue ha)")
    case True
    obtain res ha1 s1 where c: "call_with_retry (logged env) ?op ha s = (res, ha1, s1)"
      by (cases "call_with_retry (logged env) ?op ha s")
    have ma: "max_attempts ha1 = max_attempts ha" by (rule call_effect(1) [OF c])
    have acc: "mset (snd s1) + mset (degradation_queue ha1) = mset (snd s) + mset (degradation_queue ha) + reported ?op res"
      using call_account [OF c Suc.prems(2)] by (simp add: account_def)
    have q: "degradation_queue ha1 = degradation_queue ha \<or> degradation_queue ha1 = degradation_queue ha @ [?op]"
      by (rule call_effect(7) [OF c])
    have dr: "mset (drop i (degradation_queue ha)) = add_mset ?op (mset (drop (Suc i) (degradation_queue ha)))"
      using True by (simp add: Cons_nth_drop_Suc [symmetric])
    obtain r where r: "replay_loop (logged env) fuel (Suc i) r
        (failed @ (case res of Inl _ \<Rightarrow> [?op] | Inr _ \<Rightarrow> [])) ha1 s1 = Some (n', failed', ha', s')"
      using Suc.prems(1) True c by (auto split: sum.splits)
    have "mset (snd s1) + mset (case res of Inl _ \<Rightarrow> [?op] | Inr _ \<Rightarrow> []) + mset (drop (Suc i) (degradation_queue ha1))
        = mset (snd s) + mset (drop i (degradation_queue ha))"
      using q acc dr True by (auto simp: reported_def split: sum.splits)
    then show ?thesis using Suc.IH [OF r] Suc.prems(2) ma by (simp add: ac_simps)
  next
    case False
    then show ?thesis using Suc.prems by auto
  qed
qed simp

text \<open>A history of the client: calls and replays of the queue. The result lists the operations
  whose callers were told that they succeeded.\<close>

datatype ha_action = HaCall ha_op | HaRetry

fun ha_run :: "('w, 'z) ha_env_scheme \<Rightarrow> nat \<Rightarrow> ha_action list \<Rightarrow> RedisHA \<Rightarrow> 'w \<Rightarrow> (ha_op list \<times> RedisHA \<times> 'w) option" where
  "ha_run env fuel [] ha w = Some ([], ha, w)"
| "ha_run env fuel (HaCall op # as) ha w = (case call_with_retry env op ha w of
      (res, ha1, w1) \<Rightarrow> (case ha_run env fuel as ha1 w1 of
          None \<Rightarrow> None
        | Some (ok, ha2, w2) \<Rightarrow> Some ((case res of Inl _ \<Rightarrow> [] | Inr _ \<Rightarrow> [op]) @ ok, ha2, w2)))"
| "ha_run env fuel (HaRetry # as) ha w = (case retry_degraded_operations env fuel ha w of
      None \<Rightarrow> None
    | Some (n, ha1, w1) \<Rightarrow> ha_run env fuel as ha1 w1)"


definition down_up :: "nat ha_env" where
  "down_up = \<lparr>invoke = (\<lambda>op n. (if n < 2 then Inl ''down'' else Inr (PBool True), Suc n)),
     clock = (\<lambda>n. of_nat n), uniform = (\<lambda>_ _. 0), sleep = (\<lambda>_ n. n)\<rparr>"

definition two_tries :: RedisHA where
  "two_tries = (new_RedisHA 2 5 30 True)\<lparr>client_ready := True, is_connected := True\<rparr>"


subsection \<open>The replay ends\<close>

text \<open>
  The loop runs over a list that its own calls extend. A call that extends it brings the
  breaker closer to its threshold; once open, the breaker refuses every further call, and a
  refused call extends nothing. The argument needs that the breaker does not become half-open
  again on the way: the clock does not advance by more than the reset timeout.
\<close>

definition within_timeout :: "('w, 'z) ha_env_scheme \<Rightarrow> HaBreaker \<Rightarrow> bool" where
  "within_timeout env b \<longleftrightarrow> (\<forall>w w'. clock env w' - clock env w \<le> reset_timeout b)"

definition blocked :: "('w, 'z) ha_env_scheme \<Rightarrow> HaBreaker \<Rightarrow> bool" where
  "blocked env b \<longleftrightarrow> (\<forall>w. \<not> fst (should_allow (clock env w) b))"

definition weight_ha :: "('w, 'z) ha_env_scheme \<Rightarrow> HaBreaker \<Rightarrow> nat" where
  "weight_ha env b = (if blocked env b then 0 else Suc (nat (failure_threshold b - failure_count b)))"

lemma weight_ha_le: "0 \<le> failure_count b \<Longrightarrow> weight_ha env b \<le> Suc (nat (failure_threshold b))"
  by (simp add: weight_ha_def nat_mono)

lemma fst_should_allow:
  "fst (should_allow now b) \<longleftrightarrow> circuit b \<noteq> HaOpen \<or>
     (\<exists>t. last_failure_time b = Some t \<and> t \<noteq> 0 \<and> now - t > reset_timeout b)"
  by (auto simp: should_allow_def split: ha_state.splits option.splits)

lemma circuit_allowed: "fst (should_allow now b) \<Longrightarrow> circuit (snd (should_allow now b)) \<noteq> HaOpen"
  by (auto simp: should_allow_def split: ha_state.splits option.splits if_splits)

lemma call_extends:
  assumes c: "call_with_retry env op ha w = (res, ha', w')" and wt: "within_timeout env (breaker ha)"
    and q: "degradation_queue ha' \<noteq> degradation_queue ha"
  shows "degradation_queue ha' = degradation_queue ha @ [op] \<and> weight_ha env (breaker ha') < weight_ha env (breaker ha)"
proof -
  let ?b = "snd (should_allow (clock env w) (breaker ha))"
  have al: "fst (should_allow (clock env w) (breaker ha))" and cl: "client_ready ha"
    using c q by (auto simp: call_with_retry_def Let_def split: prod.splits bool.splits if_splits)
  then have "attempts env op (max_attempts ha) 0 (ha\<lparr>breaker := ?b\<rparr>) w = (res, ha', w')"
    using c by (simp add: call_with_retry_def split: prod.splits bool.splits)
  from attempts_effect [OF this] q obtain v where n: "max_attempts ha > 0"
    and ext: "degradation_queue ha' = degradation_queue ha @ [op]"
    and cnt: "failure_count (breaker ha') = failure_count (breaker ha) + int (max_attempts ha)"
    and lf: "last_failure_time (breaker ha') = Some (clock env v)"
    and ci: "circuit (breaker ha') = (if failure_count (breaker ha) + int (max_attempts ha) \<ge> failure_threshold (breaker ha)
       then HaOpen else circuit ?b)"
    and th: "failure_threshold (breaker ha') = failure_threshold (breaker ha)"
    and rt: "reset_timeout (breaker ha') = reset_timeout (breaker ha)"
    by auto
  have w0: "weight_ha env (breaker ha) = Suc (nat (failure_threshold (breaker ha) - failure_count (breaker ha)))"
    using al by (auto simp: weight_ha_def blocked_def)
  have "weight_ha env (breaker ha') < weight_ha env (breaker ha)"
  proof (cases "circuit (breaker ha') = HaOpen")
    case True
    have "blocked env (breaker ha')"
      using True wt lf rt by (auto simp: blocked_def fst_should_allow within_timeout_def not_less)
    then show ?thesis by (simp add: w0 weight_ha_def [of env "breaker ha'"])
  next
    case False
    then have "failure_count (breaker ha) + int (max_attempts ha) < failure_threshold (breaker ha)"
      using ci by (auto split: if_splits)
    then show ?thesis using n by (simp add: w0 weight_ha_def [of env "breaker ha'"] cnt th)
  qed
  with ext show ?thesis by simp
qed

lemma replay_loop_ends:
  assumes "within_timeout env (breaker ha)" and "0 \<le> failure_count (breaker ha)"
  shows "\<exists>fuel y. replay_loop env fuel i n failed ha w = Some y"
  using assms
proof (induction "(length (degradation_queue ha) - i) * (nat (failure_threshold (breaker ha)) + 2) + weight_ha env (breaker ha)"
    arbitrary: i n failed ha w rule: less_induct)
  case less
  let ?W = "nat (failure_threshold (breaker ha)) + 2"
  show ?case
  proof (cases "i < length (degradation_queue ha)")
    case True
    let ?op = "degradation_queue ha ! i"
    obtain res ha1 w1 where c: "call_with_retry env ?op ha w = (res, ha1, w1)" by (cases "call_with_retry env ?op ha w")
    note eff = call_effect [OF c]
    have th: "failure_threshold (breaker ha1) = failure_threshold (breaker ha)" by (rule eff(4))
    have wt: "within_timeout env (breaker ha1)" using less.prems(1) eff(5) by (simp add: within_timeout_def)
    have cnt: "0 \<le> failure_count (breaker ha1)" by (rule eff(6) [OF less.prems(2)])
    have dec: "(length (degradation_queue ha1) - Suc i) * ?W + weight_ha env (breaker ha1)
        < (length (degradation_queue ha) - i) * ?W + weight_ha env (breaker ha)"
    proof (cases "degradation_queue ha1 = degradation_queue ha")
      case True': True
      obtain k where k: "length (degradation_queue ha) - i = Suc k" using True by (metis Suc_diff_Suc)
      then have "length (degradation_queue ha1) - Suc i = k" using True' by simp
      then show ?thesis using k weight_ha_le [OF cnt, of env] th by simp
    next
      case False
      note ext = call_extends [OF c less.prems(1) this]
      then have "length (degradation_queue ha1) - Suc i = length (degradation_queue ha) - i" using True by simp
      with ext show ?thesis by (simp only: add_less_cancel_left)
    qed
    have "\<exists>fuel y. replay_loop env fuel (Suc i) m g ha1 w1 = Some y" for m g
      by (rule less.hyps [OF _ wt cnt]) (use dec th in simp)
    then obtain fuel y where "replay_loop env fuel (Suc i) (case res of Inl _ \<Rightarrow> n | Inr _ \<Rightarrow> Suc n)
        (case res of Inl _ \<Rightarrow> failed @ [?op] | Inr _ \<Rightarrow> failed) ha1 w1 = Some y" by blast
    then have "replay_loop env (Suc fuel) i n failed ha w = Some y"
      using True c by (simp split: sum.splits)
    then show ?thesis by blast
  next
    case False
    then have "replay_loop env (Suc 0) i n failed ha w = Some (n, failed, ha, w)" by simp
    then show ?thesis by blast
  qed
qed

text \<open>
  The replay of the queue returns: although a write that fails again is appended to the
  list the loop runs over, the loop ends, because the breaker opens after finitely many
  failures and refuses the rest, as long as the replay takes no longer than the reset timeout.
\<close>

theorem ha_retry_terminates:
  assumes "within_timeout env (breaker ha)" and "0 \<le> failure_count (breaker ha)"
  shows "\<exists>fuel n ha' w'. retry_degraded_operations env fuel ha w = Some (n, ha', w')"
proof -
  obtain fuel y where y: "replay_loop env fuel 0 0 [] ha w = Some y"
    using replay_loop_ends [OF assms] by blast
  obtain n f h v where "y = (n, f, h, v)" by (cases y)
  with y have "\<exists>n ha' w'. retry_degraded_operations env fuel ha w = Some (n, ha', w')"
    by (simp add: retry_degraded_operations_def)
  then show ?thesis by blast
qed

definition always_down :: "unit ha_env" where
  "always_down = \<lparr>invoke = (\<lambda>op w. (Inl ''down'', w)), clock = (\<lambda>_. 1), uniform = (\<lambda>_ _. 0), sleep = (\<lambda>_ w. w)\<rparr>"

theorem ha_retry_terminates_witness:
  "\<exists>fuel n ha' w'. retry_degraded_operations always_down fuel
     (two_tries\<lparr>degradation_queue := [(''set'', [PStr ''a''], []), (''sadd'', [PStr ''b''], [])]\<rparr>) () = Some (n, ha', w')"
  by (rule ha_retry_terminates)
    (simp_all add: within_timeout_def always_down_def two_tries_def new_RedisHA_def new_HaBreaker_def)

text \<open>
  A replayed write may overwrite a newer one: the queue does not know that the key has been
  written since.
\<close>

definition one_key :: "(nat \<times> pyval) ha_env" where
  "one_key = \<lparr>invoke = (\<lambda>(m, args, kw) (n, v). if n < 2 then (Inl ''down'', (Suc n, v))
       else if m = ''set'' then (Inr (PBool True), (Suc n, args ! 1)) else (Inr v, (Suc n, v))),
     clock = (\<lambda>_. 1), uniform = (\<lambda>_ _. 0), sleep = (\<lambda>_ w. w)\<rparr>"

lemma degraded_write_overwrites_newer:
  "\<exists>ok ha' n. ha_run one_key 5 [HaCall (''set'', [PStr ''k'', PInt 1], []), HaCall (''set'', [PStr ''k'', PInt 2], []), HaRetry]
     two_tries (0, PNone) = Some (ok, ha', (n, PInt 1)) \<and> length ok = 2"
  by (simp add: one_key_def two_tries_def new_RedisHA_def new_HaBreaker_def call_with_retry_def should_allow_def
      ha_failure_def ha_success_def write_methods_def retry_degraded_operations_def eval_nat_numeral)

end
