(* ===== verification/Actor_Pool.thy ===== *)
theory Actor_Pool
  imports Scheduler_Prelude
begin

text \<open>
  The pool of worker actors of one capability (\<^verbatim>\<open>src/workload/actor_pool_manager.py\<close>):
  creation and recovery of workers, least-loaded selection with round-robin, dispatch with one
  retry on a replaced worker, the per-worker fault budget, and resizing.

  A handle is a mutable object shared between the pool and the calls in progress, so handles
  live in a store (\<open>objs\<close>) and the pool is a list of addresses (\<open>workers\<close>); \<^verbatim>\<open>w is worker_h\<close>
  compares addresses. Ray, the worker factory and the workers themselves are the environment:
  the functions of \<open>pool_env\<close>, which may change the world and raise.
\<close>

subsection \<open>Handles\<close>

record ('a, 'f) WorkerHandle =
  wh_name :: string
  wh_actor :: 'a
  inflight :: "'f list"
  fault_times :: "time list"
  wh_alive :: bool

definition new_WorkerHandle :: "string \<Rightarrow> 'a \<Rightarrow> ('a, 'f) WorkerHandle" where
  "new_WorkerHandle name a = \<lparr>wh_name = name, wh_actor = a, inflight = [], fault_times = [], wh_alive = True\<rparr>"

definition handle_pending :: "('a, 'f) WorkerHandle \<Rightarrow> nat" where
  "handle_pending h = length (inflight h)"

definition FAULT_WINDOW :: rat where
  "FAULT_WINDOW = 300"

definition MAX_REPLACES :: nat where
  "MAX_REPLACES = 3"

definition is_tripped :: "time \<Rightarrow> ('a, 'f) WorkerHandle \<Rightarrow> bool" where
  "is_tripped now h \<longleftrightarrow> length (filter (\<lambda>t. now - t < FAULT_WINDOW) (fault_times h)) \<ge> MAX_REPLACES"

definition record_fault :: "time \<Rightarrow> ('a, 'f) WorkerHandle \<Rightarrow> ('a, 'f) WorkerHandle" where
  "record_fault now h = h\<lparr>fault_times := filter (\<lambda>t. t > now - FAULT_WINDOW) (fault_times h @ [now])\<rparr>"

subsection \<open>The pool and its environment\<close>

datatype pool_exn = RayActorError | ActorDiedError | GetTimeoutError | OwnerDiedError
  | UserError string | NoWorkers | NoMethod

record ('a, 'f, 'w) pool_env =
  ray_available :: bool
  get_actor :: "string \<Rightarrow> 'w \<Rightarrow> 'a option \<times> 'w"
  factory :: "(string \<Rightarrow> nat \<Rightarrow> 'w \<Rightarrow> 'a option \<times> 'w) option"
  has_method :: "'a \<Rightarrow> string \<Rightarrow> bool"
  remote :: "'a \<Rightarrow> string \<Rightarrow> dict \<Rightarrow> 'w \<Rightarrow> (pool_exn + 'f) \<times> 'w"
  ray_get :: "'f \<Rightarrow> pyval \<Rightarrow> 'w \<Rightarrow> (pool_exn + pyval) \<times> 'w"
  local_call :: "'a \<Rightarrow> string \<Rightarrow> dict \<Rightarrow> 'w \<Rightarrow> (pool_exn + pyval) \<times> 'w"
  is_ready :: "'f \<Rightarrow> 'w \<Rightarrow> bool"
  ray_cancel :: "'f \<Rightarrow> 'w \<Rightarrow> 'w"
  ray_kill :: "'a \<Rightarrow> 'w \<Rightarrow> 'w"
  pool_clock :: "'w \<Rightarrow> time"

definition is_actor_fault :: "bool \<Rightarrow> pool_exn \<Rightarrow> bool" where
  "is_actor_fault ray e \<longleftrightarrow> ray \<and> e \<in> {RayActorError, ActorDiedError, GetTimeoutError, OwnerDiedError}"

record ('a, 'f) ActorPool =
  ap_capability :: string
  ap_cluster_id :: string
  ap_tenant_id :: string
  target_size :: nat
  max_size :: int
  objs :: "('a, 'f) WorkerHandle list"
  workers :: "nat list"
  next_index :: nat

definition new_ActorPool :: "string \<Rightarrow> string \<Rightarrow> string \<Rightarrow> nat \<Rightarrow> int \<Rightarrow> ('a, 'f) ActorPool" where
  "new_ActorPool cap cluster tenant target mx =
     \<lparr>ap_capability = cap, ap_cluster_id = cluster, ap_tenant_id = tenant, target_size = target, max_size = mx,
      objs = [], workers = [], next_index = 0\<rparr>"

definition worker_name :: "('a, 'f) ActorPool \<Rightarrow> nat \<Rightarrow> string" where
  "worker_name p idx =
     (let tid = (if ap_tenant_id p = [] then ''default'' else ap_tenant_id p)
      in ''worker_'' @ tid @ ''_'' @ ap_cluster_id p @ ''_'' @ ap_capability p @ ''_'' @ nat_str idx)"

text \<open>\<open>None\<close>: there is no such actor and none could be created.\<close>

definition try_recover_or_create :: "('a, 'f, 'w) pool_env \<Rightarrow> string \<Rightarrow> nat \<Rightarrow> 'w \<Rightarrow> 'a option \<times> 'w" where
  "try_recover_or_create env name idx w =
     (let (found, w1) = (if ray_available env then get_actor env name w else (None, w))
      in case found of
           Some a \<Rightarrow> (Some a, w1)
         | None \<Rightarrow> (case factory env of None \<Rightarrow> (None, w1) | Some f \<Rightarrow> f name idx w1))"

definition add_worker :: "('a, 'f) ActorPool \<Rightarrow> string \<Rightarrow> 'a \<Rightarrow> ('a, 'f) ActorPool" where
  "add_worker p name a = p\<lparr>objs := objs p @ [new_WorkerHandle name a], workers := workers p @ [length (objs p)]\<rparr>"

text \<open>The loop of \<^verbatim>\<open>start\<close> and of scaling up, over the indices of the workers to add.\<close>

fun add_workers :: "('a, 'f, 'w) pool_env \<Rightarrow> nat list \<Rightarrow> ('a, 'f) ActorPool \<Rightarrow> 'w \<Rightarrow> ('a, 'f) ActorPool \<times> 'w" where
  "add_workers env [] p w = (p, w)"
| "add_workers env (idx # is) p w =
     (case try_recover_or_create env (worker_name p idx) idx w of
        (None, w1) \<Rightarrow> add_workers env is p w1
      | (Some a, w1) \<Rightarrow> add_workers env is (add_worker p (worker_name p idx) a) w1)"

definition start_pool :: "('a, 'f, 'w) pool_env \<Rightarrow> ('a, 'f) ActorPool \<Rightarrow> 'w \<Rightarrow> ('a, 'f) ActorPool \<times> 'w" where
  "start_pool env p w = add_workers env [0..<target_size p] p w"

subsection \<open>Selection\<close>

definition refresh_inflight :: "('a, 'f, 'w) pool_env \<Rightarrow> 'w \<Rightarrow> ('a, 'f) WorkerHandle \<Rightarrow> ('a, 'f) WorkerHandle" where
  "refresh_inflight env w h = (if ray_available env then h\<lparr>inflight := filter (\<lambda>f. \<not> is_ready env f w) (inflight h)\<rparr> else h)"

definition refresh_all :: "('a, 'f, 'w) pool_env \<Rightarrow> 'w \<Rightarrow> ('a, 'f) ActorPool \<Rightarrow> ('a, 'f) ActorPool" where
  "refresh_all env w p = p\<lparr>objs := foldl (\<lambda>os i. os[i := refresh_inflight env w (os ! i)]) (objs p) (workers p)\<rparr>"

definition load_of :: "('a, 'f) ActorPool \<Rightarrow> nat \<Rightarrow> nat" where
  "load_of p i = handle_pending (objs p ! i)"

text \<open>The result is the address of the selected handle.\<close>

definition select_worker :: "('a, 'f, 'w) pool_env \<Rightarrow> 'w \<Rightarrow> ('a, 'f) ActorPool \<Rightarrow> (pool_exn + nat) \<times> ('a, 'f) ActorPool" where
  "select_worker env w p =
     (if workers p = [] then (Inl NoWorkers, p)
      else let p1 = refresh_all env w p; n = length (workers p1);
               min_pending = min_list (map (load_of p1) (workers p1))
           in case List.find (\<lambda>offset. load_of p1 (workers p1 ! ((next_index p1 + offset) mod n)) = min_pending) [0..<n] of
                Some offset \<Rightarrow>
                  (let idx = (next_index p1 + offset) mod n
                   in (Inr (workers p1 ! idx), p1\<lparr>next_index := (idx + 1) mod n\<rparr>))
              | None \<Rightarrow> (Inr (workers p1 ! (next_index p1 mod n)), p1))"

subsection \<open>Dispatch\<close>

definition upd_handle :: "nat \<Rightarrow> (('a, 'f) WorkerHandle \<Rightarrow> ('a, 'f) WorkerHandle) \<Rightarrow> ('a, 'f) ActorPool \<Rightarrow> ('a, 'f) ActorPool" where
  "upd_handle i f p = p\<lparr>objs := (objs p)[i := f (objs p ! i)]\<rparr>"

text \<open>\<^verbatim>\<open>ray.get\<close> blocks the event loop, so no other operation of the pool runs between the two
  changes of the list of calls in flight.\<close>

definition dispatch_to :: "('a, 'f, 'w) pool_env \<Rightarrow> nat \<Rightarrow> string \<Rightarrow> dict \<Rightarrow> ('a, 'f) ActorPool \<Rightarrow> 'w \<Rightarrow> (pool_exn + pyval) \<times> ('a, 'f) ActorPool \<times> 'w" where
  "dispatch_to env i meth kwargs p w =
     (let a = wh_actor (objs p ! i)
      in if ray_available env \<and> has_method env a meth
         then (case remote env a meth kwargs w of
                 (Inl e, w1) \<Rightarrow> (Inl e, p, w1)
               | (Inr ref, w1) \<Rightarrow>
                   (let p1 = upd_handle i (\<lambda>h. h\<lparr>inflight := inflight h @ [ref]\<rparr>) p;
                        (res, w2) = ray_get env ref (dict_get kwargs ''timeout_seconds'' (PInt 60)) w1
                    in (res, upd_handle i (\<lambda>h. h\<lparr>inflight := remove1 ref (inflight h)\<rparr>) p1, w2)))
         else if has_method env a meth
         then (let (res, w1) = local_call env a meth kwargs w in (res, p, w1))
         else (Inl NoMethod, p, w))"

definition position :: "nat \<Rightarrow> nat list \<Rightarrow> nat option" where
  "position i is = List.find (\<lambda>k. is ! k = i) [0..<length is]"

definition replace_worker :: "('a, 'f, 'w) pool_env \<Rightarrow> nat \<Rightarrow> ('a, 'f) ActorPool \<Rightarrow> 'w \<Rightarrow> 'a option \<times> ('a, 'f) ActorPool \<times> 'w" where
  "replace_worker env i p w = (case position i (workers p) of
      None \<Rightarrow> (None, p, w)
    | Some idx \<Rightarrow> (case try_recover_or_create env (worker_name p idx) idx w of
         (None, w1) \<Rightarrow> (None, p, w1)
       | (Some a, w1) \<Rightarrow> (Some a, upd_handle i (\<lambda>h. h\<lparr>wh_actor := a, inflight := [], wh_alive := True\<rparr>) p, w1)))"

definition call_worker :: "('a, 'f, 'w) pool_env \<Rightarrow> nat \<Rightarrow> string \<Rightarrow> dict \<Rightarrow> ('a, 'f) ActorPool \<Rightarrow> 'w \<Rightarrow> (pool_exn + pyval) \<times> ('a, 'f) ActorPool \<times> 'w" where
  "call_worker env i meth kwargs p w = (case dispatch_to env i meth kwargs p w of
      (Inr v, p1, w1) \<Rightarrow> (Inr v, p1, w1)
    | (Inl e, p1, w1) \<Rightarrow>
        (if \<not> is_actor_fault (ray_available env) e then (Inl e, p1, w1)
         else if is_tripped (pool_clock env w1) (objs p1 ! i) then (Inl e, p1, w1)
         else (case replace_worker env i (upd_handle i (record_fault (pool_clock env w1)) p1) w1 of
                 (None, p2, w2) \<Rightarrow> (Inl e, p2, w2)
               | (Some a, p2, w2) \<Rightarrow> dispatch_to env i meth kwargs p2 w2)))"

text \<open>\<^verbatim>\<open>execute\<close>, \<^verbatim>\<open>submit\<close> and \<^verbatim>\<open>submit_streaming\<close> select a worker and call it.\<close>

definition on_worker :: "('a, 'f, 'w) pool_env \<Rightarrow> string \<Rightarrow> dict \<Rightarrow> ('a, 'f) ActorPool \<Rightarrow> 'w \<Rightarrow> (pool_exn + pyval) \<times> ('a, 'f) ActorPool \<times> 'w" where
  "on_worker env meth kwargs p w = (case select_worker env w p of
      (Inl e, p1) \<Rightarrow> (Inl e, p1, w)
    | (Inr i, p1) \<Rightarrow> call_worker env i meth kwargs p1 w)"

definition pool_execute :: "('a, 'f, 'w) pool_env \<Rightarrow> string \<Rightarrow> string \<Rightarrow> dict \<Rightarrow> rat \<Rightarrow> ('a, 'f) ActorPool \<Rightarrow> 'w \<Rightarrow> (pool_exn + pyval) \<times> ('a, 'f) ActorPool \<times> 'w" where
  "pool_execute env tid step payload tmo = on_worker env ''execute''
     [(''task_id'', PStr tid), (''step_name'', PStr step), (''payload'', PDict payload), (''timeout_seconds'', PFloat tmo)]"

definition pool_submit :: "('a, 'f, 'w) pool_env \<Rightarrow> string \<Rightarrow> string \<Rightarrow> dict \<Rightarrow> ('a, 'f) ActorPool \<Rightarrow> 'w \<Rightarrow> (pool_exn + pyval) \<times> ('a, 'f) ActorPool \<times> 'w" where
  "pool_submit env tid step payload = on_worker env ''submit''
     [(''task_id'', PStr tid), (''step_name'', PStr step), (''payload'', PDict payload)]"

definition pool_submit_streaming :: "('a, 'f, 'w) pool_env \<Rightarrow> string \<Rightarrow> string \<Rightarrow> dict \<Rightarrow> string \<Rightarrow> ('a, 'f) ActorPool \<Rightarrow> 'w \<Rightarrow> (pool_exn + pyval) \<times> ('a, 'f) ActorPool \<times> 'w" where
  "pool_submit_streaming env tid step payload buf = on_worker env ''submit_streaming''
     [(''task_id'', PStr tid), (''step_name'', PStr step), (''payload'', PDict payload), (''buffer_key'', PStr buf)]"

subsection \<open>Resizing\<close>

text \<open>Only a removed worker with calls in flight is cancelled and killed.\<close>

definition discard_worker :: "('a, 'f, 'w) pool_env \<Rightarrow> ('a, 'f) WorkerHandle \<Rightarrow> 'w \<Rightarrow> 'w" where
  "discard_worker env h w =
     (if handle_pending h > 0 \<and> ray_available env
      then ray_kill env (wh_actor h) (foldl (\<lambda>w f. ray_cancel env f w) w (inflight h)) else w)"

definition resize :: "('a, 'f, 'w) pool_env \<Rightarrow> int \<Rightarrow> ('a, 'f) ActorPool \<Rightarrow> 'w \<Rightarrow> ('a, 'f) ActorPool \<times> 'w" where
  "resize env requested p w =
     (let new_size = nat (max 0 (min requested (max_size p))); current = length (workers p)
      in if new_size > current then add_workers env [current..<new_size] p w
         else if new_size < current
         then (let ws = sort_key (load_of p) (workers p);
                   w' = foldl (\<lambda>w i. discard_worker env (objs p ! i) w) w (drop new_size ws);
                   kept = take new_size ws
               in (p\<lparr>workers := kept, next_index := next_index p mod max 1 (length kept)\<rparr>, w'))
         else (p, w))"

definition get_status :: "('a, 'f, 'w) pool_env \<Rightarrow> 'w \<Rightarrow> ('a, 'f) ActorPool \<Rightarrow> (nat \<times> nat \<times> (string \<times> nat \<times> bool \<times> bool) list) \<times> ('a, 'f) ActorPool" where
  "get_status env w p =
     (let p1 = refresh_all env w p
      in ((length (workers p1), sum_list (map (load_of p1) (workers p1)),
           map (\<lambda>i. let h = objs p1 ! i in (wh_name h, handle_pending h, wh_alive h, is_tripped (pool_clock env w) h)) (workers p1)), p1))"

subsection \<open>Well-formed pools\<close>

definition wf_pool :: "('a, 'f) ActorPool \<Rightarrow> bool" where
  "wf_pool p \<longleftrightarrow> distinct (workers p) \<and> (\<forall>i \<in> set (workers p). i < length (objs p))"

text \<open>No call is in flight on any handle.\<close>

definition idle_pool :: "('a, 'f) ActorPool \<Rightarrow> bool" where
  "idle_pool p \<longleftrightarrow> (\<forall>h \<in> set (objs p). inflight h = [])"

lemma wf_idle_add_worker: "wf_pool p \<Longrightarrow> idle_pool p \<Longrightarrow> wf_pool (add_worker p n a) \<and> idle_pool (add_worker p n a)"
  by (auto simp: wf_pool_def idle_pool_def add_worker_def new_WorkerHandle_def less_Suc_eq)

lemma add_workers_keeps:
  assumes "wf_pool p" and "idle_pool p" and "add_workers env is p w = (p', w')"
  shows "wf_pool p' \<and> idle_pool p' \<and> max_size p' = max_size p \<and> next_index p' = next_index p \<and>
    length (workers p') \<le> length (workers p) + length is"
  using assms
proof (induction "is" arbitrary: p w)
  case (Cons idx "is")
  obtain r w1 where r: "try_recover_or_create env (worker_name p idx) idx w = (r, w1)"
    by (cases "try_recover_or_create env (worker_name p idx) idx w")
  show ?case
  proof (cases r)
    case None
    then have "add_workers env is p w1 = (p', w')" using Cons.prems(3) r by simp
    from Cons.IH [OF Cons.prems(1,2) this] show ?thesis by simp
  next
    case (Some a)
    let ?q = "add_worker p (worker_name p idx) a"
    have q: "wf_pool ?q \<and> idle_pool ?q" by (rule wf_idle_add_worker [OF Cons.prems(1,2)])
    have "add_workers env is ?q w1 = (p', w')" using Cons.prems(3) r Some by simp
    from Cons.IH [OF conjunct1 [OF q] conjunct2 [OF q] this] show ?thesis by (simp add: add_worker_def)
  qed
qed simp

lemma foldl_refresh_idle:
  "(\<forall>h \<in> set os. inflight h = []) \<Longrightarrow> (\<forall>i \<in> set is. i < length os) \<Longrightarrow>
   foldl (\<lambda>os i. os[i := refresh_inflight env w (os ! i)]) os is = os"
proof (induction "is")
  case (Cons i "is")
  have "refresh_inflight env w (os ! i) = os ! i"
    using Cons.prems by (auto simp: refresh_inflight_def)
  then show ?case using Cons by simp
qed simp

lemma refresh_all_idle: "wf_pool p \<Longrightarrow> idle_pool p \<Longrightarrow> refresh_all env w p = p"
  by (simp add: refresh_all_def foldl_refresh_idle wf_pool_def idle_pool_def)

lemma load_idle: "wf_pool p \<Longrightarrow> idle_pool p \<Longrightarrow> i \<in> set (workers p) \<Longrightarrow> load_of p i = 0"
  by (simp add: load_of_def handle_pending_def idle_pool_def wf_pool_def)

lemma min_list_zero: "xs \<noteq> [] \<Longrightarrow> \<forall>x \<in> set xs. x = 0 \<Longrightarrow> min_list xs = (0 :: nat)"
  by (metis min_list_Min Min_in finite_set set_empty)

text \<open>In an idle pool the selection takes the worker at the next index.\<close>

lemma select_idle:
  assumes "wf_pool p" and "idle_pool p" and "workers p \<noteq> []"
  shows "select_worker env w p =
    (Inr (workers p ! (next_index p mod length (workers p))),
     p\<lparr>next_index := (next_index p mod length (workers p) + 1) mod length (workers p)\<rparr>)"
proof -
  let ?n = "length (workers p)"
  have n: "?n > 0" using assms(3) by simp
  have z: "load_of p (workers p ! (k mod ?n)) = 0" for k
    using load_idle [OF assms(1,2)] n by simp
  have m: "min_list (map (load_of p) (workers p)) = 0"
    using assms load_idle [OF assms(1,2)] by (intro min_list_zero) auto
  have "List.find (\<lambda>offset. load_of p (workers p ! ((next_index p + offset) mod ?n)) = 0) [0..<?n] = Some 0"
    using n z by (simp add: upt_conv_Cons)
  then show ?thesis by (simp add: select_worker_def refresh_all_idle assms m Let_def)
qed

lemma upd_handle_simps [simp]:
  "workers (upd_handle i f p) = workers p" "max_size (upd_handle i f p) = max_size p"
  "next_index (upd_handle i f p) = next_index p" "length (objs (upd_handle i f p)) = length (objs p)"
  by (simp_all add: upd_handle_def)

lemma wf_idle_upd:
  assumes "wf_pool p" and "idle_pool p" and "inflight (f (objs p ! i)) = []"
  shows "wf_pool (upd_handle i f p) \<and> idle_pool (upd_handle i f p)"
proof -
  have "set ((objs p)[i := f (objs p ! i)]) \<subseteq> insert (f (objs p ! i)) (set (objs p))"
    by (rule set_update_subset_insert)
  then show ?thesis using assms by (auto simp: wf_pool_def idle_pool_def upd_handle_def)
qed

lemma upd_handle_same: "f (g (objs p ! i)) = objs p ! i \<Longrightarrow> upd_handle i f (upd_handle i g p) = p"
  by (cases "i < length (objs p)") (simp_all add: upd_handle_def list_update_beyond)

text \<open>A call leaves no trace in the list of calls in flight.\<close>

lemma dispatch_keeps:
  assumes d: "dispatch_to env i m kw p w = (res, p', w')" and "idle_pool p" and "i < length (objs p)"
  shows "p' = p"
proof -
  let ?a = "wh_actor (objs p ! i)"
  have emp: "inflight (objs p ! i) = []" using assms(2,3) by (simp add: idle_pool_def)
  have u: "upd_handle i (\<lambda>h. h\<lparr>inflight := remove1 ref (inflight h)\<rparr>) (upd_handle i (\<lambda>h. h\<lparr>inflight := inflight h @ [ref]\<rparr>) p) = p" for ref
    by (rule upd_handle_same) (simp add: emp)
  consider "ray_available env \<and> has_method env ?a m" | "\<not> ray_available env \<and> has_method env ?a m" | "\<not> has_method env ?a m"
    by blast
  then show ?thesis
  proof cases
    case 1
    obtain r w1 where r: "remote env ?a m kw w = (r, w1)" by (cases "remote env ?a m kw w")
    show ?thesis
    proof (cases r)
      case (Inl e)
      then show ?thesis using d 1 r by (simp add: dispatch_to_def)
    next
      case (Inr ref)
      then show ?thesis using d 1 r by (simp add: dispatch_to_def u split: prod.splits)
    qed
  next
    case 2
    then show ?thesis using d by (simp add: dispatch_to_def split: prod.splits)
  next
    case 3
    then show ?thesis using d by (simp add: dispatch_to_def)
  qed
qed

lemma replace_keeps:
  assumes "replace_worker env i p w = (r, p', w')" and "wf_pool p" and "idle_pool p"
  shows "wf_pool p' \<and> idle_pool p' \<and> workers p' = workers p \<and> max_size p' = max_size p \<and> next_index p' = next_index p
    \<and> length (objs p') = length (objs p)"
proof -
  have "p' = p \<or> (\<exists>a. p' = upd_handle i (\<lambda>h. h\<lparr>wh_actor := a, inflight := [], wh_alive := True\<rparr>) p)"
    using assms(1) by (auto simp: replace_worker_def split: option.splits prod.splits)
  moreover have "wf_pool (upd_handle i (\<lambda>h. h\<lparr>wh_actor := a, inflight := [], wh_alive := True\<rparr>) p) \<and>
    idle_pool (upd_handle i (\<lambda>h. h\<lparr>wh_actor := a, inflight := [], wh_alive := True\<rparr>) p)" for a
    by (rule wf_idle_upd [OF assms(2,3)]) simp
  ultimately show ?thesis using assms(2,3) by auto
qed

lemma call_keeps:
  assumes c: "call_worker env i m kw p w = (res, p', w')" and wf: "wf_pool p" and id: "idle_pool p" and i: "i < length (objs p)"
  shows "wf_pool p' \<and> idle_pool p' \<and> workers p' = workers p \<and> max_size p' = max_size p \<and> next_index p' = next_index p"
proof -
  obtain r1 p1 w1 where d: "dispatch_to env i m kw p w = (r1, p1, w1)" by (cases "dispatch_to env i m kw p w")
  have p1: "p1 = p" by (rule dispatch_keeps [OF d id i])
  let ?p2 = "upd_handle i (record_fault (pool_clock env w1)) p"
  have "inflight (objs p ! i) = []" using id i by (simp add: idle_pool_def)
  then have p2: "wf_pool ?p2 \<and> idle_pool ?p2"
    by (intro wf_idle_upd [OF wf id]) (simp add: record_fault_def)
  obtain r2 p3 w2 where r: "replace_worker env i ?p2 w1 = (r2, p3, w2)" by (cases "replace_worker env i ?p2 w1")
  have p3: "wf_pool p3 \<and> idle_pool p3 \<and> workers p3 = workers p \<and> max_size p3 = max_size p \<and> next_index p3 = next_index p
    \<and> length (objs p3) = length (objs p)"
    using replace_keeps [OF r] p2 by simp
  have "p' = p \<or> p' = p3"
  proof -
    have "p' = p3" if "dispatch_to env i m kw p3 w2 = (res, p', w')"
      by (rule dispatch_keeps [OF that]) (use p3 i in simp_all)
    then show ?thesis using c by (cases r1; cases r2) (auto simp: call_worker_def d p1 r split: if_splits)
  qed
  then show ?thesis using p3 wf id by auto
qed

lemma select_keeps:
  assumes "select_worker env w p = (r, p')" and "wf_pool p" and "idle_pool p"
  shows "wf_pool p' \<and> idle_pool p' \<and> workers p' = workers p \<and> max_size p' = max_size p \<and> objs p' = objs p"
    and "r = Inr i \<Longrightarrow> i \<in> set (workers p)"
proof -
  have "\<exists>k. p' = p\<lparr>next_index := k\<rparr> \<and> (\<forall>i. r = Inr i \<longrightarrow> i \<in> set (workers p))"
  proof (cases "workers p = []")
    case True
    then have "r = Inl NoWorkers" "p' = p\<lparr>next_index := next_index p\<rparr>" using assms(1) by (auto simp: select_worker_def)
    then show ?thesis by blast
  next
    case False
    then show ?thesis using assms(1) select_idle [OF assms(2,3) False, of env w] by auto
  qed
  then obtain k where p': "p' = p\<lparr>next_index := k\<rparr>" and r: "\<forall>i. r = Inr i \<longrightarrow> i \<in> set (workers p)" by blast
  show "wf_pool p' \<and> idle_pool p' \<and> workers p' = workers p \<and> max_size p' = max_size p \<and> objs p' = objs p"
    using assms(2,3) by (simp add: p' wf_pool_def idle_pool_def)
  show "r = Inr i \<Longrightarrow> i \<in> set (workers p)" using r by blast
qed

lemma on_worker_keeps:
  assumes c: "on_worker env m kw p w = (res, p', w')" and wf: "wf_pool p" and id: "idle_pool p"
  shows "wf_pool p' \<and> idle_pool p' \<and> workers p' = workers p \<and> max_size p' = max_size p"
proof -
  obtain r p1 where s: "select_worker env w p = (r, p1)" by (cases "select_worker env w p")
  note k = select_keeps [OF s wf id]
  show ?thesis
  proof (cases r)
    case (Inl e)
    then show ?thesis using c s k(1) by (simp add: on_worker_def)
  next
    case (Inr i)
    have "i < length (objs p1)" using k(1) k(2) [OF Inr] by (auto simp: wf_pool_def)
    moreover have "call_worker env i m kw p1 w = (res, p', w')" using c s Inr by (simp add: on_worker_def)
    ultimately show ?thesis using call_keeps k(1) by metis
  qed
qed

lemma resize_keeps:
  assumes "resize env k p w = (p', w')" and wf: "wf_pool p" and id: "idle_pool p"
  shows "wf_pool p' \<and> idle_pool p' \<and> max_size p' = max_size p"
proof -
  let ?n = "nat (max 0 (min k (max_size p)))"
  consider "?n > length (workers p)" | "?n < length (workers p)" | "?n = length (workers p)" by linarith
  then show ?thesis
  proof cases
    case 1
    then have "add_workers env [length (workers p)..<?n] p w = (p', w')" using assms(1) by (simp add: resize_def Let_def)
    from add_workers_keeps [OF wf id this] show ?thesis by simp
  next
    case 2
    let ?kept = "take ?n (sort_key (load_of p) (workers p))"
    have p': "p' = p\<lparr>workers := ?kept, next_index := next_index p mod max 1 (length ?kept)\<rparr>"
      using assms(1) 2 by (simp add: resize_def Let_def)
    have "distinct ?kept" using wf by (simp add: wf_pool_def)
    moreover have "i < length (objs p)" if "i \<in> set ?kept" for i
      using in_set_takeD [OF that] wf by (simp add: wf_pool_def)
    ultimately show ?thesis using id by (simp add: p' wf_pool_def idle_pool_def)
  next
    case 3
    then show ?thesis using assms by (simp add: resize_def Let_def)
  qed
qed

subsection \<open>Selection is fair\<close>

text \<open>The states a pool goes through: started, then used, resized and inspected in any order.\<close>

inductive pool_reachable :: "('a, 'f, 'w) pool_env \<Rightarrow> ('a, 'f) ActorPool \<Rightarrow> bool" for env where
  started: "start_pool env (new_ActorPool cap cluster tenant target mx) w = (p, w') \<Longrightarrow> pool_reachable env p"
| used: "pool_reachable env p \<Longrightarrow> on_worker env meth kwargs p w = (res, p', w') \<Longrightarrow> pool_reachable env p'"
| resized: "pool_reachable env p \<Longrightarrow> resize env k p w = (p', w') \<Longrightarrow> pool_reachable env p'"
| inspected: "pool_reachable env p \<Longrightarrow> get_status env w p = (st, p') \<Longrightarrow> pool_reachable env p'"

lemma reachable_idle: "pool_reachable env p \<Longrightarrow> wf_pool p \<and> idle_pool p"
proof (induction rule: pool_reachable.induct)
  case (started cap cluster tenant target mx w p w')
  have "wf_pool (new_ActorPool cap cluster tenant target mx :: ('a, 'b) ActorPool)"
    "idle_pool (new_ActorPool cap cluster tenant target mx :: ('a, 'b) ActorPool)"
    by (simp_all add: wf_pool_def idle_pool_def new_ActorPool_def)
  from add_workers_keeps [OF this started [unfolded start_pool_def]] show ?case by blast
next
  case (used p meth kwargs w res p' w')
  from on_worker_keeps [OF used(2)] used(3) show ?case by simp
next
  case (resized p k w p' w')
  from resize_keeps [OF resized(2)] resized(3) show ?case by simp
next
  case (inspected p w st p')
  then show ?case by (auto simp: get_status_def Let_def refresh_all_idle)
qed

fun selections :: "('a, 'f, 'w) pool_env \<Rightarrow> 'w \<Rightarrow> nat \<Rightarrow> ('a, 'f) ActorPool \<Rightarrow> nat list" where
  "selections env w 0 p = []"
| "selections env w (Suc k) p = (case select_worker env w p of (Inl _, p1) \<Rightarrow> [] | (Inr i, p1) \<Rightarrow> i # selections env w k p1)"

lemma selections_idle:
  assumes "wf_pool p" and "idle_pool p" and "workers p \<noteq> []"
  shows "selections env w k p = map (\<lambda>j. workers p ! ((next_index p + j) mod length (workers p))) [0..<k]"
  using assms
proof (induction k arbitrary: p)
  case (Suc k)
  let ?n = "length (workers p)"
  let ?q = "p\<lparr>next_index := (next_index p mod ?n + 1) mod ?n\<rparr>"
  have "wf_pool ?q" "idle_pool ?q" "workers ?q \<noteq> []" using Suc.prems by (simp_all add: wf_pool_def idle_pool_def)
  from Suc.IH [OF this] have "selections env w k ?q = map (\<lambda>j. workers p ! ((next_index p + Suc j) mod ?n)) [0..<k]"
    by (simp add: mod_simps)
  moreover have "selections env w (Suc k) p = workers p ! (next_index p mod ?n) # selections env w k ?q"
    by (simp add: select_idle [OF Suc.prems])
  ultimately show ?case by (simp add: upt_conv_Cons map_Suc_upt [symmetric] del: upt_Suc selections.simps)
qed simp

text \<open>
  C38. Selection is round-robin: in every state a pool can be in, as many selections as there
  are workers, one after the other, return every worker exactly once, in the order of the pool
  starting at the next index.
\<close>

theorem pool_round_robin:
  assumes "pool_reachable env p" and "workers p \<noteq> []"
  shows "selections env w (length (workers p)) p = rotate (next_index p) (workers p)
    \<and> distinct (workers p) \<and> (\<forall>i \<in> set (workers p). i < length (objs p) \<and> handle_pending (objs p ! i) = 0)"
proof -
  note wf = reachable_idle [OF assms(1)]
  have "selections env w (length (workers p)) p = rotate (next_index p) (workers p)"
    using wf assms(2) by (intro nth_equalityI) (simp_all add: selections_idle nth_rotate)
  moreover have "\<forall>i \<in> set (workers p). handle_pending (objs p ! i) = 0"
    using wf load_idle by (metis load_of_def)
  ultimately show ?thesis using wf by (simp add: wf_pool_def)
qed

text \<open>An environment without Ray, for the witnesses: the factory numbers the workers it creates,
  and every worker answers with its number.\<close>

definition local_env :: "(nat, unit, nat) pool_env" where
  "local_env = \<lparr>ray_available = False, get_actor = (\<lambda>_ w. (None, w)), factory = Some (\<lambda>_ _ w. (Some w, Suc w)),
     has_method = (\<lambda>_ _. True), remote = (\<lambda>_ _ _ w. (Inl NoMethod, w)), ray_get = (\<lambda>_ _ w. (Inl NoMethod, w)),
     local_call = (\<lambda>a _ _ w. (Inr (PInt (int a)), w)), is_ready = (\<lambda>_ _. True),
     ray_cancel = (\<lambda>_ w. w), ray_kill = (\<lambda>_ w. w), pool_clock = (\<lambda>_. 0)\<rparr>"

definition three_workers :: "(nat, unit) ActorPool" where
  "three_workers = fst (start_pool local_env (new_ActorPool ''ocr'' ''c1'' ''t1'' 3 8) 0)"

lemma three_workers_reachable: "pool_reachable local_env three_workers"
  unfolding three_workers_def
  by (rule pool_reachable.started [OF prod.collapse [symmetric]])

lemma three_workers_list: "workers three_workers = [0, 1, 2]" "next_index three_workers = 0"
  by code_simp+

theorem pool_round_robin_witness: "selections local_env 0 3 three_workers = [0, 1, 2]"
  using pool_round_robin [OF three_workers_reachable, of 0]
  by (simp add: three_workers_list numeral_3_eq_3 del: selections.simps)

lemma find_upt_first:
  "List.find P [0..<n] = Some k \<Longrightarrow> k < n \<and> P k \<and> (\<forall>j < k. \<not> P j)"
  by (auto simp: find_Some_iff)

lemma cyclic_reach: "x < n \<Longrightarrow> \<exists>k < n. (a + k) mod n = (x :: nat)"
proof -
  assume x: "x < n"
  then have "x \<in> set (rotate a [0..<n])" by simp
  then obtain k where "k < n" "rotate a [0..<n] ! k = x" by (auto simp: in_set_conv_nth simp del: set_rotate)
  then show ?thesis using x by (auto simp: nth_rotate)
qed

text \<open>
  Selection is least-loaded: with calls in flight, the selected worker has as few of them
  as any worker of the pool, it is the first such worker in cyclic order from the next index,
  and the next index moves behind it. An error is raised only by an empty pool.
\<close>

theorem select_least_loaded:
  assumes "workers p \<noteq> []" and "select_worker env w p = (r, p')"
  shows "\<exists>k < length (workers p). r = Inr (workers p ! ((next_index p + k) mod length (workers p)))
    \<and> next_index p' = (next_index p + k + 1) mod length (workers p)
    \<and> p' = (refresh_all env w p)\<lparr>next_index := next_index p'\<rparr>
    \<and> (\<forall>j \<in> set (workers p). load_of p' (workers p ! ((next_index p + k) mod length (workers p))) \<le> load_of p' j)
    \<and> (\<forall>j < k. load_of p' (workers p ! ((next_index p + k) mod length (workers p)))
         < load_of p' (workers p ! ((next_index p + j) mod length (workers p))))"
proof -
  let ?q = "refresh_all env w p" and ?n = "length (workers p)"
  let ?at = "\<lambda>k. workers p ! ((next_index p + k) mod ?n)"
  let ?m = "min_list (map (load_of ?q) (workers p))"
  have q: "workers ?q = workers p" "next_index ?q = next_index p" by (simp_all add: refresh_all_def)
  have n: "?n > 0" using assms(1) by simp
  have m: "?m = Min (load_of ?q ` set (workers p))" using assms(1) by (simp add: min_list_Min)
  then have le: "?m \<le> load_of ?q j" if "j \<in> set (workers p)" for j using that by simp
  have "?m \<in> load_of ?q ` set (workers p)" unfolding m by (rule Min_in) (use assms(1) in auto)
  then obtain x where x: "x < ?n" "load_of ?q (workers p ! x) = ?m" by (auto simp: in_set_conv_nth)
  have "\<exists>k < ?n. (next_index p + k) mod ?n = x" by (rule cyclic_reach [OF x(1)])
  then have "List.find (\<lambda>k. load_of ?q (?at k) = ?m) [0..<?n] \<noteq> None"
    using x(2) by (auto simp: find_None_iff)
  then obtain k where f: "List.find (\<lambda>k. load_of ?q (?at k) = ?m) [0..<?n] = Some k" by blast
  note k = find_upt_first [OF f]
  have r: "r = Inr (?at k)" and p': "p' = ?q\<lparr>next_index := ((next_index p + k) mod ?n + 1) mod ?n\<rparr>"
    using assms f by (simp_all add: select_worker_def q Let_def)
  have ld: "load_of p' = load_of ?q" by (simp add: p' load_of_def fun_eq_iff)
  have at: "?at j \<in> set (workers p)" for j using n by simp
  have "?m < load_of ?q (?at j)" if "j < k" for j
    using le [OF at [of j]] k that by (metis le_neq_implies_less)
  then show ?thesis using k r p' le ld by (intro exI [of _ k]) (auto simp: mod_simps)
qed

text \<open>A pool of three workers of which the first two have calls in flight, for the witness.\<close>

definition busy_pool :: "(nat, unit) ActorPool" where
  "busy_pool = three_workers\<lparr>objs := (objs three_workers)[0 := (objs three_workers ! 0)\<lparr>inflight := [(), ()]\<rparr>,
     1 := (objs three_workers ! 1)\<lparr>inflight := [()]\<rparr>]\<rparr>"

theorem select_least_loaded_witness:
  "\<exists>p' k. select_worker local_env 0 busy_pool = (Inr (workers busy_pool ! (k mod 3)), p') \<and> k < 3
     \<and> load_of p' (workers busy_pool ! (k mod 3)) \<le> load_of p' 2"
proof -
  obtain r p' where s: "select_worker local_env 0 busy_pool = (r, p')" by (cases "select_worker local_env 0 busy_pool")
  have w: "workers busy_pool = [0, 1, 2]" "next_index busy_pool = 0" by (simp_all add: busy_pool_def three_workers_list)
  from select_least_loaded [OF _ s] show ?thesis using s by (auto simp: w)
qed

subsection \<open>The fault budget of a worker\<close>

text \<open>The time, if any, at which a call whose first dispatch ended with \<open>r\<close> sets out to replace the worker.\<close>

definition replacement :: "('a, 'f, 'w) pool_env \<Rightarrow> nat \<Rightarrow> pool_exn + pyval \<Rightarrow> ('a, 'f) ActorPool \<Rightarrow> 'w \<Rightarrow> time list" where
  "replacement env i r p w = (case r of
      Inr _ \<Rightarrow> []
    | Inl e \<Rightarrow> if is_actor_fault (ray_available env) e \<and> \<not> is_tripped (pool_clock env w) (objs p ! i)
               then [pool_clock env w] else [])"

lemma replace_fault_times:
  "replace_worker env i p w = (r, p', w') \<Longrightarrow> fault_times (objs p' ! i) = fault_times (objs p ! i)"
  by (cases "i < length (objs p)")
    (auto simp: replace_worker_def upd_handle_def list_update_beyond split: option.splits prod.splits)

lemma call_fault_times:
  assumes c: "call_worker env i m kw p w = (res, p', w')" and d: "dispatch_to env i m kw p w = (r1, p1, w1)"
    and wf: "wf_pool p" and id: "idle_pool p" and i: "i < length (objs p)"
  shows "fault_times (objs p' ! i) = (case replacement env i r1 p w1 of [] \<Rightarrow> fault_times (objs p ! i)
    | t # _ \<Rightarrow> fault_times (record_fault t (objs p ! i)))" and "length (objs p') = length (objs p)"
proof -
  have p1: "p1 = p" by (rule dispatch_keeps [OF d id i])
  let ?p2 = "upd_handle i (record_fault (pool_clock env w1)) p"
  have "inflight (objs p ! i) = []" using id i by (simp add: idle_pool_def)
  then have p2: "wf_pool ?p2 \<and> idle_pool ?p2" by (intro wf_idle_upd [OF wf id]) (simp add: record_fault_def)
  have at: "objs ?p2 ! i = record_fault (pool_clock env w1) (objs p ! i)" using i by (simp add: upd_handle_def)
  obtain r2 p3 w2 where r: "replace_worker env i ?p2 w1 = (r2, p3, w2)" by (cases "replace_worker env i ?p2 w1")
  have p3: "fault_times (objs p3 ! i) = fault_times (record_fault (pool_clock env w1) (objs p ! i))" "idle_pool p3"
    "length (objs p3) = length (objs p)"
    using replace_fault_times [OF r] at replace_keeps [OF r] p2 by simp_all
  have "p' = p3" if "dispatch_to env i m kw p3 w2 = (res, p', w')"
    by (rule dispatch_keeps [OF that p3(2)]) (use p3(3) i in simp)
  then have "p' = (if replacement env i r1 p w1 = [] then p else p3)"
    using c by (cases r1; cases r2) (auto simp: call_worker_def d p1 r replacement_def split: if_splits)
  then show "fault_times (objs p' ! i) = (case replacement env i r1 p w1 of [] \<Rightarrow> fault_times (objs p ! i)
    | t # _ \<Rightarrow> fault_times (record_fault t (objs p ! i)))" "length (objs p') = length (objs p)"
    using p3 by (auto simp: replacement_def split: sum.splits if_splits)
qed

text \<open>The calls made through one handle, with the times of the replacements they set out for.\<close>

inductive replaced_at :: "('a, 'f, 'w) pool_env \<Rightarrow> nat \<Rightarrow> ('a, 'f) ActorPool \<Rightarrow> time list \<Rightarrow> bool" for env i where
  fresh: "wf_pool p \<Longrightarrow> idle_pool p \<Longrightarrow> i < length (objs p) \<Longrightarrow> fault_times (objs p ! i) = [] \<Longrightarrow> replaced_at env i p []"
| called: "replaced_at env i p ts \<Longrightarrow> call_worker env i meth kwargs p w = (res, p', w') \<Longrightarrow>
    dispatch_to env i meth kwargs p w = (r1, p1, w1) \<Longrightarrow> (\<And>t. t \<in> set ts \<Longrightarrow> t \<le> pool_clock env w1) \<Longrightarrow>
    replaced_at env i p' (ts @ replacement env i r1 p w1)"

lemma recent_filter:
  fixes now :: time
  assumes "\<forall>t \<in> set ts. t \<le> now" and "ft = filter (\<lambda>t. \<forall>s \<in> set ts. s - t < FAULT_WINDOW) ts"
  shows "filter (\<lambda>t. now - t < FAULT_WINDOW) ft = filter (\<lambda>t. now - t < FAULT_WINDOW) ts"
  unfolding assms(2) filter_filter
  by (rule filter_cong) (use assms(1) in force)+

lemma replaced_invariant:
  assumes "replaced_at env i p ts"
  shows "wf_pool p \<and> idle_pool p \<and> i < length (objs p)
    \<and> fault_times (objs p ! i) = filter (\<lambda>t. \<forall>s \<in> set ts. s - t < FAULT_WINDOW) ts
    \<and> (\<forall>a. length (filter (\<lambda>t. a \<le> t \<and> t < a + FAULT_WINDOW) ts) \<le> MAX_REPLACES)"
  using assms
proof (induction rule: replaced_at.induct)
  case (called p ts meth kwargs w res p' w' r1 p1 w1)
  let ?now = "pool_clock env w1"
  have wf: "wf_pool p" "idle_pool p" "i < length (objs p)" and inv: "fault_times (objs p ! i) = filter (\<lambda>t. \<forall>s \<in> set ts. s - t < FAULT_WINDOW) ts"
    and bud: "\<forall>a. length (filter (\<lambda>t. a \<le> t \<and> t < a + FAULT_WINDOW) ts) \<le> MAX_REPLACES"
    using called.IH by blast+
  have le: "\<forall>t \<in> set ts. t \<le> ?now" using called.hyps(4) by blast
  have rec: "filter (\<lambda>t. ?now - t < FAULT_WINDOW) (fault_times (objs p ! i)) = filter (\<lambda>t. ?now - t < FAULT_WINDOW) ts"
    by (rule recent_filter [OF le inv])
  note ft = call_fault_times [OF called.hyps(2,3) wf]
  have keep: "wf_pool p'" "idle_pool p'" using call_keeps [OF called.hyps(2) wf] by simp_all
  show ?case
  proof (cases "replacement env i r1 p w1")
    case Nil
    then show ?thesis using keep wf(3) ft inv bud by simp
  next
    case (Cons t us)
    then have t: "t = ?now" "us = []" and nt: "\<not> is_tripped ?now (objs p ! i)"
      by (auto simp: replacement_def split: sum.splits if_splits)
    have few: "length (filter (\<lambda>t. ?now - t < FAULT_WINDOW) ts) < MAX_REPLACES"
      using nt rec by (simp add: is_tripped_def)
    have "filter (\<lambda>t. t > ?now - FAULT_WINDOW) (fault_times (objs p ! i)) = filter (\<lambda>t. \<forall>s \<in> set (ts @ [?now]). s - t < FAULT_WINDOW) ts"
      using rec le by (auto simp: algebra_simps intro!: filter_cong)
    then have "fault_times (objs p' ! i) = filter (\<lambda>t. \<forall>s \<in> set (ts @ [?now]). s - t < FAULT_WINDOW) (ts @ [?now])"
      using ft(1) le by (auto simp: Cons t record_fault_def FAULT_WINDOW_def)
    moreover have "length (filter (\<lambda>t. a \<le> t \<and> t < a + FAULT_WINDOW) (ts @ [?now])) \<le> MAX_REPLACES" for a
    proof (cases "a \<le> ?now \<and> ?now < a + FAULT_WINDOW")
      case True
      have "length (filter (\<lambda>t. a \<le> t \<and> t < a + FAULT_WINDOW) ts) \<le> length (filter (\<lambda>t. ?now - t < FAULT_WINDOW) ts)"
        using True by (intro length_filter_mono) auto
      then show ?thesis using few True by simp
    next
      case False
      then show ?thesis using bud by auto
    qed
    ultimately show ?thesis using keep wf(3) ft(2) by (simp add: Cons t)
  qed
qed auto


text \<open>Ray workers that always die, for the witnesses.\<close>

definition dying_env :: "(nat, nat, nat) pool_env" where
  "dying_env = \<lparr>ray_available = True, get_actor = (\<lambda>_ w. (Some w, w)), factory = None,
     has_method = (\<lambda>_ _. True), remote = (\<lambda>_ _ _ w. (Inr w, Suc w)), ray_get = (\<lambda>_ _ w. (Inl RayActorError, w)),
     local_call = (\<lambda>_ _ _ w. (Inl NoMethod, w)), is_ready = (\<lambda>_ _. True),
     ray_cancel = (\<lambda>_ w. w), ray_kill = (\<lambda>_ w. w), pool_clock = (\<lambda>w. of_nat w)\<rparr>"

definition ray_worker :: "(nat, nat) ActorPool" where
  "ray_worker = (new_ActorPool ''ocr'' ''c1'' ''t1'' 1 8)\<lparr>objs := [new_WorkerHandle ''w'' 0], workers := [0]\<rparr>"

lemma ray_worker_replaced: "\<exists>p'. replaced_at dying_env 0 p' [11]"
proof -
  obtain res p' w' where c: "call_worker dying_env 0 ''execute'' [] ray_worker 10 = (res, p', w')"
    by (cases "call_worker dying_env 0 ''execute'' [] ray_worker 10")
  obtain p1 where d: "dispatch_to dying_env 0 ''execute'' [] ray_worker 10 = (Inl RayActorError, p1, 11)"
    by (simp add: dispatch_to_def dying_env_def)
  have "replaced_at dying_env 0 ray_worker []"
    by (rule replaced_at.fresh) (simp_all add: ray_worker_def wf_pool_def idle_pool_def new_WorkerHandle_def)
  from replaced_at.called [OF this c d] have "replaced_at dying_env 0 p' ([] @ replacement dying_env 0 (Inl RayActorError) ray_worker 11)"
    by simp
  moreover have "replacement dying_env 0 (Inl RayActorError) ray_worker 11 = [11]"
    by (simp add: replacement_def is_actor_fault_def is_tripped_def dying_env_def ray_worker_def new_WorkerHandle_def MAX_REPLACES_def)
  ultimately show ?thesis by auto
qed


subsection \<open>Resizing\<close>

lemma add_workers_full:
  assumes "\<And>name idx w. fst (try_recover_or_create env name idx w) \<noteq> None"
  shows "length (workers (fst (add_workers env is p w))) = length (workers p) + length is"
proof (induction "is" arbitrary: p w)
  case (Cons idx "is")
  obtain a w1 where "try_recover_or_create env (worker_name p idx) idx w = (Some a, w1)"
    using assms [of "worker_name p idx" idx w] by (cases "try_recover_or_create env (worker_name p idx) idx w") auto
  then show ?case using Cons by (simp add: add_worker_def)
qed simp

lemma add_workers_length:
  "add_workers env is p w = (p', w') \<Longrightarrow> length (workers p) \<le> length (workers p') \<and> length (workers p') \<le> length (workers p) + length is"
proof (induction "is" arbitrary: p w)
  case (Cons idx "is")
  obtain r w1 where r: "try_recover_or_create env (worker_name p idx) idx w = (r, w1)"
    by (cases "try_recover_or_create env (worker_name p idx) idx w")
  show ?case
  proof (cases r)
    case None
    then have "add_workers env is p w1 = (p', w')" using Cons.prems r by simp
    from Cons.IH [OF this] show ?thesis by simp
  next
    case (Some a)
    then have "add_workers env is (add_worker p (worker_name p idx) a) w1 = (p', w')" using Cons.prems r by simp
    from Cons.IH [OF this] show ?thesis by (simp add: add_worker_def)
  qed
qed simp

text \<open>
  Resizing: the size never leaves the range from zero to the larger of the old size and the
  maximum; a pool that can create workers gets exactly the requested size, clamped; and when it
  shrinks, every worker that is kept has at most as many calls in flight as every worker that is
  removed: the busiest workers go.
\<close>

theorem resize_correct:
  assumes "resize env k p w = (p', w')"
  shows "length (workers p') \<le> max (length (workers p)) (nat (max_size p))
    \<and> ((\<forall>name idx w. fst (try_recover_or_create env name idx w) \<noteq> None) \<longrightarrow>
         length (workers p') = nat (max 0 (min k (max_size p))))
    \<and> (length (workers p') < length (workers p) \<longrightarrow>
         set (workers p') \<subseteq> set (workers p) \<and>
         (\<forall>i \<in> set (workers p'). \<forall>j \<in> set (workers p) - set (workers p'). load_of p i \<le> load_of p j))"
proof -
  let ?n = "nat (max 0 (min k (max_size p)))" and ?c = "length (workers p)"
  consider "?n > ?c" | "?n < ?c" | "?n = ?c" by linarith
  then show ?thesis
  proof cases
    case 1
    then have a: "add_workers env [?c..<?n] p w = (p', w')" using assms by (simp add: resize_def Let_def)
    have "length (workers p') \<le> ?n" "?c \<le> length (workers p')" using add_workers_length [OF a] 1 by simp_all
    moreover have "length (workers p') = ?n" if "\<forall>name idx w. fst (try_recover_or_create env name idx w) \<noteq> None"
      using add_workers_full [of env "[?c..<?n]" p w] that a 1 by simp
    ultimately show ?thesis by auto
  next
    case 2
    let ?ws = "sort_key (load_of p) (workers p)"
    have p': "workers p' = take ?n ?ws" using assms 2 by (auto simp: resize_def Let_def)
    have "load_of p i \<le> load_of p j" if "i \<in> set (take ?n ?ws)" "j \<in> set (workers p) - set (take ?n ?ws)" for i j
    proof -
      have "j \<in> set ?ws" using that(2) by simp
      then have "j \<in> set (drop ?n ?ws)" using that(2) by (metis Diff_iff Un_iff append_take_drop_id set_append)
      from sorted_take_drop_le [OF sorted_sort_key that(1) this] show ?thesis .
    qed
    moreover have "set (take ?n ?ws) \<subseteq> set (workers p)" using set_take_subset by fastforce
    ultimately show ?thesis using 2 by (auto simp: p')
  next
    case 3
    then have "p' = p" using assms by (simp add: resize_def Let_def)
    with 3 show ?thesis by simp
  qed
qed

theorem resize_correct_witness:
  "\<exists>p' w'. resize local_env 2 busy_pool 5 = (p', w') \<and> length (workers p') = 2
     \<and> (\<forall>i \<in> set (workers p'). \<forall>j \<in> set (workers busy_pool) - set (workers p'). load_of busy_pool i \<le> load_of busy_pool j)"
proof -
  obtain p' w' where r: "resize local_env 2 busy_pool 5 = (p', w')" by (cases "resize local_env 2 busy_pool 5")
  have "\<forall>name idx w. fst (try_recover_or_create local_env name idx w) \<noteq> None"
    by (simp add: try_recover_or_create_def local_env_def)
  moreover have "length (workers busy_pool) = 3" "max_size busy_pool = 8" by code_simp+
  ultimately show ?thesis using resize_correct [OF r] r by auto
qed

text \<open>A worker that is removed while it is idle is not killed: its actor stays behind.\<close>

lemma resize_leaves_actors:
  assumes "idle_pool p" and "wf_pool p" and "resize env k p w = (p', w')" and "length (workers p') < length (workers p)"
  shows "w' = w"
proof -
  let ?n = "nat (max 0 (min k (max_size p)))"
  have "?n < length (workers p)"
  proof (rule ccontr)
    assume "\<not> ?n < length (workers p)"
    then have "p' = p \<or> add_workers env [length (workers p)..<?n] p w = (p', w')"
      using assms(3) by (auto simp: resize_def Let_def split: if_splits)
    then show False using add_workers_length assms(4) by fastforce
  qed
  then have w': "w' = foldl (\<lambda>w i. discard_worker env (objs p ! i) w) w (drop ?n (sort_key (load_of p) (workers p)))"
    using assms(3) by (auto simp: resize_def Let_def)
  have "foldl (\<lambda>w i. discard_worker env (objs p ! i) w) w is = w" if "set is \<subseteq> set (workers p)" for "is" w
    using that
  proof (induction "is" arbitrary: w)
    case (Cons i "is")
    have "handle_pending (objs p ! i) = 0" using load_idle [OF assms(2,1), of i] Cons.prems by (simp add: load_of_def)
    then show ?case using Cons by (simp add: discard_worker_def)
  qed simp
  moreover have "set (drop ?n (sort_key (load_of p) (workers p))) \<subseteq> set (workers p)" using set_drop_subset by fastforce
  ultimately show ?thesis by (simp add: w')
qed

text \<open>
  Names are computed from the position in the pool: when the creation of a worker fails, a later
  resize gives the name of a living worker a second time, and with Ray recovers its actor again.
\<close>

definition second_fails :: "(nat, unit, nat) pool_env" where
  "second_fails = local_env\<lparr>factory := Some (\<lambda>_ _ w. (if w = 1 then None else Some w, Suc w))\<rparr>"

lemma resize_repeats_name:
  "(let p = fst (start_pool second_fails (new_ActorPool ''ocr'' ''c1'' ''t1'' 3 8) 0);
        q = fst (resize second_fails 3 p 10)
    in map (\<lambda>i. wh_name (objs q ! i)) (workers q)
       = [''worker_t1_c1_ocr_0'', ''worker_t1_c1_ocr_2'', ''worker_t1_c1_ocr_2''])"
  by code_simp

end
