(* ===== verification/Scheduler_Actor.thy ===== *)
theory Scheduler_Actor
  imports Redis_Store Actor_Pool
begin

text \<open>
  The scheduling entry point of a cluster (\<^verbatim>\<open>src/workload/scheduler_actor.py\<close>): the pools by
  capability, the three dispatch modes, the map of pools kept in Redis, recovery after a restart,
  and the lookup of the actor itself.

  Without Ray a pool is an \<^verbatim>\<open>ActorPoolManager\<close> in the same process, and a dispatch is an
  operation of \<open>Actor_Pool\<close>. With Ray a pool is a handle of a remote actor: the functions
  \<open>ray_pool\<close> (a remote call and the wait for its result) and \<open>find_pool\<close> (\<^verbatim>\<open>ray.get_actor\<close>) of
  the environment.
\<close>

subsection \<open>Names and keys\<close>

definition actor_name :: "string \<Rightarrow> string \<Rightarrow> string" where
  "actor_name cluster rel = ''scheduler_'' @ cluster @ ''__'' @ rel"

definition tenant_actor_namespace :: "string \<Rightarrow> string" where
  "tenant_actor_namespace tenant = (if tenant = [] \<or> tenant = ''default'' then ''ray_async'' else ''ray_async_'' @ tenant)"

definition active_key :: "string \<Rightarrow> string" where
  "active_key cluster = ''scheduler:active:'' @ cluster"

definition pool_map_key :: "string \<Rightarrow> string" where
  "pool_map_key name = ''scheduler:'' @ name @ '':pools''"

subsection \<open>The actor\<close>

datatype ('a, 'f, 'h) pool_ref = LocalPool "('a, 'f) ActorPool" | RayPool 'h

datatype actor_exn = NoPool | NoRemote | PoolError pool_exn

record ('a, 'f, 'h) SchedulerActor =
  sa_name :: string
  sa_has_redis :: bool
  sa_tenant_id :: string
  pools :: "(string \<times> ('a, 'f, 'h) pool_ref) list"

definition new_SchedulerActor :: "string \<Rightarrow> string \<Rightarrow> bool \<Rightarrow> string \<Rightarrow> ('a, 'f, 'h) SchedulerActor" where
  "new_SchedulerActor cluster rel has_redis tenant =
     \<lparr>sa_name = actor_name cluster rel, sa_has_redis = has_redis, sa_tenant_id = tenant, pools = []\<rparr>"

text \<open>The lookup of the actor: what a caller gets.\<close>

datatype 'h actor_choice = Found 'h | Created string string | Missing | LocalInstance

text \<open>\<open>active\<close> is the reply of Redis for the active version; \<open>None\<close> stands for a missing key and
  for a failed read.\<close>

definition get_scheduler_actor ::
  "bool \<Rightarrow> (string \<Rightarrow> string \<Rightarrow> 'h option) \<Rightarrow> string option \<Rightarrow> string \<Rightarrow> string \<Rightarrow> bool \<Rightarrow> string \<Rightarrow> bool \<Rightarrow>
   'h actor_choice \<times> ('a, 'f, 'h) SchedulerActor option" where
  "get_scheduler_actor ray lookup active cluster rel has_redis tenant auto_create =
     (let namespace = tenant_actor_namespace tenant; name = actor_name cluster rel
      in if \<not> ray then (LocalInstance, Some (new_SchedulerActor cluster rel has_redis []))
         else case (case active of Some a \<Rightarrow> if has_redis \<and> a \<noteq> [] then lookup a namespace else None | None \<Rightarrow> None) of
           Some h \<Rightarrow> (Found h, None)
         | None \<Rightarrow> (case lookup name namespace of
              Some h \<Rightarrow> (Found h, None)
            | None \<Rightarrow> if auto_create then (Created name namespace, Some (new_SchedulerActor cluster rel False []))
                      else (Missing, None)))"

definition get_pool :: "('a, 'f, 'h) SchedulerActor \<Rightarrow> string \<Rightarrow> actor_exn + ('a, 'f, 'h) pool_ref" where
  "get_pool sa cap = (case map_of (pools sa) cap of None \<Rightarrow> Inl NoPool | Some p \<Rightarrow> Inr p)"

definition set_pool :: "('a, 'f, 'h) SchedulerActor \<Rightarrow> string \<Rightarrow> ('a, 'f, 'h) pool_ref \<Rightarrow> ('a, 'f, 'h) SchedulerActor" where
  "set_pool sa cap p = sa\<lparr>pools := AList.update cap p (pools sa)\<rparr>"

text \<open>The value stored in Redis is the name of the class of the manager.\<close>

definition register_pool :: "('a, 'f, 'h) SchedulerActor \<Rightarrow> redis \<Rightarrow> string \<Rightarrow> ('a, 'f, 'h) pool_ref \<Rightarrow> ('a, 'f, 'h) SchedulerActor \<times> redis" where
  "register_pool sa r cap p =
     (set_pool sa cap p,
      if sa_has_redis sa then hset r (pool_map_key (sa_name sa)) cap (RText ''ActorPoolManager'') else r)"

fun pool_name_of :: "rval \<Rightarrow> string" where
  "pool_name_of (RText s) = s"
| "pool_name_of _ = []"

definition recover_entry :: "(string \<Rightarrow> 'h option) \<Rightarrow> ('a, 'f, 'h) SchedulerActor \<times> redis \<Rightarrow> string \<times> rval \<Rightarrow> ('a, 'f, 'h) SchedulerActor \<times> redis" where
  "recover_entry find_pool st e =
     (let (sa, r) = st; (cap, v) = e
      in if map_of (pools sa) cap \<noteq> None then (sa, r)
         else case find_pool (pool_name_of v) of
                Some h \<Rightarrow> (set_pool sa cap (RayPool h), r)
              | None \<Rightarrow> (sa, hdel r (pool_map_key (sa_name sa)) cap))"

definition recover_pools_from_redis :: "bool \<Rightarrow> (string \<Rightarrow> 'h option) \<Rightarrow> ('a, 'f, 'h) SchedulerActor \<Rightarrow> redis \<Rightarrow> ('a, 'f, 'h) SchedulerActor \<times> redis" where
  "recover_pools_from_redis ray find_pool sa r =
     (if \<not> sa_has_redis sa \<or> \<not> ray then (sa, r)
      else foldl (recover_entry find_pool) (sa, r) (hbucket r (pool_map_key (sa_name sa))))"

subsection \<open>Dispatch modes\<close>

type_synonym ('h, 'w) ray_call = "'h \<Rightarrow> string \<Rightarrow> dict \<Rightarrow> rat \<Rightarrow> 'w \<Rightarrow> (pool_exn + pyval) \<times> 'w"

definition on_pool ::
  "('a, 'f, 'w) pool_env \<Rightarrow> ('h, 'w) ray_call \<Rightarrow> string \<Rightarrow> dict \<Rightarrow> rat \<Rightarrow>
   (('a, 'f) ActorPool \<Rightarrow> 'w \<Rightarrow> (pool_exn + pyval) \<times> ('a, 'f) ActorPool \<times> 'w) \<Rightarrow>
   ('a, 'f, 'h) SchedulerActor \<Rightarrow> string \<Rightarrow> 'w \<Rightarrow> (actor_exn + pyval) \<times> ('a, 'f, 'h) SchedulerActor \<times> 'w" where
  "on_pool env ray_pool method kwargs tmo local sa cap w = (case get_pool sa cap of
      Inl e \<Rightarrow> (Inl e, sa, w)
    | Inr (RayPool h) \<Rightarrow>
        (if ray_available env
         then (let (res, w1) = ray_pool h method kwargs tmo w
               in (case res of Inl e \<Rightarrow> Inl (PoolError e) | Inr v \<Rightarrow> Inr v, sa, w1))
         else (Inl NoRemote, sa, w))
    | Inr (LocalPool p) \<Rightarrow>
        (if ray_available env then (Inl NoRemote, sa, w)
         else (let (res, p1, w1) = local p w
               in (case res of Inl e \<Rightarrow> Inl (PoolError e) | Inr v \<Rightarrow> Inr v, set_pool sa cap (LocalPool p1), w1))))"

definition task_args :: "string \<Rightarrow> string \<Rightarrow> dict \<Rightarrow> dict" where
  "task_args tid step payload = [(''task_id'', PStr tid), (''step_name'', PStr step), (''payload'', PDict payload)]"

definition execute_sync where
  "execute_sync env ray_pool tmo cap tid step payload sa w =
     on_pool env ray_pool ''execute'' (task_args tid step payload) tmo (pool_execute env tid step payload 60) sa cap w"

definition submit_async where
  "submit_async env ray_pool cap tid step payload sa w =
     (case on_pool env ray_pool ''submit'' (task_args tid step payload) 10 (pool_submit env tid step payload) sa cap w of
        (Inl e, sa1, w1) \<Rightarrow> (Inl e, sa1, w1)
      | (Inr _, sa1, w1) \<Rightarrow> (Inr (tid @ '':'' @ step), sa1, w1))"

definition submit_streaming where
  "submit_streaming env ray_pool cap tid step payload sa w =
     (let buffer_key = ''stream:'' @ tid @ '':'' @ step
      in case on_pool env ray_pool ''submit_streaming'' (task_args tid step payload @ [(''buffer_key'', PStr buffer_key)]) 10
                (pool_submit_streaming env tid step payload buffer_key) sa cap w of
           (Inl e, sa1, w1) \<Rightarrow> (Inl e, sa1, w1)
         | (Inr _, sa1, w1) \<Rightarrow> (Inr buffer_key, sa1, w1))"

definition get_capabilities :: "('a, 'f, 'h) SchedulerActor \<Rightarrow> string list" where
  "get_capabilities sa = map fst (pools sa)"

subsection \<open>Dispatch through the local pools\<close>

text \<open>The capabilities are served by well-formed local pools.\<close>

definition wf_actor :: "('a, 'f, 'h) SchedulerActor \<Rightarrow> bool" where
  "wf_actor sa \<longleftrightarrow> (\<forall>cap p. map_of (pools sa) cap = Some (LocalPool p) \<longrightarrow> wf_pool p \<and> idle_pool p)"

lemma map_of_set_pool [simp]: "map_of (pools (set_pool sa cap p)) = (map_of (pools sa))(cap \<mapsto> p)"
  by (simp add: set_pool_def update_conv')

text \<open>
  A synchronous dispatch without Ray is exactly one call of a worker of the pool registered
  for the capability: its result is the result of that pool's round-robin worker, only the pool
  of the capability changes, and the pools stay well-formed. A capability with no pool is an
  error that changes nothing.
\<close>

theorem execute_sync_routes:
  assumes "\<not> ray_available env" and "wf_actor sa"
  shows "(map_of (pools sa) cap = None \<longrightarrow>
      execute_sync env ray_pool tmo cap tid step payload sa w = (Inl NoPool, sa, w))
    \<and> (\<forall>p res sa' w'. map_of (pools sa) cap = Some (LocalPool p) \<and> workers p \<noteq> []
        \<and> execute_sync env ray_pool tmo cap tid step payload sa w = (res, sa', w') \<longrightarrow>
        (\<exists>p1 r. call_worker env (workers p ! (next_index p mod length (workers p))) ''execute''
             [(''task_id'', PStr tid), (''step_name'', PStr step), (''payload'', PDict payload), (''timeout_seconds'', PFloat 60)]
             (p\<lparr>next_index := (next_index p mod length (workers p) + 1) mod length (workers p)\<rparr>) w = (r, p1, w')
           \<and> res = (case r of Inl e \<Rightarrow> Inl (PoolError e) | Inr v \<Rightarrow> Inr v)
           \<and> map_of (pools sa') = (map_of (pools sa))(cap \<mapsto> LocalPool p1))
        \<and> wf_actor sa')"
proof (intro conjI allI impI)
  assume "map_of (pools sa) cap = None"
  then show "execute_sync env ray_pool tmo cap tid step payload sa w = (Inl NoPool, sa, w)"
    by (simp add: execute_sync_def on_pool_def get_pool_def)
next
  fix p res sa' w'
  assume a: "map_of (pools sa) cap = Some (LocalPool p) \<and> workers p \<noteq> []
    \<and> execute_sync env ray_pool tmo cap tid step payload sa w = (res, sa', w')"
  then have p: "wf_pool p" "idle_pool p" using assms(2) by (auto simp: wf_actor_def)
  obtain r p1 w1 where c: "pool_execute env tid step payload 60 p w = (r, p1, w1)"
    by (cases "pool_execute env tid step payload 60 p w")
  have out: "res = (case r of Inl e \<Rightarrow> Inl (PoolError e) | Inr v \<Rightarrow> Inr v)" "sa' = set_pool sa cap (LocalPool p1)" "w' = w1"
    using a assms(1) c by (auto simp: execute_sync_def on_pool_def get_pool_def)
  have "wf_pool p1 \<and> idle_pool p1"
    using on_worker_keeps [OF c [unfolded pool_execute_def] p] by simp
  then show "wf_actor sa'" using assms(2) by (simp add: wf_actor_def out)
  show "\<exists>p1 r. call_worker env (workers p ! (next_index p mod length (workers p))) ''execute''
       [(''task_id'', PStr tid), (''step_name'', PStr step), (''payload'', PDict payload), (''timeout_seconds'', PFloat 60)]
       (p\<lparr>next_index := (next_index p mod length (workers p) + 1) mod length (workers p)\<rparr>) w = (r, p1, w')
     \<and> res = (case r of Inl e \<Rightarrow> Inl (PoolError e) | Inr v \<Rightarrow> Inr v)
     \<and> map_of (pools sa') = (map_of (pools sa))(cap \<mapsto> LocalPool p1)"
    using c a out by (auto simp: pool_execute_def on_worker_def select_idle [OF p])
qed

definition demo_actor :: "(nat, unit, nat) SchedulerActor" where
  "demo_actor = fst (register_pool (new_SchedulerActor ''c1'' ''v1'' True []) empty_redis ''ocr'' (LocalPool three_workers))"

theorem execute_sync_routes_witness:
  "execute_sync local_env (\<lambda>_ _ _ _ w. (Inl NoMethod, w)) 60 ''asr'' ''t'' ''s'' [] demo_actor 7 = (Inl NoPool, demo_actor, 7)
   \<and> fst (execute_sync local_env (\<lambda>_ _ _ _ w. (Inl NoMethod, w)) 60 ''ocr'' ''t'' ''s'' [] demo_actor 7) = Inr (PInt 0)"
proof -
  have d: "map_of (pools demo_actor) = [''ocr'' \<mapsto> LocalPool three_workers]"
    by (simp add: demo_actor_def register_pool_def new_SchedulerActor_def)
  have wf: "wf_actor demo_actor"
    using reachable_idle [OF three_workers_reachable] by (simp add: wf_actor_def d)
  have ray: "\<not> ray_available local_env" by (simp add: local_env_def)
  have "execute_sync local_env (\<lambda>_ _ _ _ w. (Inl NoMethod, w)) 60 ''asr'' ''t'' ''s'' [] demo_actor 7 = (Inl NoPool, demo_actor, 7)"
    using execute_sync_routes [OF ray wf] by (simp add: d)
  moreover have "fst (execute_sync local_env (\<lambda>_ _ _ _ w. (Inl NoMethod, w)) 60 ''ocr'' ''t'' ''s'' [] demo_actor 7) = Inr (PInt 0)"
    by code_simp
  ultimately show ?thesis by simp
qed

subsection \<open>Recovery\<close>

text \<open>
  Every entry written by a registration names the class of the manager and not an actor. After a
  restart all capabilities are therefore attached to one and the same actor, if one with that
  name exists, and are dropped from Redis otherwise.
\<close>

lemma recover_entries_found:
  assumes "find_pool ''ActorPoolManager'' = Some h" and "\<forall>e \<in> set es. snd e = RText ''ActorPoolManager''"
  shows "map_of (pools (fst (foldl (recover_entry find_pool) (sa, r) es))) cap =
    (if map_of (pools sa) cap \<noteq> None then map_of (pools sa) cap
     else if cap \<in> fst ` set es then Some (RayPool h) else None)"
  using assms(2)
proof (induction es arbitrary: sa r)
  case (Cons e es)
  obtain c v where e: "e = (c, v)" by (cases e)
  have "recover_entry find_pool (sa, r) e = (if map_of (pools sa) c \<noteq> None then sa else set_pool sa c (RayPool h), r)"
    using Cons.prems assms(1) by (simp add: recover_entry_def e)
  then show ?case using Cons by (auto simp: e)
qed auto

lemma recovered_pools_coincide:
  assumes "sa_has_redis sa" and "pools sa = []" and "find_pool ''ActorPoolManager'' = Some h"
    and "\<forall>e \<in> set (hbucket r (pool_map_key (sa_name sa))). snd e = RText ''ActorPoolManager''"
    and "cap \<in> fst ` set (hbucket r (pool_map_key (sa_name sa)))"
  shows "map_of (pools (fst (recover_pools_from_redis True find_pool sa r))) cap = Some (RayPool h)"
  using assms by (simp add: recover_pools_from_redis_def recover_entries_found)

text \<open>An actor that the lookup creates has no Redis client: its registrations are not stored.\<close>

lemma created_actor_stores_nothing:
  assumes "get_scheduler_actor True lookup active cluster rel has_redis tenant auto = (Created name ns, Some sa)"
  shows "snd (register_pool sa r cap p) = r"
  using assms
  by (auto simp: get_scheduler_actor_def register_pool_def new_SchedulerActor_def Let_def split: option.splits if_splits)

end
