(* ===== verification/Command_Proxy.thy ===== *)
theory Command_Proxy
  imports Redis_Store "HOL-Library.Multiset"
begin

text \<open>
  The sidecar that runs commands (\<^verbatim>\<open>src/proxy/async_command_proxy.py\<close>): the command line of a
  job, the thread that runs it and stores its result in Redis, the cancel handler, and the
  readers of results.

  The thread of a job and the cancel handlers run concurrently on the set of cancelled jobs, the
  table of processes and Redis. \<open>proxy_step\<close> interleaves them at every critical section and every
  Redis command; the subprocess (whether it starts, exits or runs into the timeout, and what it
  prints) is chosen by the environment. Results are read before they expire.
\<close>

subsection \<open>Splitting a command line\<close>

text \<open>\<^verbatim>\<open>shlex.split\<close> in POSIX mode: the states of its lexer, the current token, and whether the
  token had a quoted part. \<open>None\<close> is a \<^verbatim>\<open>ValueError\<close>.\<close>

datatype lex_state = LexBlank | LexWord | LexQuote char | LexEscape "char option"

definition is_space :: "char \<Rightarrow> bool" where
  "is_space c \<longleftrightarrow> c \<in> {CHR '' '', CHR 0x09, CHR 0x0A, CHR 0x0D}"

definition is_quote :: "char \<Rightarrow> bool" where
  "is_quote c \<longleftrightarrow> c = CHR 0x27 \<or> c = CHR 0x22"

fun lex :: "lex_state \<Rightarrow> string \<Rightarrow> bool \<Rightarrow> string \<Rightarrow> string list option" where
  "lex LexBlank tok q [] = Some (if tok \<noteq> [] \<or> q then [tok] else [])"
| "lex LexWord tok q [] = Some (if tok \<noteq> [] \<or> q then [tok] else [])"
| "lex (LexQuote _) tok q [] = None"
| "lex (LexEscape _) tok q [] = None"
| "lex LexBlank tok q (c # cs) =
     (if is_space c then (if tok \<noteq> [] \<or> q then map_option ((#) tok) (lex LexBlank [] False cs) else lex LexBlank tok q cs)
      else if c = CHR 0x5C then lex (LexEscape None) tok q cs
      else if is_quote c then lex (LexQuote c) tok q cs
      else lex LexWord [c] q cs)"
| "lex LexWord tok q (c # cs) =
     (if is_space c then (if tok \<noteq> [] \<or> q then map_option ((#) tok) (lex LexBlank [] False cs) else lex LexBlank tok q cs)
      else if is_quote c then lex (LexQuote c) tok q cs
      else if c = CHR 0x5C then lex (LexEscape None) tok q cs
      else lex LexWord (tok @ [c]) q cs)"
| "lex (LexQuote d) tok q (c # cs) =
     (if c = d then lex LexWord tok True cs
      else if c = CHR 0x5C \<and> d = CHR 0x22 then lex (LexEscape (Some d)) tok True cs
      else lex (LexQuote d) (tok @ [c]) True cs)"
| "lex (LexEscape None) tok q (c # cs) = lex LexWord (tok @ [c]) q cs"
| "lex (LexEscape (Some d)) tok q (c # cs) =
     lex (LexQuote d) (tok @ (if c \<noteq> CHR 0x5C \<and> c \<noteq> d then [CHR 0x5C] else []) @ [c]) q cs"

definition shlex_split :: "string \<Rightarrow> string list option" where
  "shlex_split s = lex LexBlank [] False s"

subsection \<open>The command of a job\<close>

definition param_args :: "(pyval \<Rightarrow> string) \<Rightarrow> string \<times> pyval \<Rightarrow> string list" where
  "param_args rp kv = (''--'' @ fst kv) # (if snd kv \<noteq> PNone \<and> snd kv \<noteq> PStr [] then [py_str rp (snd kv)] else [])"

definition build_cmd :: "(pyval \<Rightarrow> string) \<Rightarrow> string \<Rightarrow> dict \<Rightarrow> string list option" where
  "build_cmd rp command params = map_option (\<lambda>parts. parts @ concat (map (param_args rp) params)) (shlex_split command)"

definition result_key :: "string \<Rightarrow> string" where
  "result_key job = ''cmd_result:'' @ job"

definition RESULT_TTL :: int where
  "RESULT_TTL = 3600"

definition write_result :: "redis \<Rightarrow> string \<Rightarrow> dict \<Rightarrow> redis" where
  "write_result r job payload = expire (lpush r (result_key job) (RJson (PDict payload))) (result_key job) RESULT_TTL"

text \<open>The documents a job can leave.\<close>

definition success_result :: "string \<Rightarrow> rat \<Rightarrow> dict" where
  "success_result out elapsed = [(''status'', PStr ''success''), (''returncode'', PInt 0), (''stdout'', PStr out), (''elapsed'', PFloat elapsed)]"

definition failure_result :: "int \<Rightarrow> string \<Rightarrow> string \<Rightarrow> rat \<Rightarrow> dict" where
  "failure_result rc out err elapsed = [(''status'', PStr ''error''), (''returncode'', PInt rc), (''stdout'', PStr out),
     (''stderr'', PStr err), (''elapsed'', PFloat elapsed)]"

definition timeout_result :: "rat \<Rightarrow> dict" where
  "timeout_result elapsed = [(''status'', PStr ''error''), (''error'', PStr ''timeout''), (''elapsed'', PFloat elapsed)]"

definition exception_result :: "string \<Rightarrow> dict" where
  "exception_result e = [(''status'', PStr ''error''), (''error'', PStr e)]"

definition cancelled_result :: "string \<Rightarrow> dict" where
  "cancelled_result job = [(''status'', PStr ''cancelled''), (''job_id'', PStr job)]"

definition exit_result :: "int \<Rightarrow> string \<Rightarrow> string \<Rightarrow> rat \<Rightarrow> dict" where
  "exit_result rc out err elapsed = (if rc = 0 then success_result out elapsed else failure_result rc out err elapsed)"

subsection \<open>Threads and handlers\<close>

datatype job_phase =
    JUnknown
  | JQueued "string list option"
  | JCrashed
  | JSpawned
  | JRunning
  | JTimedOut
  | JKilled
  | JExited int string string
  | JWriting dict
  | JFinal
  | JDone

datatype cancel_phase = CWrite bool | CTerminate bool

record proxy =
  cancelled :: "string set"
  processes :: "string set"
  phase :: "string \<Rightarrow> job_phase"
  handlers :: "(string \<times> cancel_phase) list"
  store :: redis
  delivered :: "string \<Rightarrow> rval list"

definition init_proxy :: proxy where
  "init_proxy = \<lparr>cancelled = {}, processes = {}, phase = (\<lambda>_. JUnknown), handlers = [], store = empty_redis, delivered = (\<lambda>_. [])\<rparr>"

definition set_phase :: "string \<Rightarrow> job_phase \<Rightarrow> proxy \<Rightarrow> proxy" where
  "set_phase j ph st = st\<lparr>phase := (phase st)(j := ph)\<rparr>"

text \<open>
  One step. A job is submitted under a fresh identifier; its command line is built by the thread
  before the \<^verbatim>\<open>try\<close> block, so an unbalanced quote ends the thread. \<open>leave\<close> is the removal from
  the table of processes.
\<close>

definition leave :: "string \<Rightarrow> proxy \<Rightarrow> proxy" where
  "leave j st = st\<lparr>processes := processes st - {j}\<rparr>"

inductive proxy_step :: "(pyval \<Rightarrow> string) \<Rightarrow> proxy \<Rightarrow> proxy \<Rightarrow> bool" for rp where
  submit: "phase st j = JUnknown \<Longrightarrow> command \<noteq> [] \<Longrightarrow>
    proxy_step rp st (set_phase j (JQueued (build_cmd rp command params)) st)"
| crash: "phase st j = JQueued None \<Longrightarrow> proxy_step rp st (set_phase j JCrashed st)"
| spawn: "phase st j = JQueued (Some cmd) \<Longrightarrow> proxy_step rp st (set_phase j JSpawned st)"
| spawn_fails: "phase st j = JQueued (Some cmd) \<Longrightarrow> proxy_step rp st (set_phase j (JWriting (exception_result e)) st)"
| register: "phase st j = JSpawned \<Longrightarrow>
    proxy_step rp st (set_phase j JRunning (st\<lparr>processes := insert j (processes st)\<rparr>))"
| times_out: "phase st j = JRunning \<Longrightarrow> proxy_step rp st (set_phase j JTimedOut st)"
| exits: "phase st j = JRunning \<Longrightarrow> proxy_step rp st (set_phase j (JExited rc out err) st)"
| kill: "phase st j = JTimedOut \<Longrightarrow> proxy_step rp st (set_phase j JKilled (leave j st))"
| check_killed: "phase st j = JKilled \<Longrightarrow>
    proxy_step rp st (set_phase j (if j \<in> cancelled st then JFinal else JWriting (timeout_result elapsed)) st)"
| collect: "phase st j = JExited rc out err \<Longrightarrow>
    proxy_step rp st (set_phase j (if j \<in> cancelled st then JFinal else JWriting (exit_result rc out err elapsed)) (leave j st))"
| store_result: "phase st j = JWriting payload \<Longrightarrow>
    proxy_step rp st (set_phase j JFinal (st\<lparr>store := write_result (store st) j payload\<rparr>))"
| finish: "phase st j = JFinal \<Longrightarrow> proxy_step rp st (set_phase j JDone (leave j st))"
| cancel: "proxy_step rp st (st\<lparr>cancelled := insert j (cancelled st), handlers := handlers st @ [(j, CWrite (j \<in> processes st))]\<rparr>)"
| cancel_write: "handlers st = hs @ (j, CWrite b) # hs' \<Longrightarrow>
    proxy_step rp st (st\<lparr>store := write_result (store st) j (cancelled_result j), handlers := hs @ (j, CTerminate b) # hs'\<rparr>)"
| cancel_terminate: "handlers st = hs @ (j, CTerminate b) # hs' \<Longrightarrow> proxy_step rp st (st\<lparr>handlers := hs @ hs'\<rparr>)"
| consume: "lpop (store st) (result_key j) = (Some v, r') \<Longrightarrow>
    proxy_step rp st (st\<lparr>store := r', delivered := (delivered st)(j := v # delivered st j)\<rparr>)"

inductive proxy_reachable :: "(pyval \<Rightarrow> string) \<Rightarrow> proxy \<Rightarrow> bool" for rp where
  start: "proxy_reachable rp init_proxy"
| step: "proxy_reachable rp st \<Longrightarrow> proxy_step rp st st' \<Longrightarrow> proxy_reachable rp st'"

text \<open>\<^verbatim>\<open>GET /result\<close>: the newest result, left in place.\<close>

definition result_endpoint :: "redis \<Rightarrow> string \<Rightarrow> pyval" where
  "result_endpoint r job = (case lhead r (result_key job) of
      None \<Rightarrow> PDict [(''status'', PStr ''pending''), (''job_id'', PStr job)]
    | Some (RJson v) \<Rightarrow> v
    | Some _ \<Rightarrow> PNone)"

text \<open>\<^verbatim>\<open>AsyncCommandProxy.execute\<close> glues the command and its arguments with blanks.\<close>

fun join_blank :: "string list \<Rightarrow> string" where
  "join_blank [] = []"
| "join_blank [w] = w"
| "join_blank (w # ws) = w @ '' '' @ join_blank ws"

definition full_cmd :: "string \<Rightarrow> string list \<Rightarrow> string" where
  "full_cmd cmd args = cmd @ (if args \<noteq> [] then '' '' @ join_blank args else [])"

subsection \<open>Command lines\<close>

definition plain :: "string \<Rightarrow> bool" where
  "plain w \<longleftrightarrow> w \<noteq> [] \<and> (\<forall>c \<in> set w. \<not> is_space c \<and> \<not> is_quote c \<and> c \<noteq> CHR 0x5C)"

lemma lex_word:
  "\<forall>c \<in> set w. \<not> is_space c \<and> \<not> is_quote c \<and> c \<noteq> CHR 0x5C \<Longrightarrow> lex LexWord tok q (w @ cs) = lex LexWord (tok @ w) q cs"
  by (induction w arbitrary: tok) auto

lemma lex_plain: "plain w \<Longrightarrow> lex LexBlank [] False (w @ cs) = lex LexWord w False cs"
  by (cases w) (auto simp: plain_def lex_word)

lemma lex_join: "\<forall>w \<in> set ws. plain w \<Longrightarrow> lex LexBlank [] False (join_blank ws) = Some ws"
proof (induction ws rule: join_blank.induct)
  case (2 w)
  then show ?case using lex_plain [of w "[]"] by (simp add: plain_def)
next
  case (3 w v ws)
  then have "lex LexBlank [] False (join_blank (w # v # ws)) = lex LexWord w False ('' '' @ join_blank (v # ws))"
    using lex_plain [of w "'' '' @ join_blank (v # ws)"] by simp
  then show ?case using 3 by (simp add: plain_def is_space_def)
qed simp

text \<open>
  Command lines: words without blanks, quotes and backslashes, glued with blanks, are split
  back into the same words, and the parameters of the job follow them: an option per key, in
  order, each followed by its value unless that is absent or empty.
\<close>

theorem build_cmd_roundtrip:
  assumes "\<forall>w \<in> set (cmd # args). plain w"
  shows "build_cmd rp (full_cmd cmd args) params = Some (cmd # args @ concat (map (param_args rp) params))"
proof -
  have "full_cmd cmd args = join_blank (cmd # args)"
    by (cases args) (simp_all add: full_cmd_def)
  then show ?thesis using lex_join [OF assms] by (simp add: build_cmd_def shlex_split_def)
qed

theorem build_cmd_roundtrip_witness:
  "build_cmd (\<lambda>_. []) (full_cmd ''ls'' [''-l'', ''/tmp'']) [(''depth'', PInt 2), (''all'', PNone)]
     = Some [''ls'', ''-l'', ''/tmp'', ''--depth'', ''2'', ''--all'']"
proof -
  have "nat_str 2 = ''2''" by code_simp
  then show ?thesis
    using build_cmd_roundtrip [of "''ls''" "[''-l'', ''/tmp'']" "\<lambda>_. []" "[(''depth'', PInt 2), (''all'', PNone)]"]
    by (simp add: plain_def is_space_def is_quote_def param_args_def int_str_def)
qed

text \<open>An argument that contains a blank does not survive.\<close>

lemma full_cmd_splits_argument: "shlex_split (full_cmd ''cat'' [''my file'']) = Some [''cat'', ''my'', ''file'']"
  by code_simp

subsection \<open>Results\<close>

text \<open>All results of a job: those still in Redis and those already delivered.\<close>

definition results :: "proxy \<Rightarrow> string \<Rightarrow> rval list" where
  "results st j = lbucket (store st) (result_key j) @ delivered st j"

definition is_cancel :: "string \<Rightarrow> rval \<Rightarrow> bool" where
  "is_cancel j v \<longleftrightarrow> v = RJson (PDict (cancelled_result j))"

definition own_results :: "proxy \<Rightarrow> string \<Rightarrow> rval list" where
  "own_results st j = filter (\<lambda>v. \<not> is_cancel j v) (results st j)"

definition cancel_results :: "proxy \<Rightarrow> string \<Rightarrow> rval list" where
  "cancel_results st j = filter (is_cancel j) (results st j)"

definition handler_pending :: "proxy \<Rightarrow> string \<Rightarrow> bool" where
  "handler_pending st j \<longleftrightarrow> (\<exists>b. (j, CWrite b) \<in> set (handlers st))"

text \<open>A payload that the thread of a job writes.\<close>

fun not_cancel :: "job_phase \<Rightarrow> bool" where
  "not_cancel (JWriting p) = (\<forall>j. p \<noteq> cancelled_result j)"
| "not_cancel _ = True"

text \<open>Where the thread of a job stands, and what must then hold of its results.\<close>

fun written :: "job_phase \<Rightarrow> bool" where
  "written JFinal = True" | "written JDone = True" | "written _ = False"

fun registered :: "job_phase \<Rightarrow> bool" where
  "registered JRunning = True" | "registered JTimedOut = True" | "registered (JExited _ _ _) = True" | "registered _ = False"

definition job_ok :: "proxy \<Rightarrow> string \<Rightarrow> bool" where
  "job_ok st j \<longleftrightarrow>
     (if written (phase st j) then length (own_results st j) = 1 \<or> own_results st j = [] \<and> j \<in> cancelled st
      else own_results st j = [])
     \<and> (j \<in> cancelled st \<longleftrightarrow> cancel_results st j \<noteq> [] \<or> handler_pending st j)
     \<and> (j \<in> processes st \<longleftrightarrow> registered (phase st j))
     \<and> not_cancel (phase st j)"

lemma own_results_simps [simp]:
  "own_results (set_phase i ph st) j = own_results st j" "cancel_results (set_phase i ph st) j = cancel_results st j"
  "own_results (leave i st) j = own_results st j" "cancel_results (leave i st) j = cancel_results st j"
  "own_results (st\<lparr>processes := ps\<rparr>) j = own_results st j" "cancel_results (st\<lparr>processes := ps\<rparr>) j = cancel_results st j"
  "own_results (st\<lparr>handlers := hs\<rparr>) j = own_results st j" "cancel_results (st\<lparr>handlers := hs\<rparr>) j = cancel_results st j"
  "own_results (st\<lparr>cancelled := cs\<rparr>) j = own_results st j" "cancel_results (st\<lparr>cancelled := cs\<rparr>) j = cancel_results st j"
  by (simp_all add: own_results_def cancel_results_def results_def set_phase_def leave_def)

lemma set_phase_simps [simp]:
  "phase (set_phase i ph st) = (phase st)(i := ph)" "cancelled (set_phase i ph st) = cancelled st"
  "processes (set_phase i ph st) = processes st" "handler_pending (set_phase i ph st) j = handler_pending st j"
  "phase (leave i st) = phase st" "cancelled (leave i st) = cancelled st" "processes (leave i st) = processes st - {i}"
  "handler_pending (leave i st) j = handler_pending st j"
  "handler_pending (st\<lparr>processes := ps\<rparr>) j = handler_pending st j"
  "handler_pending (st\<lparr>store := r\<rparr>) j = handler_pending st j"
  by (simp_all add: set_phase_def leave_def handler_pending_def)

lemma result_key_inject [key_simps]: "result_key j = result_key j' \<longleftrightarrow> j = j'"
  by (simp add: result_key_def)

lemma results_write:
  "results (st\<lparr>store := write_result (store st) i p\<rparr>) j = (if j = i then RJson (PDict p) # results st j else results st j)"
  by (auto simp: results_def write_result_def store_simps key_simps)

lemma own_results_write:
  "own_results (st\<lparr>store := write_result (store st) i p\<rparr>) j =
     (if j = i \<and> p \<noteq> cancelled_result j then RJson (PDict p) # own_results st j else own_results st j)"
  "cancel_results (st\<lparr>store := write_result (store st) i p\<rparr>) j =
     (if j = i \<and> p = cancelled_result j then RJson (PDict p) # cancel_results st j else cancel_results st j)"
  by (auto simp: own_results_def cancel_results_def results_write is_cancel_def)

lemma results_consume:
  assumes "lpop (store st) (result_key i) = (Some v, r')"
  shows "mset (results (st\<lparr>store := r', delivered := (delivered st)(i := v # delivered st i)\<rparr>) j) = mset (results st j)"
proof -
  obtain vs where b: "lbucket (store st) (result_key i) = v # vs" and r': "r' = (store st)\<lparr>lists := (lists (store st))(result_key i \<mapsto> vs)\<rparr>"
    using assms by (auto simp: lpop_def split: list.splits)
  then show ?thesis by (auto simp: results_def lbucket_def key_simps)
qed

lemma results_kinds:
  assumes "mset (results st' j) = mset (results st j)"
  shows "length (own_results st' j) = length (own_results st j)" and "cancel_results st' j = [] \<longleftrightarrow> cancel_results st j = []"
proof -
  have "mset (own_results st' j) = mset (own_results st j)" "mset (cancel_results st' j) = mset (cancel_results st j)"
    using assms by (simp_all add: own_results_def cancel_results_def mset_filter)
  then show "length (own_results st' j) = length (own_results st j)" "cancel_results st' j = [] \<longleftrightarrow> cancel_results st j = []"
    by (metis size_mset, metis mset_zero_iff)
qed

lemma job_ok_phase:
  assumes "job_ok st j" and "\<not> written (phase st i)" and "\<not> written ph \<or> i \<in> cancelled st" and "registered ph = registered (phase st i)" and "not_cancel ph"
  shows "job_ok (set_phase i ph st) j"
  using assms by (auto simp: job_ok_def)

lemma job_ok_leave:
  assumes "job_ok st j" and "\<not> written (phase st i)" and "\<not> written ph \<or> i \<in> cancelled st" and "\<not> registered ph" and "not_cancel ph"
  shows "job_ok (set_phase i ph (leave i st)) j"
  using assms by (auto simp: job_ok_def)

lemma result_not_cancel [simp]:
  "exception_result e \<noteq> cancelled_result k" "timeout_result t \<noteq> cancelled_result k" "exit_result rc a b t \<noteq> cancelled_result k"
  by (auto simp: exception_result_def timeout_result_def exit_result_def success_result_def failure_result_def cancelled_result_def)

lemma job_ok_step:
  assumes "proxy_step rp st st'" and ok: "\<And>j. job_ok st j"
  shows "job_ok st' j"
  using assms(1)
proof cases
  case (submit i command params)
  then show ?thesis by (simp add: job_ok_phase [OF ok])
next
  case (crash i)
  then show ?thesis by (simp add: job_ok_phase [OF ok])
next
  case (spawn i cmd)
  then show ?thesis by (simp add: job_ok_phase [OF ok])
next
  case (spawn_fails i cmd e)
  then show ?thesis by (simp add: job_ok_phase [OF ok])
next
  case (register i)
  then show ?thesis using ok [of j] by (auto simp: job_ok_def)
next
  case (times_out i)
  then show ?thesis by (simp add: job_ok_phase [OF ok])
next
  case (exits i rc out err)
  then show ?thesis by (simp add: job_ok_phase [OF ok])
next
  case (kill i)
  then show ?thesis by (simp add: job_ok_leave [OF ok])
next
  case (check_killed i elapsed)
  then show ?thesis by (simp add: job_ok_phase [OF ok])
next
  case (collect i rc out err elapsed)
  then show ?thesis by (simp add: job_ok_leave [OF ok])
next
  case (store_result i payload)
  then have "\<forall>k. payload \<noteq> cancelled_result k" using ok [of i] by (simp add: job_ok_def)
  with store_result show ?thesis using ok [of j] by (auto simp: job_ok_def own_results_write)
next
  case (finish i)
  then show ?thesis using ok [of j] by (auto simp: job_ok_def)
next
  case (cancel i)
  then show ?thesis using ok [of j] by (auto simp: job_ok_def handler_pending_def)
next
  case (cancel_write hs i b hs')
  have h: "handler_pending st j \<longleftrightarrow> j = i \<or> (\<exists>b. (j, CWrite b) \<in> set (hs @ hs'))"
    using cancel_write(2) by (auto simp: handler_pending_def)
  have h': "handler_pending st' j \<longleftrightarrow> (\<exists>b. (j, CWrite b) \<in> set (hs @ hs'))"
    by (auto simp: cancel_write(1) handler_pending_def)
  have o: "own_results st' j = own_results st j"
    "cancel_results st' j = (if j = i then RJson (PDict (cancelled_result j)) # cancel_results st j else cancel_results st j)"
    by (simp_all add: cancel_write(1) own_results_write)
  show ?thesis using ok [of j] h h' o by (auto simp: job_ok_def cancel_write(1))
next
  case (cancel_terminate hs i b hs')
  have "handler_pending st' j = handler_pending st j"
    using cancel_terminate by (auto simp: handler_pending_def)
  then show ?thesis using ok [of j] by (auto simp: job_ok_def cancel_terminate(1) split: if_splits)
next
  case (consume i v r')
  have "mset (results st' j) = mset (results st j)"
    unfolding consume(1) by (rule results_consume [OF consume(2)])
  note k = results_kinds [OF this]
  have "own_results st' j = [] \<longleftrightarrow> own_results st j = []" using k(1) by (metis length_0_conv)
  moreover have "handler_pending st' j = handler_pending st j" by (simp add: consume(1) handler_pending_def)
  ultimately show ?thesis using ok [of j] k by (auto simp: job_ok_def consume(1) split: if_splits)
qed

lemma reachable_job_ok: "proxy_reachable rp st \<Longrightarrow> job_ok st j"
proof (induction arbitrary: j rule: proxy_reachable.induct)
  case start
  show ?case
    by (simp add: job_ok_def init_proxy_def own_results_def cancel_results_def results_def lbucket_def empty_redis_def handler_pending_def)
next
  case (step st st')
  show ?case by (rule job_ok_step [OF step.hyps(2) step.IH])
qed

text \<open>
  C23. Every job answers, in every interleaving of its thread with cancel handlers: when its
  thread is done and no cancel handler is about to write, a result has been stored. The thread
  itself stores at most one result, and none at all only for a cancelled job; a job that no
  handler cancelled has exactly one. A job that is done is not in the table of processes.
\<close>

theorem command_answered:
  assumes "proxy_reachable rp st" and "phase st j = JDone"
  shows "(\<not> handler_pending st j \<longrightarrow> results st j \<noteq> [])
    \<and> length (own_results st j) \<le> 1
    \<and> (j \<notin> cancelled st \<longrightarrow> length (results st j) = 1)
    \<and> j \<notin> processes st"
proof -
  have len: "length (results st j) = length (own_results st j) + length (cancel_results st j)"
    by (simp add: own_results_def cancel_results_def sum_length_filter_compl add.commute)
  have ok: "length (own_results st j) = 1 \<or> own_results st j = [] \<and> j \<in> cancelled st"
    "j \<in> cancelled st \<longleftrightarrow> cancel_results st j \<noteq> [] \<or> handler_pending st j" "j \<notin> processes st"
    using reachable_job_ok [OF assms(1), of j] assms(2) by (auto simp: job_ok_def)
  then show ?thesis using len by (cases "results st j = []") auto
qed

text \<open>A run without cancellation, for the witness.\<close>

lemma demo_job_done:
  "\<exists>st. proxy_reachable (\<lambda>_. []) st \<and> phase st ''j'' = JDone \<and> cancelled st = {}"
proof -
  let ?s1 = "set_phase ''j'' (JQueued (build_cmd (\<lambda>_. []) ''ls'' [])) init_proxy"
  let ?s2 = "set_phase ''j'' JSpawned ?s1"
  let ?s3 = "set_phase ''j'' JRunning (?s2\<lparr>processes := insert ''j'' (processes ?s2)\<rparr>)"
  let ?s4 = "set_phase ''j'' (JExited 0 ''out'' []) ?s3"
  let ?s5 = "set_phase ''j'' (if ''j'' \<in> cancelled ?s4 then JFinal else JWriting (exit_result 0 ''out'' [] 1)) (leave ''j'' ?s4)"
  let ?s6 = "set_phase ''j'' JFinal (?s5\<lparr>store := write_result (store ?s5) ''j'' (exit_result 0 ''out'' [] 1)\<rparr>)"
  let ?s7 = "set_phase ''j'' JDone (leave ''j'' ?s6)"
  have b: "build_cmd (\<lambda>_. []) ''ls'' [] = Some [''ls'']" by code_simp
  have "proxy_step (\<lambda>_. []) init_proxy ?s1" by (rule proxy_step.submit) (simp_all add: init_proxy_def)
  moreover have "proxy_step (\<lambda>_. []) ?s1 ?s2" by (rule proxy_step.spawn) (simp add: b)
  moreover have "proxy_step (\<lambda>_. []) ?s2 ?s3" by (rule proxy_step.register) simp
  moreover have "proxy_step (\<lambda>_. []) ?s3 ?s4" by (rule proxy_step.exits) simp
  moreover have "proxy_step (\<lambda>_. []) ?s4 ?s5" by (rule proxy_step.collect) simp
  moreover have "proxy_step (\<lambda>_. []) ?s5 ?s6" by (rule proxy_step.store_result) (simp add: init_proxy_def)
  moreover have "proxy_step (\<lambda>_. []) ?s6 ?s7" by (rule proxy_step.finish) simp
  ultimately have "proxy_reachable (\<lambda>_. []) ?s7"
    by - (rule proxy_reachable.step, rule proxy_reachable.step, rule proxy_reachable.step, rule proxy_reachable.step,
        rule proxy_reachable.step, rule proxy_reachable.step, rule proxy_reachable.step, rule proxy_reachable.start)
  moreover have "phase ?s7 ''j'' = JDone" "cancelled ?s7 = {}" by (simp_all add: init_proxy_def)
  ultimately show ?thesis by blast
qed

theorem command_answered_witness:
  "\<exists>st. proxy_reachable (\<lambda>_. []) st \<and> phase st ''j'' = JDone \<and> length (results st ''j'') = 1 \<and> ''j'' \<notin> processes st"
proof -
  obtain st where st: "proxy_reachable (\<lambda>_. []) st" "phase st ''j'' = JDone" "cancelled st = {}" using demo_job_done by blast
  from command_answered [OF st(1,2)] st show ?thesis by auto
qed

text \<open>
  A job whose command line has an unbalanced quote is never answered: its thread ends before the
  code that stores errors.
\<close>

lemma crashed_job_silent:
  assumes "proxy_reachable rp st" and "phase st j = JCrashed" and "j \<notin> cancelled st"
  shows "results st j = []"
proof -
  have ok: "own_results st j = []" "cancel_results st j = []"
    using reachable_job_ok [OF assms(1), of j] assms(2,3) by (simp_all add: job_ok_def)
  have "v \<in> set (own_results st j) \<union> set (cancel_results st j)" if "v \<in> set (results st j)" for v
    using that by (auto simp: own_results_def cancel_results_def)
  then show ?thesis using ok by (metis Un_iff emptyE empty_set hd_in_set)
qed

lemma unbalanced_quote_crashes: "build_cmd rp ''echo \"x'' params = None"
  by (simp add: build_cmd_def shlex_split_def is_space_def is_quote_def)

end
