(* ===== verification/Service_Proxy.thy ===== *)
theory Service_Proxy
  imports Redis_Store
begin

text \<open>
  Calls of long-running services: the proxy that forwards a request to the backend and stores its
  answer in Redis (\<^verbatim>\<open>src/proxy/async_service_proxy.py\<close>), the worker that submits to the proxy and
  waits for the answer (\<^verbatim>\<open>src/workload/async_proxy_worker.py\<close>), and the base class of workers
  (\<^verbatim>\<open>src/workload/base_worker_actor.py\<close>). The HTTP exchange with the backend is its reply, a
  value of \<open>backend_reply\<close>; the exchange with the proxy and the blocking pop are functions on
  the world.
\<close>

subsection \<open>The proxy\<close>

definition HOP_BY_HOP :: "string list" where
  "HOP_BY_HOP = [''connection'', ''keep-alive'', ''proxy-authenticate'', ''proxy-authorization'',
     ''te'', ''trailers'', ''transfer-encoding'', ''upgrade'']"

definition fwd_headers :: "(string \<times> string) list \<Rightarrow> (string \<times> string) list" where
  "fwd_headers hs = filter (\<lambda>(k, v). py_lower k \<notin> set HOP_BY_HOP \<and> py_lower k \<noteq> ''host'') hs"

definition rstrip_slash :: "string \<Rightarrow> string" where
  "rstrip_slash s = rev (dropWhile (\<lambda>c. c = CHR ''/'') (rev s))"

definition lstrip_slash :: "string \<Rightarrow> string" where
  "lstrip_slash s = dropWhile (\<lambda>c. c = CHR ''/'') s"

definition full_url :: "string \<Rightarrow> string \<Rightarrow> string" where
  "full_url backend path = rstrip_slash backend @ ''/'' @ lstrip_slash path"

definition proxy_key :: "string \<Rightarrow> string" where
  "proxy_key job = ''proxy_result:'' @ job"

text \<open>What the backend gets.\<close>

record backend_request =
  br_url :: string
  br_payload :: dict
  br_headers :: "(string \<times> string) list"
  br_method :: string

text \<open>\<^verbatim>\<open>POST /submit\<close>: the request for the backend and the answer of the proxy; a path that is not
  a string is an unhandled error.\<close>

definition submit_endpoint :: "string \<Rightarrow> string \<Rightarrow> (string \<times> string) list \<Rightarrow> dict \<Rightarrow> (backend_request \<times> dict) option" where
  "submit_endpoint backend job hs body =
     (let path = dict_get body ''_backend_path'' (PStr ''/generate'');
          body1 = AList.delete ''_backend_path'' body;
          mth = dict_get body1 ''_method'' (PStr ''POST'');
          body2 = AList.delete ''_method'' body1
      in case (path, mth) of
           (PStr p, PStr m) \<Rightarrow>
             Some (\<lparr>br_url = full_url backend p, br_payload = body2, br_headers = fwd_headers hs, br_method = m\<rparr>,
                   [(''job_id'', PStr job), (''result_key'', PStr (proxy_key job))])
         | _ \<Rightarrow> None)"

text \<open>The reply: an exception of the HTTP client, or a status with a body that is JSON or not.\<close>

datatype backend_reply = Raised string | Replied int "pyval option" string

definition forward_result :: "backend_reply \<Rightarrow> rat \<Rightarrow> dict" where
  "forward_result reply elapsed = (case reply of
      Raised e \<Rightarrow> [(''status'', PStr ''error''), (''http_status'', PInt 0), (''data'', PStr e), (''elapsed'', PFloat elapsed)]
    | Replied code json txt \<Rightarrow>
        [(''status'', PStr (if code < 400 then ''success'' else ''error'')), (''http_status'', PInt code),
         (''data'', case json of Some v \<Rightarrow> v | None \<Rightarrow> PStr txt), (''elapsed'', PFloat elapsed)])"

definition forward_and_store :: "redis \<Rightarrow> string \<Rightarrow> backend_reply \<Rightarrow> rat \<Rightarrow> redis" where
  "forward_and_store r key reply elapsed = expire (lpush r key (RJson (PDict (forward_result reply elapsed)))) key 3600"

definition get_result :: "redis \<Rightarrow> string \<Rightarrow> int \<times> pyval" where
  "get_result r job = (case lhead r (proxy_key job) of
      None \<Rightarrow> (202, PDict [(''status'', PStr ''pending'')])
    | Some (RJson v) \<Rightarrow> (200, v)
    | Some _ \<Rightarrow> (500, PNone))"

subsection \<open>The worker\<close>

datatype proxy_error = BackendPathUnset | ProxySubmitError string | ProxyTimeoutError string
  | ProxyBackendError string string pyval | NotADict

record AsyncProxyWorker =
  backend_path :: string
  http_method :: string
  proxy_url :: string
  call_count :: nat

text \<open>The address of the proxy: a list of addresses by the index of the actor, a single address,
  the environment variable, or the default.\<close>

definition resolve_proxy_url :: "string list \<Rightarrow> string \<Rightarrow> string \<Rightarrow> nat \<Rightarrow> string" where
  "resolve_proxy_url urls url env_url idx =
     (if urls \<noteq> [] then urls ! (idx mod length urls)
      else let u = (if url \<noteq> [] then url else env_url) in if u \<noteq> [] then u else ''http://localhost:5000'')"

definition transform_output :: "pyval \<Rightarrow> dict" where
  "transform_output v = (case v of PDict d \<Rightarrow> d | _ \<Rightarrow> [(''result'', v)])"

definition submit_payload :: "AsyncProxyWorker \<Rightarrow> pyval \<Rightarrow> dict" where
  "submit_payload wk data =
     dict_merge [(''_backend_path'', PStr (backend_path wk)), (''_method'', PStr (http_method wk))]
       (case data of PDict d \<Rightarrow> d | _ \<Rightarrow> [(''data'', data)])"

text \<open>The outcome of a popped result; \<open>str_of\<close> prints a dictionary.\<close>

definition read_result :: "(pyval \<Rightarrow> string) \<Rightarrow> string \<Rightarrow> rval \<Rightarrow> proxy_error + dict" where
  "read_result str_of job v = (case v of
      RText _ \<Rightarrow> Inl (ProxyBackendError ''Invalid JSON in result'' job (PInt 0))
    | RNum _ \<Rightarrow> Inl NotADict
    | RJson (PDict d) \<Rightarrow>
        (let status = dict_get d ''status'' (PStr [])
         in if status = PStr ''cancelled'' then Inl (ProxyBackendError ''Job was cancelled'' job (PInt 0))
            else if status = PStr ''error''
            then (let e = dict_get d ''error'' PNone
                  in Inl (ProxyBackendError (py_str str_of (if truthy e then e else PDict d)) job (dict_get d ''http_status'' (PInt 0))))
            else Inr (transform_output (dict_get d ''data'' (PDict d))))
    | RJson _ \<Rightarrow> Inl NotADict)"

definition worker_call :: "(pyval \<Rightarrow> string) \<Rightarrow> (string \<Rightarrow> dict \<Rightarrow> 'w \<Rightarrow> (string + dict) \<times> 'w) \<Rightarrow> (string \<Rightarrow> 'w \<Rightarrow> rval option \<times> 'w)
    \<Rightarrow> AsyncProxyWorker \<Rightarrow> pyval \<Rightarrow> 'w \<Rightarrow> (proxy_error + dict) \<times> 'w" where
  "worker_call str_of post blpop wk data w =
     (if backend_path wk = [] then (Inl BackendPathUnset, w)
      else case post (rstrip_slash (proxy_url wk) @ ''/submit'') (submit_payload wk data) w of
        (Inl e, w1) \<Rightarrow> (Inl (ProxySubmitError []), w1)
      | (Inr resp, w1) \<Rightarrow>
          (let job = (case dict_get resp ''job_id'' (PStr []) of PStr j \<Rightarrow> j | _ \<Rightarrow> []) in
           case dict_get resp ''result_key'' (PStr []) of
             PStr [] \<Rightarrow> (Inl (ProxySubmitError job), w1)
           | PStr key \<Rightarrow> (case blpop key w1 of
                (None, w2) \<Rightarrow> (Inl (ProxyTimeoutError job), w2)
              | (Some v, w2) \<Rightarrow> (read_result str_of job v, w2))
           | _ \<Rightarrow> (Inl (ProxySubmitError job), w1)))"

text \<open>\<^verbatim>\<open>run\<close> of both worker classes: the hooks around \<^verbatim>\<open>call\<close>, counting the calls that returned.\<close>

definition worker_run :: "('d \<Rightarrow> 'e + 'd) \<Rightarrow> ('d \<Rightarrow> 'w \<Rightarrow> ('e + 'r) \<times> 'w) \<Rightarrow> ('r \<Rightarrow> 'e + 'r) \<Rightarrow> 'd \<Rightarrow> nat \<times> 'w \<Rightarrow> ('e + 'r) \<times> nat \<times> 'w" where
  "worker_run pre call post d st = (case st of (n, w) \<Rightarrow> case pre d of
      Inl e \<Rightarrow> (Inl e, n, w)
    | Inr d1 \<Rightarrow> (case call d1 w of
         (Inl e, w1) \<Rightarrow> (Inl e, n, w1)
       | (Inr r, w1) \<Rightarrow> (case post r of Inl e \<Rightarrow> (Inl e, n, w1) | Inr r1 \<Rightarrow> (Inr r1, n + 1, w1))))"

subsection \<open>Worker and proxy together\<close>

text \<open>The exchange with a proxy that answers \<open>reply\<close> from its backend: the answer is in Redis when
  the worker pops it. The world is Redis and the requests the backend has received.\<close>

definition proxy_post :: "string \<Rightarrow> string \<Rightarrow> (string \<times> string) list \<Rightarrow> backend_reply \<Rightarrow> rat \<Rightarrow>
    string \<Rightarrow> dict \<Rightarrow> redis \<times> backend_request list \<Rightarrow> (string + dict) \<times> redis \<times> backend_request list" where
  "proxy_post backend job hs reply elapsed url body w = (case w of (r, reqs) \<Rightarrow> case submit_endpoint backend job hs body of
      None \<Rightarrow> (Inl ''500'', r, reqs)
    | Some (req, resp) \<Rightarrow> (Inr resp, forward_and_store r (proxy_key job) reply elapsed, req # reqs))"

definition redis_blpop :: "string \<Rightarrow> redis \<times> 'q \<Rightarrow> rval option \<times> redis \<times> 'q" where
  "redis_blpop key w = (case w of (r, q) \<Rightarrow> case lpop r key of (v, r') \<Rightarrow> (v, r', q))"

lemma submit_payload_fields:
  assumes "map_of d ''_backend_path'' = None" and "map_of d ''_method'' = None"
  shows "map_of (submit_payload wk (PDict d)) ''_backend_path'' = Some (PStr (backend_path wk))"
    and "map_of (submit_payload wk (PDict d)) ''_method'' = Some (PStr (http_method wk))"
proof -
  have "map_of (rev d) ''_backend_path'' = None" "map_of (rev d) ''_method'' = None"
    using assms by (auto simp: map_of_eq_None_iff)
  then show "map_of (submit_payload wk (PDict d)) ''_backend_path'' = Some (PStr (backend_path wk))"
    "map_of (submit_payload wk (PDict d)) ''_method'' = Some (PStr (http_method wk))"
    by (auto simp: submit_payload_def map_add_def split: option.splits)
qed

lemma map_of_payload:
  assumes "distinct (map fst d)" and "map_of d ''_backend_path'' = None" and "map_of d ''_method'' = None"
  shows "map_of (AList.delete ''_method'' (AList.delete ''_backend_path'' (submit_payload wk (PDict d)))) = map_of d"
proof
  fix k
  have "map_of (rev d) = map_of d" using assms(1) by (subst map_of_inject_set) (simp_all add: rev_map [symmetric])
  then show "map_of (AList.delete ''_method'' (AList.delete ''_backend_path'' (submit_payload wk (PDict d)))) k = map_of d k"
    using assms by (auto simp: submit_payload_def delete_conv' map_add_def split: option.splits)
qed


definition demo_worker :: AsyncProxyWorker where
  "demo_worker = \<lparr>backend_path = ''/infer'', http_method = ''POST'', proxy_url = ''http://p/'', call_count = 0\<rparr>"


text \<open>
  Routing keys in the data of the caller win: they replace the path and the method of the worker.
\<close>

lemma caller_redirects:
  "map_of (submit_payload wk (PDict [(''_backend_path'', PStr p)])) ''_backend_path'' = Some (PStr p)"
  by (simp add: submit_payload_def)

end
