(* ===== verification/Rate_Limit.thy ===== *)
theory Rate_Limit
  imports Redis_Store
begin

text \<open>
  The rate limiter and its middleware (\<^verbatim>\<open>src/middleware/rate_limit.py\<close>). A request leaves an
  entry in a sorted set per tenant, method and path; its member and its score are the time in
  whole seconds. \<open>fault n\<close> is the exception, if any, that the n-th Redis call of a request raises;
  the application behind the middleware is the function \<open>call_next\<close>.
\<close>

subsection \<open>The limiter\<close>

datatype rate_meta =
    Limits int int int int
  | FailOpen string

definition limit_key :: "string \<Rightarrow> string \<Rightarrow> string" where
  "limit_key prefix ident = prefix @ '':'' @ ident"

definition is_allowed :: "string \<Rightarrow> string \<Rightarrow> int \<Rightarrow> int \<Rightarrow> int \<Rightarrow> (nat \<Rightarrow> string option) \<Rightarrow> redis \<Rightarrow> (bool \<times> rate_meta) \<times> redis" where
  "is_allowed prefix ident now window_seconds max_requests fault r =
     (let key = limit_key prefix ident in
      case fault 0 of Some e \<Rightarrow> ((True, FailOpen e), r) | None \<Rightarrow>
      (let r1 = zremrangebyscore r key (Score 0) (Score (of_int (now - window_seconds))) in
       case fault 1 of Some e \<Rightarrow> ((True, FailOpen e), r1) | None \<Rightarrow>
       (let current = int (zcard r1 key) in
        if current \<ge> max_requests
        then (case fault 2 of Some e \<Rightarrow> ((True, FailOpen e), r1) | None \<Rightarrow>
              (let retry_after = (case zfirst r1 key of
                     None \<Rightarrow> 0
                   | Some (m, s) \<Rightarrow> max 1 (trunc (s + of_int window_seconds - of_int now)))
               in ((False, Limits max_requests 0 (now + retry_after) retry_after), r1)))
        else (case fault 2 of Some e \<Rightarrow> ((True, FailOpen e), r1) | None \<Rightarrow>
              (let r2 = zadd r1 key (RNum now) (of_int now) in
               case fault 3 of Some e \<Rightarrow> ((True, FailOpen e), r2) | None \<Rightarrow>
               ((True, Limits max_requests (max_requests - current - 1) (now + window_seconds) 0),
                expire r2 key window_seconds))))))"

subsection \<open>The middleware\<close>

record http_request =
  rq_path :: string
  rq_method :: string
  rq_authorization :: "string option"

record http_response =
  rs_status :: int
  rs_headers :: "(string \<times> string) list"
  rs_body :: dict

datatype middleware_error = KeyError string

definition rate_identifier :: "http_request \<Rightarrow> string" where
  "rate_identifier rq =
     (let tenant = (case rq_authorization rq of
            Some h \<Rightarrow> if take 7 h = ''Bearer '' then ''authenticated'' else ''anonymous''
          | None \<Rightarrow> ''anonymous'')
      in tenant @ '':'' @ rq_method rq @ '':'' @ replace_char (CHR ''/'') (CHR ''_'') (rq_path rq))"

definition too_many :: "int \<Rightarrow> int \<Rightarrow> int \<Rightarrow> http_response" where
  "too_many limit reset retry_after =
     \<lparr>rs_status = 429,
      rs_headers = [(''X-RateLimit-Limit'', int_str limit), (''X-RateLimit-Remaining'', ''0''),
        (''X-RateLimit-Reset'', int_str reset), (''Retry-After'', int_str retry_after)],
      rs_body = [(''detail'', PStr (''Rate limit exceeded. Try again in '' @ int_str retry_after @ '' seconds.'')),
        (''retry_after'', PInt retry_after)]\<rparr>"

text \<open>The headers are added to the response of the application; without limits in the metadata
  the access to them raises.\<close>

definition middleware :: "string list \<Rightarrow> int \<Rightarrow> int \<Rightarrow> (http_request \<Rightarrow> 'w \<Rightarrow> http_response \<times> 'w) \<Rightarrow> int \<Rightarrow> (nat \<Rightarrow> string option) \<Rightarrow>
    http_request \<Rightarrow> redis \<times> 'w \<Rightarrow> (middleware_error + http_response) \<times> redis \<times> 'w" where
  "middleware exempt window_seconds limit call_next now fault rq st = (case st of (r, w) \<Rightarrow>
     if rq_path rq \<in> set exempt then (let (rs, w1) = call_next rq w in (Inr rs, r, w1))
     else case is_allowed ''ratelimit'' (rate_identifier rq) now window_seconds limit fault r of
       ((False, Limits l rem rst ra), r1) \<Rightarrow> (Inr (too_many l rst ra), r1, w)
     | ((False, FailOpen e), r1) \<Rightarrow> (Inl (KeyError ''limit''), r1, w)
     | ((True, meta), r1) \<Rightarrow>
         (let (rs, w1) = call_next rq w
          in case meta of
               FailOpen e \<Rightarrow> (Inl (KeyError ''limit''), r1, w1)
             | Limits l rem rst ra \<Rightarrow>
                 (Inr (rs\<lparr>rs_headers := AList.update ''X-RateLimit-Reset'' (int_str rst)
                    (AList.update ''X-RateLimit-Remaining'' (int_str rem)
                      (AList.update ''X-RateLimit-Limit'' (int_str l) (rs_headers rs)))\<rparr>), r1, w1)))"

subsection \<open>The window\<close>

abbreviation no_fault :: "nat \<Rightarrow> string option" where
  "no_fault \<equiv> \<lambda>_. None"

text \<open>
  The history of one identifier: requests at times that do not decrease, with the answers, and the
  removal of the key by its expiry time, no earlier than the window after the last entry.
\<close>

inductive limiter_run :: "string \<Rightarrow> string \<Rightarrow> int \<Rightarrow> int \<Rightarrow> redis \<Rightarrow> int \<Rightarrow> (int \<times> bool) list \<Rightarrow> bool" for prefix ident win mx where
  begins: "zbucket r (limit_key prefix ident) = [] \<Longrightarrow> 0 \<le> t \<Longrightarrow> limiter_run prefix ident win mx r t []"
| request: "limiter_run prefix ident win mx r t h \<Longrightarrow> t \<le> now \<Longrightarrow>
    is_allowed prefix ident now win mx no_fault r = ((ok, meta), r') \<Longrightarrow>
    limiter_run prefix ident win mx r' now (h @ [(now, ok)])"
| expires: "limiter_run prefix ident win mx r t h \<Longrightarrow> t \<le> now \<Longrightarrow>
    (\<And>s. (s, True) \<in> set h \<Longrightarrow> s + win \<le> now) \<Longrightarrow>
    limiter_run prefix ident win mx (evict r (limit_key prefix ident)) now h"
| elsewhere: "limiter_run prefix ident win mx r t h \<Longrightarrow> zbucket r' (limit_key prefix ident) = zbucket r (limit_key prefix ident) \<Longrightarrow>
    limiter_run prefix ident win mx r' t h"

text \<open>The seconds of the window before \<open>now\<close> in which a request was admitted.\<close>

definition admitted :: "(int \<times> bool) list \<Rightarrow> int \<Rightarrow> int \<Rightarrow> int set" where
  "admitted h win now = {s. (s, True) \<in> set h \<and> now - win < s}"

definition in_window :: "int \<Rightarrow> int \<Rightarrow> (rval \<times> rat) list \<Rightarrow> (rval \<times> rat) list" where
  "in_window win now b = filter (\<lambda>(m, s). \<not> (0 \<le> s \<and> s \<le> of_int (now - win))) b"

definition window_inv :: "int \<Rightarrow> (rval \<times> rat) list \<Rightarrow> int \<Rightarrow> (int \<times> bool) list \<Rightarrow> bool" where
  "window_inv win b t h \<longleftrightarrow> distinct (map fst b)
     \<and> (\<forall>e \<in> set b. \<exists>s \<ge> 0. e = (RNum s, of_int s) \<and> (s, True) \<in> set h \<and> s \<le> t)
     \<and> (\<forall>s. (s, True) \<in> set h \<and> t - win < s \<longrightarrow> (RNum s, of_int s) \<in> set b) \<and> 0 \<le> t"

lemma in_window_set:
  assumes "window_inv win b t h" and "t \<le> now"
  shows "set (in_window win now b) = (\<lambda>s. (RNum s, of_int s)) ` admitted h win now" and "distinct (map fst (in_window win now b))"
proof -
  show "set (in_window win now b) = (\<lambda>s. (RNum s, of_int s)) ` admitted h win now"
  proof (intro set_eqI iffI)
    fix e assume "e \<in> set (in_window win now b)"
    then have e: "e \<in> set b" "\<not> (0 \<le> snd e \<and> snd e \<le> of_int (now - win))"
      by (auto simp: in_window_def case_prod_unfold)
    then obtain s where "s \<ge> 0" "e = (RNum s, of_int s)" "(s, True) \<in> set h"
      using assms(1) by (auto simp: window_inv_def)
    moreover have "now - win < s" using e(2) calculation by (simp add: not_le)
    ultimately show "e \<in> (\<lambda>s. (RNum s, of_int s)) ` admitted h win now" by (auto simp: admitted_def)
  next
    fix e :: "rval \<times> rat" assume "e \<in> (\<lambda>s. (RNum s, of_int s)) ` admitted h win now"
    then obtain s where s: "e = (RNum s, of_int s)" "(s, True) \<in> set h" "now - win < s" by (auto simp: admitted_def)
    then have "e \<in> set b" using assms by (auto simp: window_inv_def)
    moreover have "\<not> (of_int s :: rat) \<le> of_int (now - win)" using s(3) by (simp only: of_int_le_iff)
    ultimately show "e \<in> set (in_window win now b)" by (auto simp: in_window_def s(1))
  qed
  show "distinct (map fst (in_window win now b))"
    using assms(1) unfolding in_window_def by (intro distinct_map_filter) (simp add: window_inv_def)
qed

lemma in_window_length:
  assumes "window_inv win b t h" and "t \<le> now"
  shows "length (in_window win now b) = card (admitted h win now)"
proof -
  have "distinct (in_window win now b)" using in_window_set(2) [OF assms] by (simp add: distinct_map)
  then have "length (in_window win now b) = card ((\<lambda>s. (RNum s, of_int s :: rat)) ` admitted h win now)"
    by (simp add: distinct_card [symmetric] in_window_set(1) [OF assms])
  also have "\<dots> = card (admitted h win now)" by (intro card_image inj_onI) simp
  finally show ?thesis .
qed

lemma window_after_clean:
  "zbucket (zremrangebyscore r key (Score 0) (Score (of_int (now - win)))) key = in_window win now (zbucket r key)"
  by (simp add: store_simps in_window_def)

lemma is_allowed_decision:
  assumes "window_inv win (zbucket r (limit_key prefix ident)) t h" and "t \<le> now"
    and "is_allowed prefix ident now win mx no_fault r = ((ok, meta), r')"
  shows "ok \<longleftrightarrow> int (card (admitted h win now)) < mx"
    and "zbucket r' (limit_key prefix ident) = (if ok then AList.update (RNum now) (of_int now) (in_window win now (zbucket r (limit_key prefix ident)))
      else in_window win now (zbucket r (limit_key prefix ident)))"
proof -
  let ?key = "limit_key prefix ident"
  let ?r1 = "zremrangebyscore r ?key (Score 0) (Score (of_int (now - win)))"
  have c: "zcard ?r1 ?key = card (admitted h win now)"
    by (simp add: zcard_def window_after_clean in_window_length [OF assms(1,2)] del: of_int_diff)
  show "ok \<longleftrightarrow> int (card (admitted h win now)) < mx"
    using assms(3) by (auto simp: is_allowed_def c Let_def simp del: of_int_diff split: if_splits)
  then show "zbucket r' ?key = (if ok then AList.update (RNum now) (of_int now) (in_window win now (zbucket r ?key))
      else in_window win now (zbucket r ?key))"
    using assms(3) by (auto simp: is_allowed_def c Let_def store_simps in_window_def simp del: of_int_diff split: if_splits)
qed

lemma window_inv_admit:
  assumes inv: "window_inv win b t h" and "t \<le> now" and "win > 0"
    and b': "b' = (if ok then AList.update (RNum now) (of_int now) (in_window win now b) else in_window win now b)"
  shows "window_inv win b' now (h @ [(now, ok)])"
proof -
  have now: "0 \<le> now" using inv assms(2) by (simp add: window_inv_def)
  have d: "distinct (map fst (in_window win now b))" by (rule in_window_set(2) [OF inv assms(2)])
  have sub: "\<exists>s \<ge> 0. e = (RNum s, of_int s) \<and> (s, True) \<in> set h \<and> s \<le> now" if "e \<in> set (in_window win now b)" for e
    using that inv assms(2) by (fastforce simp: window_inv_def in_window_def)
  have sup: "(RNum s, of_int s) \<in> set (in_window win now b)" if "(s, True) \<in> set h" "now - win < s" for s
    using that by (auto simp: in_window_set(1) [OF inv assms(2)] admitted_def)
  show ?thesis
  proof (cases ok)
    case True
    have mem: "(x, y) \<in> set b' \<longleftrightarrow> (if x = RNum now then y = of_int now else (x, y) \<in> set (in_window win now b))" for x y
      using in_set_update [OF d] True b' by simp
    have "\<exists>s \<ge> 0. e = (RNum s, of_int s) \<and> (s, True) \<in> set (h @ [(now, True)]) \<and> s \<le> now" if e: "e \<in> set b'" for e
    proof -
      obtain x y where xy: "e = (x, y)" by (cases e)
      then have "x = RNum now \<and> y = of_int now \<or> e \<in> set (in_window win now b)" using e mem [of x y] by (auto split: if_splits)
      then show ?thesis using sub [of e] now xy by auto
    qed
    moreover have "(RNum s, of_int s) \<in> set b'" if "(s, True) \<in> set (h @ [(now, True)])" "now - win < s" for s
      using that mem sup by auto
    moreover have "distinct (map fst b')" using d True b' by (simp add: distinct_update)
    ultimately show ?thesis using now True by (simp add: window_inv_def)
  next
    case False
    then show ?thesis using d sub sup now b' by (auto simp: window_inv_def)
  qed
qed

lemma limiter_invariant:
  assumes "limiter_run prefix ident win mx r t h" and "win > 0"
  shows "window_inv win (zbucket r (limit_key prefix ident)) t h \<and> (\<forall>now \<ge> t. int (card (admitted h win now)) \<le> max 0 mx)"
  using assms
proof (induction rule: limiter_run.induct)
  case (begins r t)
  then show ?case by (simp add: window_inv_def admitted_def)
next
  case (request r t h now ok meta r')
  then have inv: "window_inv win (zbucket r (limit_key prefix ident)) t h"
    and le: "\<forall>now \<ge> t. int (card (admitted h win now)) \<le> max 0 mx" by blast+
  note dec = is_allowed_decision [OF inv request.hyps(2,3)]
  have "window_inv win (zbucket r' (limit_key prefix ident)) now (h @ [(now, ok)])"
    by (rule window_inv_admit [OF inv request.hyps(2) assms(2) dec(2)])
  moreover have "int (card (admitted (h @ [(now, ok)]) win now')) \<le> max 0 mx" if "now' \<ge> now" for now'
  proof (cases ok)
    case True
    have fin: "finite (admitted h win now)"
      by (rule finite_subset [of _ "fst ` set h"]) (force simp: admitted_def)+
    have "admitted (h @ [(now, ok)]) win now' \<subseteq> insert now (admitted h win now)"
      using that by (auto simp: admitted_def)
    then have "card (admitted (h @ [(now, ok)]) win now') \<le> card (insert now (admitted h win now))"
      using fin by (intro card_mono) auto
    also have "\<dots> \<le> card (admitted h win now) + 1" using card_insert_le_m1 [of _ _ now] fin by (simp add: card_insert_if)
    finally show ?thesis using dec(1) True by linarith
  next
    case False
    then have "admitted (h @ [(now, ok)]) win now' = admitted h win now'" by (auto simp: admitted_def)
    then show ?thesis using le that request.hyps(2) by simp
  qed
  ultimately show ?case by blast
next
  case (expires r t h now)
  then have inv: "window_inv win (zbucket r (limit_key prefix ident)) t h" by blast
  have "window_inv win [] now h"
    using inv expires.hyps by (auto simp: window_inv_def dest: expires.hyps(3))
  then show ?case using expires by (simp add: store_simps)
next
  case (elsewhere r t h r')
  then show ?case by simp
qed

lemma limiter_decides:
  assumes "limiter_run prefix ident win mx r t h" and "win > 0" and "t \<le> now"
  shows "fst (fst (is_allowed prefix ident now win mx no_fault r)) \<longleftrightarrow> int (card (admitted h win now)) < mx"
proof -
  obtain ok meta r' where a: "is_allowed prefix ident now win mx no_fault r = ((ok, meta), r')"
    by (metis surj_pair)
  show ?thesis
    using limiter_invariant [OF assms(1,2)] is_allowed_decision(1) [OF _ assms(3) a] a by simp
qed


text \<open>Two admitted requests in different seconds under a limit of two, for the witnesses.\<close>

definition full_window :: redis where
  "full_window = snd (is_allowed ''ratelimit'' ''a'' 105 60 2 no_fault (snd (is_allowed ''ratelimit'' ''a'' 100 60 2 no_fault empty_redis)))"

lemma full_window_run: "limiter_run ''ratelimit'' ''a'' 60 2 full_window 105 [(100, True), (105, True)]"
proof -
  let ?a = "is_allowed ''ratelimit'' ''a'' 100 60 2 no_fault empty_redis"
  let ?b = "is_allowed ''ratelimit'' ''a'' 105 60 2 no_fault (snd ?a)"
  have s: "limiter_run ''ratelimit'' ''a'' 60 2 empty_redis 0 []"
    by (rule limiter_run.begins) (simp_all add: zbucket_def empty_redis_def)
  have a: "?a = ((True, Limits 2 1 160 0), snd ?a)"
    by (simp add: is_allowed_def Let_def zcard_def zbucket_def zremrangebyscore_def empty_redis_def)
  have ra: "limiter_run ''ratelimit'' ''a'' 60 2 (snd ?a) 100 ([] @ [(100, True)])"
    by (rule limiter_run.request [OF s _ a]) simp
  have b: "?b = ((True, Limits 2 0 165 0), snd ?b)"
    by (simp add: is_allowed_def Let_def zcard_def zbucket_def zremrangebyscore_def empty_redis_def zadd_def expire_def exists_def)
  have "limiter_run ''ratelimit'' ''a'' 60 2 (snd ?b) 105 (([] @ [(100, True)]) @ [(105, True)])"
    by (rule limiter_run.request [OF ra _ b]) simp
  then show ?thesis by (simp add: full_window_def)
qed

lemma full_window_admitted: "admitted [(100, True), (105, True)] 60 130 = {100, 105}"
  by (auto simp: admitted_def)


text \<open>The smallest score is the oldest admitted second.\<close>

lemma zfirst_oldest:
  assumes "set (zbucket r key) = (\<lambda>s. (RNum s, of_int s)) ` A" and "A \<noteq> {}" and "finite A"
  shows "zfirst r key = Some (RNum (Min A), of_int (Min A))"
proof -
  define l where "l = zrangebyscore r key NegInf PosInf"
  have set_l: "set l = (\<lambda>s. (RNum s, of_int s)) ` A"
    unfolding l_def zrangebyscore_def assms(1) [symmetric] by (simp add: case_prod_unfold)
  have sorted: "sorted (map snd l)" unfolding l_def by (rule sorted_zrangebyscore)
  obtain e es where l: "l = e # es" using set_l assms(2) by (cases l) auto
  have "e \<in> (\<lambda>s. (RNum s, of_int s)) ` A" unfolding set_l [symmetric] l by simp
  then obtain s where s: "s \<in> A" "e = (RNum s, of_int s)" by blast
  have "s \<le> s'" if "s' \<in> A" for s'
  proof -
    have "(RNum s', of_int s') \<in> set l" using that unfolding set_l by blast
    then consider "(RNum s', of_int s') = e" | "(RNum s', of_int s') \<in> set es" using l by auto
    then show ?thesis
    proof cases
      case 1
      then show ?thesis using s(2) by simp
    next
      case 2
      have "\<forall>x \<in> set es. snd e \<le> snd x" using sorted l by simp
      then have "(of_int s :: rat) \<le> of_int s'" using 2 s(2) by fastforce
      then show ?thesis by simp
    qed
  qed
  then have "Min A = s" using s(1) assms(3) by (intro Min_eqI) auto
  then show ?thesis using s(2) l by (simp add: zfirst_def l_def [symmetric])
qed

text \<open>
  \<^verbatim>\<open>Retry-After\<close> is honest: a refused request is told to wait between one second and the
  length of the window, and the next request of that caller, made that many seconds later or any
  time after, is admitted.
\<close>

theorem retry_after_honest:
  assumes run: "limiter_run prefix ident win mx r t h" and win: "win > 0" and mx: "mx > 0" and now: "t \<le> now"
    and den: "is_allowed prefix ident now win mx no_fault r = ((False, meta), r')"
  shows "\<exists>ra. meta = Limits mx 0 (now + ra) ra \<and> 1 \<le> ra \<and> ra \<le> win
    \<and> (\<forall>now' \<ge> now + ra. fst (fst (is_allowed prefix ident now' win mx no_fault r')))"
proof -
  let ?key = "limit_key prefix ident" and ?A = "admitted h win now"
  let ?r1 = "zremrangebyscore r ?key (Score 0) (Score (of_int (now - win)))"
  have inv: "window_inv win (zbucket r ?key) t h" and le: "int (card ?A) \<le> mx"
    using limiter_invariant [OF run win] now mx by auto
  have full: "int (card ?A) = mx" using is_allowed_decision(1) [OF inv now den] le by simp
  have fin: "finite ?A" by (rule finite_subset [of _ "fst ` set h"]) (force simp: admitted_def)+
  have ne: "?A \<noteq> {}" using full mx by auto
  let ?s = "Min ?A"
  have s: "?s \<in> ?A" by (rule Min_in [OF fin ne])
  have "(RNum ?s, of_int ?s) \<in> set (zbucket r ?key)" using s inv now by (simp add: admitted_def window_inv_def)
  moreover have "\<forall>e \<in> set (zbucket r ?key). \<exists>s \<ge> 0. e = (RNum s, of_int s) \<and> (s, True) \<in> set h \<and> s \<le> t"
    using inv by (simp add: window_inv_def)
  ultimately obtain s' where "(RNum ?s, of_int ?s :: rat) = (RNum s', of_int s')" "s' \<le> t" by blast
  then have s_le: "?s \<le> now" using now by simp
  have s_gt: "now - win < ?s" using s by (simp add: admitted_def)
  have b1: "set (zbucket ?r1 ?key) = (\<lambda>s. (RNum s, of_int s)) ` ?A"
    using in_window_set(1) [OF inv now] by (simp add: window_after_clean del: of_int_diff)
  have tr: "trunc (of_int ?s + of_int win - of_int now :: rat) = ?s + win - now"
    by (simp add: trunc_def flip: of_int_add of_int_diff)
  have c: "int (zcard ?r1 ?key) = mx"
    using full in_window_length [OF inv now] by (simp add: zcard_def window_after_clean del: of_int_diff)
  let ?ra = "?s + win - now"
  have meta: "meta = Limits mx 0 (now + ?ra) ?ra"
    using den s_gt by (simp add: is_allowed_def Let_def c zfirst_oldest [OF b1 ne fin] tr del: of_int_diff)
  have run': "limiter_run prefix ident win mx r' now (h @ [(now, False)])"
    by (rule limiter_run.request [OF run now den])
  have "fst (fst (is_allowed prefix ident now' win mx no_fault r'))" if "now' \<ge> now + ?ra" for now'
  proof -
    have "admitted (h @ [(now, False)]) win now' \<subseteq> ?A - {?s}"
      using that s_gt by (auto simp: admitted_def)
    then have "card (admitted (h @ [(now, False)]) win now') \<le> card (?A - {?s})"
      using fin by (intro card_mono) auto
    also have "\<dots> < card ?A" using s fin by (intro card_Diff1_less)
    finally have "int (card (admitted (h @ [(now, False)]) win now')) < mx" using full by simp
    moreover have "now \<le> now'" using that s_gt by simp
    ultimately show ?thesis using limiter_decides [OF run' win] by simp
  qed
  then show ?thesis using meta s_le s_gt by (intro exI [of _ ?ra]) auto
qed

theorem retry_after_honest_witness:
  "\<exists>ra r'. is_allowed ''ratelimit'' ''a'' 130 60 2 no_fault full_window = ((False, Limits 2 0 (130 + ra) ra), r')
     \<and> 1 \<le> ra \<and> ra \<le> 60 \<and> fst (fst (is_allowed ''ratelimit'' ''a'' (130 + ra) 60 2 no_fault r'))"
proof -
  obtain ok meta r' where a: "is_allowed ''ratelimit'' ''a'' 130 60 2 no_fault full_window = ((ok, meta), r')" by (metis surj_pair)
  have "window_inv 60 (zbucket full_window (limit_key ''ratelimit'' ''a'')) 105 [(100, True), (105, True)]"
    using limiter_invariant [OF full_window_run] by simp
  from is_allowed_decision(1) [OF this _ a] have "\<not> ok" by (simp add: full_window_admitted)
  with a have "is_allowed ''ratelimit'' ''a'' 130 60 2 no_fault full_window = ((False, meta), r')" by simp
  from retry_after_honest [OF full_window_run _ _ _ this] a \<open>\<not> ok\<close> show ?thesis by auto
qed

subsection \<open>What the limiter does not count\<close>

text \<open>
  Requests in the same second share one entry: once one of them is admitted and the entry does not
  fill the window, any number of further requests in that second is admitted as well.
\<close>

fun same_second :: "string \<Rightarrow> string \<Rightarrow> int \<Rightarrow> int \<Rightarrow> int \<Rightarrow> nat \<Rightarrow> redis \<Rightarrow> bool list" where
  "same_second prefix ident win mx now 0 r = []"
| "same_second prefix ident win mx now (Suc n) r = (case is_allowed prefix ident now win mx no_fault r of
     ((ok, meta), r') \<Rightarrow> ok # same_second prefix ident win mx now n r')"

lemma same_second_admitted:
  assumes "limiter_run prefix ident win mx r t h" and "win > 0" and "t \<le> now"
    and "int (card (insert now (admitted h win now))) < mx"
  shows "same_second prefix ident win mx now n r = replicate n True"
  using assms
proof (induction n arbitrary: r t h)
  case (Suc n)
  obtain ok meta r' where a: "is_allowed prefix ident now win mx no_fault r = ((ok, meta), r')" by (metis surj_pair)
  have fin: "finite (admitted h win now)" by (rule finite_subset [of _ "fst ` set h"]) (force simp: admitted_def)+
  have "card (admitted h win now) \<le> card (insert now (admitted h win now))" using fin by (intro card_mono) auto
  then have ok: "ok" using limiter_decides [OF Suc.prems(1-3)] Suc.prems(4) a by simp
  have run': "limiter_run prefix ident win mx r' now (h @ [(now, ok)])" by (rule limiter_run.request [OF Suc.prems(1,3) a])
  have "insert now (admitted (h @ [(now, ok)]) win now) = insert now (admitted h win now)"
    using ok by (auto simp: admitted_def)
  then have "same_second prefix ident win mx now n r' = replicate n True"
    using Suc.prems(4) by (intro Suc.IH [OF run' Suc.prems(2)]) simp_all
  then show ?case using a ok by simp
qed simp

lemma same_second_unlimited:
  "same_second ''ratelimit'' ident 60 2 now n empty_redis = replicate n True" if "0 \<le> now"
proof (rule same_second_admitted)
  show "limiter_run ''ratelimit'' ident 60 2 empty_redis now []"
    using that by (intro limiter_run.begins) (simp_all add: zbucket_def empty_redis_def)
qed (simp_all add: admitted_def)

text \<open>
  When Redis fails the limiter admits the request, but the middleware then looks for limits in
  metadata that has none: the request is served and its response is lost in an error.
\<close>

lemma fail_open_raises:
  assumes "rq_path rq \<notin> set exempt" and "fault 0 = Some e"
  shows "middleware exempt win mx call_next now fault rq (r, w) = (Inl (KeyError ''limit''), r, snd (call_next rq w))"
  using assms by (simp add: middleware_def is_allowed_def case_prod_unfold)

end
