(* ===== verification/Api_Auth.thy ===== *)
theory Api_Auth
  imports Registry
begin

text \<open>
  Authentication of API requests (\<^verbatim>\<open>src/api/auth.py\<close>), the tenant context built from it
  (\<^verbatim>\<open>src/api/dependencies.py\<close>) and the access policies (\<^verbatim>\<open>src/services/access_policy.py\<close>). The
  result of a successful authentication is a dictionary, as in the code; keys of tenants are
  checked by the tenant registry of \<open>Registry\<close>.
\<close>

datatype http_error = HTTPException int | MissingKey string | NoAttribute

record auth_settings =
  super_admin_key :: string
  multi_tenant_enabled :: bool

definition mask_api_key :: "string \<Rightarrow> string" where
  "mask_api_key k = (if k = [] then [] else if length k \<le> 8 then ''****''
     else take 4 k @ ''***'' @ drop (length k - 4) k)"

definition super_admin_context :: "string \<Rightarrow> dict" where
  "super_admin_context k = [(''tenant_id'', PStr ''super_admin''), (''api_key'', PStr (mask_api_key k)),
     (''is_super_admin'', PBool True), (''quota'', PNone)]"

definition tenant_context_of :: "dict \<Rightarrow> dict" where
  "tenant_context_of d = [(''tenant_id'', dict_get d ''tenant_id'' (PStr [])), (''tenant_name'', dict_get d ''tenant_name'' (PStr [])),
     (''is_super_admin'', PBool False), (''quota'', dict_get d ''quota'' PNone),
     (''status'', dict_get d ''status'' (PStr ''active''))]"

text \<open>\<open>hint\<close> is the tenant header; no Redis client is \<open>None\<close>.\<close>

definition authenticate :: "(string \<Rightarrow> string) \<Rightarrow> auth_settings \<Rightarrow> string option \<Rightarrow> string option \<Rightarrow> redis option \<Rightarrow> http_error + dict" where
  "authenticate sha cfg credentials hint redis = (case credentials of
      None \<Rightarrow> Inl (HTTPException 401)
    | Some key \<Rightarrow>
        (let admin = super_admin_key cfg \<noteq> [] \<and> key = super_admin_key cfg
         in if \<not> multi_tenant_enabled cfg
            then (if admin then Inr (super_admin_context key) else Inl (HTTPException 401))
            else case redis of
              None \<Rightarrow> Inl (HTTPException 503)
            | Some r \<Rightarrow>
                if admin then Inr (super_admin_context key)
                else (case validate_key sha r key hint of
                        PNone \<Rightarrow> Inl (HTTPException 401)
                      | PDict d \<Rightarrow>
                          (if dict_get d ''status'' (PStr ''active'') \<in> {PStr ''active'', PStr ''ACTIVE''}
                           then Inr (tenant_context_of d) else Inl (HTTPException 403))
                      | _ \<Rightarrow> Inl NoAttribute)))"

record TenantContext =
  tc_tenant_id :: pyval
  tc_api_key :: pyval
  tc_super_admin :: bool

definition get_tenant_context :: "dict \<Rightarrow> http_error + TenantContext" where
  "get_tenant_context auth = (case map_of auth ''tenant_id'' of
      None \<Rightarrow> Inl (MissingKey ''tenant_id'')
    | Some t \<Rightarrow> (case map_of auth ''api_key'' of
         None \<Rightarrow> Inl (MissingKey ''api_key'')
       | Some k \<Rightarrow> Inr \<lparr>tc_tenant_id = t, tc_api_key = k, tc_super_admin = truthy (dict_get auth ''is_super_admin'' (PBool False))\<rparr>))"

definition require_super_admin :: "TenantContext \<Rightarrow> http_error + TenantContext" where
  "require_super_admin c = (if tc_super_admin c then Inr c else Inl (HTTPException 403))"

definition resolve_tenant_id :: "dict \<Rightarrow> string \<Rightarrow> pyval" where
  "resolve_tenant_id auth fallback =
     (let t = dict_get auth ''tenant_id'' (PStr fallback) in if truthy t then t else PStr fallback)"

definition policy_super_admin :: "dict \<Rightarrow> http_error + unit" where
  "policy_super_admin auth = (if truthy (dict_get auth ''is_super_admin'' PNone) then Inr () else Inl (HTTPException 403))"

definition policy_same_tenant :: "dict \<Rightarrow> string \<Rightarrow> http_error + unit" where
  "policy_same_tenant auth tenant =
     (if \<not> truthy (dict_get auth ''is_super_admin'' PNone) \<and> dict_get auth ''tenant_id'' (PStr []) \<noteq> PStr tenant
      then Inl (HTTPException 403) else Inr ())"

subsection \<open>Who gets in\<close>

lemma context_fields [simp]:
  "dict_get (super_admin_context k) ''is_super_admin'' x = PBool True"
  "dict_get (tenant_context_of d) ''is_super_admin'' x = PBool False"
  "dict_get (tenant_context_of d) ''tenant_id'' x = dict_get d ''tenant_id'' (PStr [])"
  "dict_get (super_admin_context k) ''role'' x = x"
  "dict_get (tenant_context_of d) ''role'' x = x"
  by (simp_all add: dict_get_def super_admin_context_def tenant_context_of_def)

lemma authenticate_cases:
  assumes "authenticate sha cfg credentials hint redis = Inr auth"
  obtains (admin) key where "credentials = Some key" "key = super_admin_key cfg" "key \<noteq> []" "auth = super_admin_context key"
  | (tenant) key r d where "credentials = Some key" "multi_tenant_enabled cfg" "redis = Some r"
      "validate_key sha r key hint = PDict d" "dict_get d ''status'' (PStr ''active'') \<in> {PStr ''active'', PStr ''ACTIVE''}"
      "auth = tenant_context_of d"
  using assms
  by (auto simp: authenticate_def Let_def split: option.splits if_splits pyval.splits)

lemma validate_key_tenant:
  assumes "validate_key sha r key hint = PDict d"
  obtains tid where "verify_api_key_hash sha r key = Some tid" "hint = None \<or> hint = Some tid" "get_tenant r tid = PDict d"
  using assms by (auto simp: validate_key_def split: option.splits if_splits)

text \<open>
  C34. Authentication is sound: a request that is let in presented the key of the super
  administrator, which is set, or, in multi-tenant mode, a key that the registry maps to a tenant,
  the one of the tenant header if there is one, whose record is active; and it acts for the tenant
  of that record, never as administrator.
\<close>

theorem authenticate_sound:
  assumes "authenticate sha cfg credentials hint redis = Inr auth"
  shows "\<exists>key. credentials = Some key \<and>
    (if truthy (dict_get auth ''is_super_admin'' PNone) then key = super_admin_key cfg \<and> key \<noteq> []
     else \<exists>r tid d. multi_tenant_enabled cfg \<and> redis = Some r \<and> verify_api_key_hash sha r key = Some tid
       \<and> (hint = None \<or> hint = Some tid) \<and> get_tenant r tid = PDict d
       \<and> dict_get d ''status'' (PStr ''active'') \<in> {PStr ''active'', PStr ''ACTIVE''}
       \<and> dict_get auth ''tenant_id'' PNone = dict_get d ''tenant_id'' (PStr []))"
  using assms
proof (cases rule: authenticate_cases)
  case (admin key)
  then show ?thesis by simp
next
  case (tenant key r d)
  from tenant(4) obtain tid where t: "verify_api_key_hash sha r key = Some tid" "hint = None \<or> hint = Some tid" "get_tenant r tid = PDict d"
    by (rule validate_key_tenant)
  have "\<not> truthy (dict_get auth ''is_super_admin'' PNone)" "dict_get auth ''tenant_id'' PNone = dict_get d ''tenant_id'' (PStr [])"
    by (simp_all add: tenant(6))
  then show ?thesis using tenant(1-3,5) t by auto
qed

definition demo_tenants :: redis where
  "demo_tenants = snd (generate_api_key (\<lambda>s. s) ''x''
     (reg_set tenant_reg empty_redis ''acme'' ''acme'' (PDict [(''tenant_id'', PStr ''acme'')])) ''acme'')"

lemma demo_login:
  "authenticate (\<lambda>s. s) \<lparr>super_admin_key = ''root'', multi_tenant_enabled = True\<rparr> (Some ''ramu_x'') None (Some demo_tenants)
     = Inr (tenant_context_of [(''tenant_id'', PStr ''acme'')])"
proof -
  have "validate_key (\<lambda>s. s) demo_tenants ''ramu_x'' None = PDict [(''tenant_id'', PStr ''acme'')]"
    by code_simp
  then show ?thesis by (simp add: authenticate_def dict_get_def)
qed

theorem authenticate_sound_witness:
  "\<exists>r tid. Some demo_tenants = Some r \<and> verify_api_key_hash (\<lambda>s. s) r ''ramu_x'' = Some tid"
  using authenticate_sound [OF demo_login] by auto

text \<open>
  In multi-tenant mode the context of a tenant has no entry for the key, which the tenant context
  of the routes reads: every request of a tenant to such a route ends in a \<^verbatim>\<open>KeyError\<close>.
\<close>

lemma tenant_context_missing_key:
  assumes "authenticate sha cfg credentials hint redis = Inr auth" and "\<not> truthy (dict_get auth ''is_super_admin'' PNone)"
  shows "get_tenant_context auth = Inl (MissingKey ''api_key'')"
  using assms
  by (cases rule: authenticate_cases) (simp_all add: get_tenant_context_def tenant_context_of_def)

text \<open>No authenticated context carries a role.\<close>

lemma authenticated_role:
  assumes "authenticate sha cfg credentials hint redis = Inr auth"
  shows "dict_get auth ''role'' x = x"
  using assms by (cases rule: authenticate_cases) simp_all

end
