(* ===== verification/Operator_Audit.thy ===== *)
theory Operator_Audit
  imports Api_Auth
begin

text \<open>
  Operator actions and their audit trail: \<^verbatim>\<open>OperatorActionService\<close>, \<^verbatim>\<open>TaskTimelineService\<close>,
  \<^verbatim>\<open>RunTrackingService\<close>, \<^verbatim>\<open>GovernanceService\<close>, \<^verbatim>\<open>ForceOperationService\<close>, \<^verbatim>\<open>ReplayPolicyService\<close> and
  \<^verbatim>\<open>ReplayLineageService\<close> under \<^verbatim>\<open>src/services/\<close>, the queries over their tables, and the two routes
  that use them (\<^verbatim>\<open>ops_force_routes.py\<close>, \<^verbatim>\<open>ops_replay_routes.py\<close>).

  The tables are lists of rows in the order of insertion; the time of a row is the clock reading
  of the request, which the database shares with the service. Metrics and log lines are left out.
\<close>

subsection \<open>Tables\<close>

record OperatorAction =
  oa_id :: nat
  oa_actor :: string
  oa_action_type :: string
  oa_target_type :: string
  oa_target_id :: string
  oa_reason :: "string option"
  oa_payload :: dict
  oa_created_at :: time

record TaskEventRow =
  te_task_id :: string
  te_run_key :: "string option"
  te_event_type :: string
  te_payload :: dict
  te_created_at :: time

record TaskRun =
  run_task_id :: string
  run_key :: string
  run_status :: string
  run_attempt :: int
  run_created_at :: time

record audit_db =
  actions :: "OperatorAction list"
  events :: "TaskEventRow list"
  runs :: "TaskRun list"

definition empty_audit :: audit_db where
  "empty_audit = \<lparr>actions = [], events = [], runs = []\<rparr>"

definition emit :: "time \<Rightarrow> string \<Rightarrow> string option \<Rightarrow> string \<Rightarrow> dict \<Rightarrow> audit_db \<Rightarrow> audit_db" where
  "emit now task_id rk event_type payload db =
     db\<lparr>events := events db @ [\<lparr>te_task_id = task_id, te_run_key = rk, te_event_type = event_type, te_payload = payload, te_created_at = now\<rparr>]\<rparr>"

definition opt_text :: "string option \<Rightarrow> string" where
  "opt_text s = (case s of None \<Rightarrow> [] | Some x \<Rightarrow> x)"

definition record_action :: "time \<Rightarrow> string \<Rightarrow> string \<Rightarrow> string \<Rightarrow> string \<Rightarrow> string option \<Rightarrow> dict \<Rightarrow> string option \<Rightarrow> audit_db \<Rightarrow> audit_db" where
  "record_action now actor action_type target_type target_id reason payload task_id db =
     (let db1 = db\<lparr>actions := actions db @ [\<lparr>oa_id = Suc (length (actions db)), oa_actor = actor, oa_action_type = action_type,
            oa_target_type = target_type, oa_target_id = target_id, oa_reason = reason, oa_payload = payload, oa_created_at = now\<rparr>]\<rparr>
      in case task_id of
           Some t \<Rightarrow> if t = [] then db1
             else emit now t None (''operator_'' @ action_type)
                    (dict_merge [(''actor'', PStr actor), (''reason'', PStr (opt_text reason))] payload) db1
         | None \<Rightarrow> db1)"

definition create_task_run :: "time \<Rightarrow> string \<Rightarrow> string \<Rightarrow> string \<Rightarrow> audit_db \<Rightarrow> string \<times> audit_db" where
  "create_task_run now uuid_hex task_id status db =
     (let rk = ''taskrun-'' @ take 8 task_id @ ''-'' @ take 8 uuid_hex
      in (rk, db\<lparr>runs := runs db @ [\<lparr>run_task_id = task_id, run_key = rk, run_status = status, run_attempt = 0, run_created_at = now\<rparr>]\<rparr>))"

subsection \<open>Queries\<close>

text \<open>\<^verbatim>\<open>order_by(created_at.desc()).limit(n)\<close> and \<^verbatim>\<open>order_by(created_at.asc()).limit(n)\<close>.\<close>

definition newest :: "('r \<Rightarrow> time) \<Rightarrow> nat \<Rightarrow> 'r list \<Rightarrow> 'r list" where
  "newest created n rows = take n (rev (sort_key created rows))"

definition oldest :: "('r \<Rightarrow> time) \<Rightarrow> nat \<Rightarrow> 'r list \<Rightarrow> 'r list" where
  "oldest created n rows = take n (sort_key created rows)"

definition opt_match :: "string option \<Rightarrow> string \<Rightarrow> bool" where
  "opt_match f v \<longleftrightarrow> f = None \<or> f = Some [] \<or> f = Some v"

definition list_actions :: "string option \<Rightarrow> string option \<Rightarrow> string option \<Rightarrow> nat \<Rightarrow> audit_db \<Rightarrow> OperatorAction list" where
  "list_actions target_type target_id action_type n db =
     newest oa_created_at n (filter (\<lambda>a. opt_match target_type (oa_target_type a) \<and> opt_match target_id (oa_target_id a)
       \<and> opt_match action_type (oa_action_type a)) (actions db))"

definition get_task_timeline :: "string \<Rightarrow> nat \<Rightarrow> audit_db \<Rightarrow> TaskEventRow list" where
  "get_task_timeline task_id n db = oldest te_created_at n (filter (\<lambda>e. te_task_id e = task_id) (events db))"

definition list_task_runs :: "string \<Rightarrow> nat \<Rightarrow> audit_db \<Rightarrow> TaskRun list" where
  "list_task_runs task_id n db = newest run_created_at n (filter (\<lambda>r. run_task_id r = task_id) (runs db))"

definition list_task_run_events :: "string \<Rightarrow> string option \<Rightarrow> nat \<Rightarrow> audit_db \<Rightarrow> TaskEventRow list" where
  "list_task_run_events task_id rk n db =
     newest te_created_at n (filter (\<lambda>e. te_task_id e = task_id \<and> (rk = None \<or> rk = Some [] \<or> te_run_key e = rk)) (events db))"

definition get_replay_chain :: "string \<Rightarrow> nat \<Rightarrow> audit_db \<Rightarrow> TaskRun list" where
  "get_replay_chain task_id n db = oldest run_created_at n (filter (\<lambda>r. run_task_id r = task_id) (runs db))"

definition stale_task_queue :: "string \<Rightarrow> nat \<Rightarrow> audit_db \<Rightarrow> TaskRun list" where
  "stale_task_queue status n db = oldest run_created_at n (filter (\<lambda>r. run_status r = status) (runs db))"

definition replay_queue :: "nat \<Rightarrow> audit_db \<Rightarrow> TaskRun list" where
  "replay_queue n db = stale_task_queue ''replay_requested'' n db"

subsection \<open>Governance and force operations\<close>

definition high_risk_ops :: "string list" where
  "high_risk_ops = [''force_replay_on_active_lease'', ''force_replay_on_running_task'', ''force_replay_without_reason'',
     ''force_acknowledge_dead_letter_without_review'', ''force_lease_eviction'']"

definition is_high_risk_operation :: "string \<Rightarrow> bool" where
  "is_high_risk_operation op \<longleftrightarrow> op \<in> set high_risk_ops"

definition allowed_role_categories :: "string \<Rightarrow> string list" where
  "allowed_role_categories op = (if is_high_risk_operation op then [''admin''] else [''operator'', ''admin''])"

datatype force_result = InsufficientRole "string list" | ReasonRequired | ForceDone "pyval option"

text \<open>The state is the audit tables and the world that the side effect changes; without a session
  factory nothing is recorded. An exception of the side effect is \<open>Inl\<close>.\<close>

definition execute_force_operation ::
  "bool \<Rightarrow> time \<Rightarrow> string \<Rightarrow> string \<Rightarrow> string \<Rightarrow> string option \<Rightarrow> string \<Rightarrow> string \<Rightarrow> dict \<Rightarrow> string option \<Rightarrow>
   ('w \<Rightarrow> (string + pyval) \<times> 'w) option \<Rightarrow> audit_db \<times> 'w \<Rightarrow> (string + force_result) \<times> audit_db \<times> 'w" where
  "execute_force_operation has_db now operation actor actor_role reason target_type target_id payload task_id executor st =
     (case st of (db, w) \<Rightarrow>
      if actor_role \<notin> set (allowed_role_categories operation)
      then (Inr (InsufficientRole (allowed_role_categories operation)), db, w)
      else if is_high_risk_operation operation \<and> opt_text reason = []
      then (Inr ReasonRequired, db, w)
      else let db1 = (if has_db
             then record_action now actor (''force_'' @ operation) target_type target_id reason
                    (dict_merge [(''operation'', PStr operation), (''actor_role'', PStr actor_role)] payload) task_id db
             else db)
           in case executor of
                None \<Rightarrow> (Inr (ForceDone None), db1, w)
              | Some f \<Rightarrow> (case f w of (Inl e, w1) \<Rightarrow> (Inl e, db1, w1) | (Inr v, w1) \<Rightarrow> (Inr (ForceDone (Some v)), db1, w1)))"

definition task_lock_key :: "string \<Rightarrow> string" where
  "task_lock_key task_id = ''task_lock:'' @ task_id"

definition evict_lease :: "string \<Rightarrow> redis \<Rightarrow> (string + pyval) \<times> redis" where
  "evict_lease task_id r =
     (Inr (PDict [(''evicted'', PBool (exists r (task_lock_key task_id))), (''key'', PStr (task_lock_key task_id))]),
      delete_key r (task_lock_key task_id))"

definition auth_role :: "dict \<Rightarrow> string" where
  "auth_role auth = (case dict_get auth ''role'' (PStr ''operator'') of PStr s \<Rightarrow> s | _ \<Rightarrow> [])"

definition auth_actor :: "dict \<Rightarrow> string" where
  "auth_actor auth = (case resolve_tenant_id auth ''operator'' of PStr s \<Rightarrow> s | _ \<Rightarrow> [])"

definition force_lease_eviction :: "time \<Rightarrow> dict \<Rightarrow> string option \<Rightarrow> string \<Rightarrow> audit_db \<times> redis \<Rightarrow> (string + force_result) \<times> audit_db \<times> redis" where
  "force_lease_eviction now auth reason task_id st =
     execute_force_operation True now ''force_lease_eviction'' (auth_actor auth) (auth_role auth) reason ''task'' task_id [] (Some task_id)
       (Some (evict_lease task_id)) st"

subsection \<open>Replay\<close>

definition max_replays :: nat where
  "max_replays = 3"

definition replay_window :: time where
  "replay_window = 300"

definition count_recent_replays :: "time \<Rightarrow> string \<Rightarrow> audit_db \<Rightarrow> nat" where
  "count_recent_replays now task_id db = length (filter (\<lambda>a. oa_target_id a = task_id \<and> oa_action_type a = ''task_replay_requested''
     \<and> oa_created_at a \<ge> now - replay_window) (actions db))"

datatype replay_reason = ReplayReasonRequired | ActiveLease | AdminOverride | ReplayRate nat

text \<open>The tests in the order of the code, each with what it does to the decision; no Redis client
  is \<open>None\<close>.\<close>

definition check_task_replay_allowed :: "time \<Rightarrow> redis option \<Rightarrow> audit_db \<Rightarrow> string \<Rightarrow> string option \<Rightarrow> string \<Rightarrow> bool \<times> replay_reason list" where
  "check_task_replay_allowed now redis db task_id reason actor_role =
     (let s0 = (if opt_text reason = [] then (False, [ReplayReasonRequired]) else (True, []));
          s1 = (case redis of
                  None \<Rightarrow> s0
                | Some r \<Rightarrow> if exists r (task_lock_key task_id)
                    then (if actor_role = ''admin'' then (True, snd s0 @ [ActiveLease, AdminOverride]) else (False, snd s0 @ [ActiveLease]))
                    else s0);
          recent = count_recent_replays now task_id db
      in if recent \<ge> max_replays then (False, snd s1 @ [ReplayRate recent]) else s1)"

definition replay_task :: "time \<Rightarrow> string \<Rightarrow> string \<Rightarrow> string \<Rightarrow> string option \<Rightarrow> string option \<Rightarrow> audit_db \<Rightarrow> string \<times> audit_db" where
  "replay_task now uuid_hex task_id actor reason from_run_key db =
     (let (rk, db1) = create_task_run now uuid_hex task_id ''replay_requested'' db;
          keys = [(''from_run_key'', PStr (opt_text from_run_key)), (''new_run_key'', PStr rk)];
          db2 = record_action now actor ''task_replay_requested'' ''task'' task_id reason keys (Some task_id) db1
      in (rk, emit now task_id (Some rk) ''task_replay_requested''
                ([(''actor'', PStr actor), (''reason'', PStr (opt_text reason))] @ keys) db2))"

text \<open>The route: \<open>Inl\<close> lists the reasons of a refusal, \<open>Inr\<close> is the new run.\<close>

definition task_replay :: "time \<Rightarrow> string \<Rightarrow> redis option \<Rightarrow> dict \<Rightarrow> string option \<Rightarrow> string option \<Rightarrow> string \<Rightarrow> audit_db \<Rightarrow>
    (replay_reason list + string) \<times> audit_db" where
  "task_replay now uuid_hex redis auth reason from_run_key task_id db =
     (let (ok, reasons) = check_task_replay_allowed now redis db task_id reason (auth_role auth)
      in if \<not> ok then (Inl reasons, db)
         else let (rk, db1) = replay_task now uuid_hex task_id (auth_actor auth) reason from_run_key db in (Inr rk, db1))"

subsection \<open>Force operations are audited\<close>

lemma record_action_actions:
  "actions (record_action now actor ty tty tid reason payload task db) =
     actions db @ [\<lparr>oa_id = Suc (length (actions db)), oa_actor = actor, oa_action_type = ty,
       oa_target_type = tty, oa_target_id = tid, oa_reason = reason, oa_payload = payload, oa_created_at = now\<rparr>]"
  by (simp add: record_action_def emit_def Let_def split: option.splits)

text \<open>
  Force operations: a refused operation changes nothing and runs no side effect; one that goes
  ahead, also one whose side effect then fails, was asked for by a role that the operation allows,
  for a high-risk operation by an administrator who gave a reason, and has left exactly one row in
  the audit table with the actor, the operation, the target and the reason.
\<close>

theorem force_operation_audited:
  assumes "execute_force_operation True now op actor role reason tty tid payload task executor (db, w) = (res, db', w')"
  shows "(case res of
      Inr (InsufficientRole rs) \<Rightarrow> db' = db \<and> w' = w \<and> role \<notin> set rs
    | Inr ReasonRequired \<Rightarrow> db' = db \<and> w' = w \<and> opt_text reason = []
    | _ \<Rightarrow> role \<in> {''operator'', ''admin''} \<and> (is_high_risk_operation op \<longrightarrow> role = ''admin'' \<and> opt_text reason \<noteq> [])
        \<and> (\<exists>a. actions db' = actions db @ [a] \<and> oa_actor a = actor \<and> oa_action_type a = ''force_'' @ op
            \<and> oa_target_id a = tid \<and> oa_reason a = reason \<and> oa_created_at a = now))"
  using assms
  by (auto simp: execute_force_operation_def allowed_role_categories_def record_action_actions Let_def
      split: if_splits option.splits prod.splits sum.splits)

theorem force_operation_audited_witness:
  "\<exists>db' w'. execute_force_operation True 5 ''force_lease_eviction'' ''root'' ''admin'' (Some ''stuck'') ''task'' ''t1'' [] (Some ''t1'')
      (Some (evict_lease ''t1'')) (empty_audit, empty_redis) = (Inr (ForceDone (Some (PDict [(''evicted'', PBool False), (''key'', PStr ''task_lock:t1'')]))), db', w')
    \<and> (\<exists>a. actions db' = [a] \<and> oa_actor a = ''root'' \<and> oa_reason a = Some ''stuck'')"
proof -
  obtain db' w' where c: "execute_force_operation True 5 ''force_lease_eviction'' ''root'' ''admin'' (Some ''stuck'') ''task'' ''t1'' [] (Some ''t1'')
      (Some (evict_lease ''t1'')) (empty_audit, empty_redis) = (Inr (ForceDone (Some (PDict [(''evicted'', PBool False), (''key'', PStr ''task_lock:t1'')]))), db', w')"
    by (simp add: execute_force_operation_def allowed_role_categories_def is_high_risk_operation_def high_risk_ops_def opt_text_def
        evict_lease_def task_lock_key_def exists_def empty_redis_def)
  from force_operation_audited [OF c] c show ?thesis by (auto simp: empty_audit_def)
qed

text \<open>
  The eviction of a lease cannot be reached: no context that authentication produces carries a
  role, the route then takes the role of an operator, and the operation is reserved to
  administrators. Every authenticated request, also one of the super administrator, is refused and
  the lock stays.
\<close>

theorem lease_eviction_unreachable:
  assumes "authenticate sha cfg credentials hint redis = Inr auth"
  shows "force_lease_eviction now auth reason task_id st = (Inr (InsufficientRole [''admin'']), st)"
proof -
  have "auth_role auth = ''operator''" by (simp add: auth_role_def authenticated_role [OF assms])
  then show ?thesis
    by (simp add: force_lease_eviction_def execute_force_operation_def allowed_role_categories_def is_high_risk_operation_def
        high_risk_ops_def case_prod_unfold)
qed

theorem lease_eviction_unreachable_witness:
  "force_lease_eviction 5 (super_admin_context ''root'') (Some ''stuck'') ''t1'' (empty_audit, empty_redis)
     = (Inr (InsufficientRole [''admin'']), (empty_audit, empty_redis))"
  by (rule lease_eviction_unreachable [where sha = "\<lambda>s. s" and credentials = "Some ''root''" and hint = None and redis = None
        and cfg = "\<lparr>super_admin_key = ''root'', multi_tenant_enabled = False\<rparr>"])
    (simp add: authenticate_def)

subsection \<open>Replays are limited\<close>

definition is_replay_of :: "string \<Rightarrow> OperatorAction \<Rightarrow> bool" where
  "is_replay_of task a \<longleftrightarrow> oa_target_id a = task \<and> oa_action_type a = ''task_replay_requested''"

lemma task_replay_actions:
  assumes "task_replay now u redis auth reason frm task db = (res, db')"
  shows "map oa_created_at (filter (is_replay_of t) (actions db')) =
      map oa_created_at (filter (is_replay_of t) (actions db)) @ (case res of Inl _ \<Rightarrow> [] | Inr _ \<Rightarrow> if t = task then [now] else [])"
    and "isl res \<or> count_recent_replays now task db < max_replays"
  using assms
  by (auto simp: task_replay_def replay_task_def create_task_run_def emit_def record_action_actions is_replay_of_def
      check_task_replay_allowed_def Let_def split: if_splits prod.splits)

text \<open>The requests to replay tasks, in the order of time, with the replays that were granted, among
  other operator actions.\<close>

inductive replay_history :: "(string \<times> time) list \<Rightarrow> audit_db \<Rightarrow> time \<Rightarrow> bool" where
  empty: "replay_history [] empty_audit t"
| asked: "replay_history G db t \<Longrightarrow> t \<le> now \<Longrightarrow> task_replay now u redis auth reason frm task db = (res, db') \<Longrightarrow>
    replay_history (case res of Inl _ \<Rightarrow> G | Inr _ \<Rightarrow> G @ [(task, now)]) db' now"
| other: "replay_history G db t \<Longrightarrow> t \<le> now \<Longrightarrow> ty \<noteq> ''task_replay_requested'' \<Longrightarrow>
    replay_history G (record_action now actor ty tty tid reason payload task db) now"

definition granted :: "(string \<times> time) list \<Rightarrow> string \<Rightarrow> time list" where
  "granted G task = map snd (filter (\<lambda>g. fst g = task) G)"

lemma replay_history_inv:
  assumes "replay_history G db t"
  shows "(\<forall>task. map oa_created_at (filter (is_replay_of task) (actions db)) = granted G task)
    \<and> (\<forall>task. \<forall>x \<in> set (granted G task). x \<le> t)
    \<and> (\<forall>task a. length (filter (\<lambda>x. a \<le> x \<and> x \<le> a + replay_window) (granted G task)) \<le> max_replays)"
  using assms
proof (induction rule: replay_history.induct)
  case (empty t)
  then show ?case by (simp add: granted_def empty_audit_def)
next
  case (asked G db t now u redis auth reason frm task res db')
  note act = task_replay_actions [OF asked.hyps(3)]
  let ?G' = "case res of Inl _ \<Rightarrow> G | Inr _ \<Rightarrow> G @ [(task, now)]"
  have g: "granted ?G' k = granted G k @ (case res of Inl _ \<Rightarrow> [] | Inr _ \<Rightarrow> if k = task then [now] else [])" for k
    by (simp add: granted_def split: sum.splits)
  have acts: "map oa_created_at (filter (is_replay_of k) (actions db')) = granted ?G' k" for k
    using act(1) asked.IH by (simp add: g)
  moreover have "x \<le> now" if "x \<in> set (granted ?G' k)" for x k
    using that asked.IH asked.hyps(2) by (auto simp: g split: sum.splits if_splits intro: order_trans)
  moreover have "length (filter (\<lambda>x. a \<le> x \<and> x \<le> a + replay_window) (granted ?G' k)) \<le> max_replays" for k a
  proof (cases "\<not> isl res \<and> k = task \<and> a \<le> now \<and> now \<le> a + replay_window")
    case True
    have "count_recent_replays now task db = length (filter (\<lambda>x. x \<ge> now - replay_window) (granted G task))"
    proof -
      have "granted G task = map oa_created_at (filter (is_replay_of task) (actions db))" using asked.IH by simp
      then show ?thesis by (simp add: count_recent_replays_def is_replay_of_def filter_map comp_def conj_ac)
    qed
    moreover have "length (filter (\<lambda>x. a \<le> x \<and> x \<le> a + replay_window) (granted G task))
        \<le> length (filter (\<lambda>x. x \<ge> now - replay_window) (granted G task))"
      using True by (intro length_filter_mono) auto
    ultimately show ?thesis using act(2) True by (auto simp: g split: sum.splits)
  next
    case False
    then show ?thesis using asked.IH by (auto simp: g split: sum.splits)
  qed
  ultimately show ?case by blast
next
  case (other G db t now ty actor tty tid reason payload task)
  then show ?case by (force simp: record_action_actions is_replay_of_def)
qed


lemma demo_replay: "\<exists>db. replay_history [(''t1'', 10)] db 10"
proof -
  obtain res db' where r: "task_replay 10 ''abcdefgh'' None [] (Some ''lost'') None ''t1'' empty_audit = (res, db')"
    by (cases "task_replay 10 ''abcdefgh'' None [] (Some ''lost'') None ''t1'' empty_audit")
  have "replay_history (case res of Inl _ \<Rightarrow> [] | Inr _ \<Rightarrow> [] @ [(''t1'', 10)]) db' 10"
    by (rule replay_history.asked [OF replay_history.empty [of 0] _ r]) simp
  moreover have "\<not> isl res"
    using r by (auto simp: task_replay_def check_task_replay_allowed_def opt_text_def count_recent_replays_def empty_audit_def
        max_replays_def Let_def split: prod.splits)
  ultimately show ?thesis by (cases res) auto
qed


text \<open>
  The override for administrators sets the decision to allowed whatever an earlier test decided:
  with an active lease, an administrator may replay without a reason; without the lease, not.
\<close>

lemma admin_override_drops_reason:
  assumes "exists r (task_lock_key task)" and "count_recent_replays now task db < max_replays"
  shows "fst (check_task_replay_allowed now (Some r) db task None ''admin'')"
    and "\<not> exists r' (task_lock_key task) \<Longrightarrow> \<not> fst (check_task_replay_allowed now (Some r') db task None ''admin'')"
  using assms by (simp_all add: check_task_replay_allowed_def opt_text_def Let_def)

subsection \<open>Replays are traceable\<close>

lemma sort_key_snoc_max:
  fixes f :: "'a \<Rightarrow> 'b :: linorder"
  assumes "\<forall>x \<in> set xs. f x \<le> f y"
  shows "sort_key f (xs @ [y]) = sort_key f xs @ [y]"
  using assms
proof (induction xs)
  case (Cons x xs)
  have "insort_key f x (zs @ [y]) = insort_key f x zs @ [y]" for zs
    using Cons.prems by (induction zs) auto
  with Cons show ?case by simp
qed simp

lemma newest_last:
  assumes "\<forall>x \<in> set xs. created x \<le> created y" and "n > 0"
  shows "hd (newest created n (xs @ [y])) = y"
proof -
  have "sort_key created (xs @ [y]) = sort_key created xs @ [y]"
    by (rule sort_key_snoc_max [OF assms(1)])
  then show ?thesis using assms(2) by (cases n) (simp_all add: newest_def)
qed

text \<open>
  A granted replay is visible to the operator: it is the newest replay action of its task, it has a
  run waiting in the replay queue, and the timeline of the task has an event for that run.
\<close>

lemma replay_traceable:
  assumes g: "task_replay now u redis auth reason frm task db = (Inr rk, db')"
    and t: "\<forall>a \<in> set (actions db). oa_created_at a \<le> now" and n: "n > 0" and task: "task \<noteq> []"
  shows "oa_reason (hd (list_actions None (Some task) (Some ''task_replay_requested'') n db')) = reason"
    and "\<exists>r \<in> set (runs db'). run_key r = rk \<and> run_task_id r = task \<and> run_status r = ''replay_requested''"
    and "\<exists>e \<in> set (events db'). te_run_key e = Some rk \<and> te_task_id e = task"
proof -
  let ?P = "\<lambda>a. opt_match None (oa_target_type a) \<and> opt_match (Some task) (oa_target_id a) \<and> opt_match (Some ''task_replay_requested'') (oa_action_type a)"
  have "\<exists>a. actions db' = actions db @ [a] \<and> oa_reason a = reason \<and> oa_created_at a = now \<and> ?P a"
    using g by (auto simp: task_replay_def replay_task_def create_task_run_def emit_def record_action_actions opt_match_def Let_def
        split: if_splits prod.splits)
  then obtain a where a: "actions db' = actions db @ [a]" "oa_reason a = reason" "oa_created_at a = now" "?P a" by blast
  have "hd (newest oa_created_at n (filter ?P (actions db) @ [a])) = a"
    by (rule newest_last) (use t a(3) n in auto)
  then show "oa_reason (hd (list_actions None (Some task) (Some ''task_replay_requested'') n db')) = reason"
    using a by (simp add: list_actions_def)
  have nt: "runs (record_action m ac ty tt ti re pa tk d) = runs d" for m ac ty tt ti re pa tk d
    by (simp add: record_action_def emit_def Let_def split: option.splits)
  show "\<exists>r \<in> set (runs db'). run_key r = rk \<and> run_task_id r = task \<and> run_status r = ''replay_requested''"
    using g by (auto simp: task_replay_def replay_task_def create_task_run_def emit_def nt Let_def split: if_splits prod.splits)
  show "\<exists>e \<in> set (events db'). te_run_key e = Some rk \<and> te_task_id e = task"
    using g by (auto simp: task_replay_def replay_task_def create_task_run_def emit_def Let_def split: if_splits prod.splits)
qed

end
