(* ===== verification/Callback_Outbox.thy ===== *)
theory Callback_Outbox
  imports Operator_Audit
begin

text \<open>
  Delivery of callbacks from the outbox table: the row (\<^verbatim>\<open>src/models/callback_outbox.py\<close>), the
  dispatcher (\<^verbatim>\<open>src/services/callback_dispatcher.py\<close>), the operations on dead letters
  (\<^verbatim>\<open>callback_ops.py\<close>), the replay policy (\<^verbatim>\<open>callback_replay_policy.py\<close>) and the route that
  combines them. The table is the list of its rows in the order in which the database returns
  them; \<open>post\<close> is the HTTP request together with the test of its status.
\<close>

subsection \<open>The table\<close>

datatype CallbackDeliveryStatus = OB_PENDING | OB_DELIVERED | OB_FAILED | OB_DEAD_LETTER

fun delivery_value :: "CallbackDeliveryStatus \<Rightarrow> string" where
  "delivery_value OB_PENDING = ''pending''"
| "delivery_value OB_DELIVERED = ''delivered''"
| "delivery_value OB_FAILED = ''failed''"
| "delivery_value OB_DEAD_LETTER = ''dead_letter''"

record CallbackOutboxRecord =
  ob_id :: int
  ob_task_id :: string
  ob_callback_url :: string
  ob_payload_json :: string
  delivery_status :: CallbackDeliveryStatus
  attempt_count :: int
  next_attempt_at :: "time option"
  last_error :: "string option"
  acknowledged_by :: "string option"
  acknowledged_at :: "time option"

subsection \<open>The dispatcher\<close>

definition BACKOFF_SECONDS :: "int list" where
  "BACKOFF_SECONDS = [10, 30, 60, 300, 900, 1800, 3600]"

definition next_attempt_delay :: "int \<Rightarrow> int" where
  "next_attempt_delay n =
     (let idx = min (n - 1) (int (length BACKOFF_SECONDS) - 1) in BACKOFF_SECONDS ! nat (max 0 idx))"

definition ob_due :: "time \<Rightarrow> CallbackOutboxRecord \<Rightarrow> bool" where
  "ob_due now row \<longleftrightarrow> delivery_status row = OB_PENDING \<and> (case next_attempt_at row of None \<Rightarrow> True | Some t \<Rightarrow> t \<le> now)"

type_synonym 'w http_post = "CallbackOutboxRecord \<Rightarrow> 'w \<Rightarrow> (string + unit) \<times> 'w"

definition deliver_row :: "int \<Rightarrow> time \<Rightarrow> 'w http_post \<Rightarrow> CallbackOutboxRecord \<Rightarrow> 'w \<Rightarrow> CallbackOutboxRecord \<times> 'w" where
  "deliver_row max_attempts now post row w = (case post row w of
      (Inr _, w1) \<Rightarrow> (row\<lparr>delivery_status := OB_DELIVERED, attempt_count := attempt_count row + 1\<rparr>, w1)
    | (Inl e, w1) \<Rightarrow>
        (let row1 = row\<lparr>attempt_count := attempt_count row + 1, last_error := Some e\<rparr>
         in (if attempt_count row1 \<ge> max_attempts then row1\<lparr>delivery_status := OB_DEAD_LETTER\<rparr>
             else row1\<lparr>next_attempt_at := Some (now + of_int (next_attempt_delay (attempt_count row1)))\<rparr>, w1)))"

text \<open>At most \<open>budget\<close> due rows are handled, in the order of the table.\<close>

fun process_rows :: "int \<Rightarrow> time \<Rightarrow> 'w http_post \<Rightarrow> nat \<Rightarrow> CallbackOutboxRecord list \<Rightarrow> 'w \<Rightarrow> CallbackOutboxRecord list \<times> nat \<times> 'w" where
  "process_rows mx now post budget [] w = ([], 0, w)"
| "process_rows mx now post budget (row # rows) w =
     (if ob_due now row \<and> budget > 0
      then (let (row', w1) = deliver_row mx now post row w; (rows', n, w2) = process_rows mx now post (budget - 1) rows w1
            in (row' # rows', Suc n, w2))
      else (let (rows', n, w1) = process_rows mx now post budget rows w in (row # rows', n, w1)))"

definition process_once :: "int \<Rightarrow> bool \<Rightarrow> time \<Rightarrow> 'w http_post \<Rightarrow> CallbackOutboxRecord list \<Rightarrow> 'w \<Rightarrow> CallbackOutboxRecord list \<times> nat \<times> 'w" where
  "process_once mx ready now post rows w = (if \<not> ready then (rows, 0, w) else process_rows mx now post 50 rows w)"

subsection \<open>Dead letters\<close>

definition find_row :: "int \<Rightarrow> CallbackOutboxRecord list \<Rightarrow> CallbackOutboxRecord option" where
  "find_row i rows = List.find (\<lambda>r. ob_id r = i) rows"

definition update_row :: "int \<Rightarrow> (CallbackOutboxRecord \<Rightarrow> CallbackOutboxRecord) \<Rightarrow> CallbackOutboxRecord list \<Rightarrow> CallbackOutboxRecord list" where
  "update_row i f rows = map (\<lambda>r. if ob_id r = i then f r else r) rows"

definition list_dead_letters :: "nat \<Rightarrow> CallbackOutboxRecord list \<Rightarrow> CallbackOutboxRecord list" where
  "list_dead_letters n rows = take n (filter (\<lambda>r. delivery_status r = OB_DEAD_LETTER) rows)"

definition acknowledge_dead_letter :: "time \<Rightarrow> int \<Rightarrow> string \<Rightarrow> string option \<Rightarrow> CallbackOutboxRecord list \<times> audit_db \<Rightarrow> bool \<times> CallbackOutboxRecord list \<times> audit_db" where
  "acknowledge_dead_letter now i actor reason st = (case st of (rows, db) \<Rightarrow> case find_row i rows of
      None \<Rightarrow> (False, rows, db)
    | Some row \<Rightarrow> (True, update_row i (\<lambda>r. r\<lparr>acknowledged_by := Some actor, acknowledged_at := Some now\<rparr>) rows,
        record_action now actor ''dead_letter_acknowledged'' ''callback_outbox'' (int_str i) reason [(''outbox_id'', PInt i)] (Some (ob_task_id row)) db))"

definition replay_dead_letter :: "time \<Rightarrow> int \<Rightarrow> string \<Rightarrow> string option \<Rightarrow> CallbackOutboxRecord list \<times> audit_db \<Rightarrow> bool \<times> CallbackOutboxRecord list \<times> audit_db" where
  "replay_dead_letter now i actor reason st = (case st of (rows, db) \<Rightarrow> case find_row i rows of
      None \<Rightarrow> (False, rows, db)
    | Some row \<Rightarrow> (True, update_row i (\<lambda>r. r\<lparr>delivery_status := OB_PENDING, next_attempt_at := None, last_error := None,
          acknowledged_by := None, acknowledged_at := None\<rparr>) rows,
        record_action now actor ''callback_replay_requested'' ''callback_outbox'' (int_str i) reason [(''outbox_id'', PInt i)] (Some (ob_task_id row)) db))"

datatype callback_reason = CbNotFound | CbReasonRequired | CbAlreadyPending | CbAdminOverride | CbNeedsAdmin

definition check_callback_replay_allowed :: "CallbackOutboxRecord list \<Rightarrow> int \<Rightarrow> string option \<Rightarrow> string \<Rightarrow> bool \<times> callback_reason list" where
  "check_callback_replay_allowed rows i reason actor_role = (case find_row i rows of
      None \<Rightarrow> (False, [CbNotFound])
    | Some row \<Rightarrow>
        (let s0 = (if opt_text reason = [] then (False, [CbReasonRequired]) else (True, []));
             s1 = (if delivery_status row = OB_PENDING then (False, snd s0 @ [CbAlreadyPending]) else s0)
         in if delivery_status row = OB_DELIVERED
            then (if actor_role = ''admin'' then (fst s1, snd s1 @ [CbAdminOverride]) else (False, snd s1 @ [CbNeedsAdmin]))
            else s1))"

text \<open>The route \<^verbatim>\<open>POST /callbacks/dead-letters/{id}/replay\<close>.\<close>

definition replay_callback_route :: "time \<Rightarrow> dict \<Rightarrow> int \<Rightarrow> string option \<Rightarrow> CallbackOutboxRecord list \<times> audit_db \<Rightarrow>
    (callback_reason list + bool) \<times> CallbackOutboxRecord list \<times> audit_db" where
  "replay_callback_route now auth i reason st =
     (let (ok, reasons) = check_callback_replay_allowed (fst st) i reason (auth_role auth)
      in if \<not> ok then (Inl reasons, st)
         else let (done', st1) = replay_dead_letter now i (auth_actor auth) reason st in (Inr done', st1))"

definition callback_summary :: "CallbackOutboxRecord list \<Rightarrow> (string \<times> nat) list" where
  "callback_summary rows =
     map (\<lambda>s. (delivery_value s, length (filter (\<lambda>r. delivery_status r = s) rows))) [OB_PENDING, OB_DELIVERED, OB_FAILED, OB_DEAD_LETTER]
     @ [(''total'', length rows)]"

subsection \<open>Backoff\<close>

lemma delay_range: "10 \<le> next_attempt_delay n \<and> next_attempt_delay n \<le> 3600"
proof -
  have "nat (max 0 (min (n - 1) 6)) < 7" by simp
  moreover have "BACKOFF_SECONDS ! k \<in> {10, 30, 60, 300, 900, 1800, 3600}" if "k < 7" for k
    using nth_mem [of k BACKOFF_SECONDS] that by (simp add: BACKOFF_SECONDS_def)
  ultimately have "next_attempt_delay n \<in> {10, 30, 60, 300, 900, 1800, 3600}"
    by (simp add: next_attempt_delay_def BACKOFF_SECONDS_def Let_def)
  then show ?thesis by auto
qed

subsection \<open>Every callback is settled\<close>

definition settled :: "CallbackOutboxRecord \<Rightarrow> bool" where
  "settled row \<longleftrightarrow> delivery_status row \<noteq> OB_PENDING"

text \<open>Rounds of the dispatcher at the given times.\<close>

fun rounds :: "int \<Rightarrow> 'w http_post \<Rightarrow> time list \<Rightarrow> CallbackOutboxRecord list \<Rightarrow> 'w \<Rightarrow> CallbackOutboxRecord list \<times> 'w" where
  "rounds mx post [] rows w = (rows, w)"
| "rounds mx post (t # ts) rows w = (let (rows', n, w') = process_once mx True t post rows w in rounds mx post ts rows' w')"

lemma process_rows_each:
  "length rows \<le> budget \<Longrightarrow> process_rows mx now post budget rows w = (rows', n, w') \<Longrightarrow>
   list_all2 (\<lambda>row row'. if ob_due now row then \<exists>v v'. deliver_row mx now post row v = (row', v') else row' = row) rows rows'"
proof (induction rows arbitrary: budget w rows' n)
  case (Cons row rows)
  show ?case
  proof (cases "ob_due now row")
    case True
    obtain row1 w1 where d: "deliver_row mx now post row w = (row1, w1)" by (cases "deliver_row mx now post row w")
    obtain rs k w2 where p: "process_rows mx now post (budget - 1) rows w1 = (rs, k, w2)"
      by (cases "process_rows mx now post (budget - 1) rows w1")
    have "rows' = row1 # rs" using Cons.prems True d p by (auto split: if_splits)
    moreover have "length rows \<le> budget - 1" using Cons.prems(1) by simp
    moreover have "w2 = w'" using Cons.prems True d p by (auto split: if_splits)
    ultimately show ?thesis using Cons.IH [OF _ p [unfolded \<open>w2 = w'\<close>]] True d by auto
  next
    case False
    obtain rs k w2 where p: "process_rows mx now post budget rows w = (rs, k, w2)"
      by (cases "process_rows mx now post budget rows w")
    have "rows' = row # rs" "w2 = w'" using Cons.prems False p by auto
    then show ?thesis using Cons.IH [OF _ p [unfolded \<open>w2 = w'\<close>]] Cons.prems(1) False by simp
  qed
qed simp

text \<open>A row after \<open>k\<close> rounds, the last at \<open>t\<close>: settled, or waiting for its next attempt.\<close>

definition settling :: "int \<Rightarrow> nat \<Rightarrow> time \<Rightarrow> CallbackOutboxRecord \<Rightarrow> bool" where
  "settling mx k t row \<longleftrightarrow> settled row \<or>
     int k \<le> attempt_count row \<and> (k > 0 \<longrightarrow> attempt_count row < mx)
     \<and> (case next_attempt_at row of None \<Rightarrow> True | Some s \<Rightarrow> s \<le> t + 3600)"

lemma settling_step:
  assumes s: "settling mx k t row" and d: "ob_due now row" and r: "deliver_row mx now post row v = (row', v')"
  shows "settling mx (Suc k) now row'"
proof -
  obtain res w1 where p: "post row v = (res, w1)" by (cases "post row v")
  have cnt: "int k \<le> attempt_count row" using s d by (auto simp: settling_def settled_def ob_due_def)
  have "of_int (next_attempt_delay n) \<le> (3600 :: rat)" for n
    using delay_range [of n] by (metis of_int_le_iff of_int_numeral)
  then show ?thesis using r p cnt d
    by (cases res) (auto simp: deliver_row_def settling_def settled_def ob_due_def Let_def split: if_splits)
qed

lemma rounds_settle:
  assumes "\<forall>row \<in> set rows. settling mx k t row" and "length rows \<le> 50"
    and "sorted_wrt (\<lambda>a b. a + 3600 \<le> b) (t # ts)" and "rounds mx post ts rows w = (rows', w')"
  shows "\<forall>row \<in> set rows'. \<exists>t'. settling mx (k + length ts) t' row"
  using assms
proof (induction ts arbitrary: k t rows w)
  case (Cons now ts)
  obtain rs n w1 where p: "process_rows mx now post 50 rows w = (rs, n, w1)" by (cases "process_rows mx now post 50 rows w")
  have each: "list_all2 (\<lambda>row row'. if ob_due now row then \<exists>v v'. deliver_row mx now post row v = (row', v') else row' = row) rows rs"
    by (rule process_rows_each [OF Cons.prems(2) p])
  have "settling mx (Suc k) now row'" if row': "row' \<in> set rs" for row'
  proof -
    obtain j where j: "j < length rs" "rs ! j = row'" using row' by (auto simp: in_set_conv_nth)
    let ?row = "rows ! j"
    have row: "?row \<in> set rows" using j(1) list_all2_lengthD [OF each] by simp
    have rel: "if ob_due now ?row then \<exists>v v'. deliver_row mx now post ?row v = (row', v') else row' = ?row"
      using list_all2_nthD2 [OF each j(1)] unfolding j(2) .
    have s: "settling mx k t ?row" using Cons.prems(1) row by blast
    show ?thesis
    proof (cases "ob_due now ?row")
      case True
      then obtain v v' where "deliver_row mx now post ?row v = (row', v')" using rel by auto
      from settling_step [OF s True this] show ?thesis .
    next
      case False
      have "t + 3600 \<le> now" using Cons.prems(3) by simp
      then have "settled ?row" using False s by (auto simp: ob_due_def settling_def settled_def split: option.splits)
      then show ?thesis using False rel by (simp add: settling_def)
    qed
  qed
  moreover have "length rs \<le> 50" using Cons.prems(2) each by (simp add: list_all2_lengthD)
  moreover have "rounds mx post ts rs w1 = (rows', w')" using Cons.prems(4) p by (simp add: process_once_def)
  ultimately show ?case using Cons.IH [of rs "Suc k" now w1] Cons.prems(3) by simp
qed auto


definition pending_row :: "int \<Rightarrow> CallbackOutboxRecord" where
  "pending_row i = \<lparr>ob_id = i, ob_task_id = ''t'', ob_callback_url = ''http://c'', ob_payload_json = ''{}'', delivery_status = OB_PENDING,
     attempt_count = 0, next_attempt_at = None, last_error = None, acknowledged_by = None, acknowledged_at = None\<rparr>"


subsection \<open>Attempts are bounded\<close>

text \<open>
  A row never goes back from delivered by itself, an attempt count only grows, a dead letter has
  used all its attempts, and a row that waits has not.
\<close>

definition row_ok :: "int \<Rightarrow> CallbackOutboxRecord \<Rightarrow> bool" where
  "row_ok mx row \<longleftrightarrow> 0 \<le> attempt_count row \<and> attempt_count row \<le> mx
     \<and> (delivery_status row = OB_PENDING \<longrightarrow> attempt_count row < mx)
     \<and> (delivery_status row = OB_DEAD_LETTER \<longrightarrow> attempt_count row = mx)"

lemma deliver_row_ok:
  assumes ok: "row_ok mx row" and due: "ob_due now row" and d: "deliver_row mx now post row w = (row', w')"
  shows "row_ok mx row' \<and> attempt_count row' = attempt_count row + 1"
proof -
  obtain res w1 where p: "post row w = (res, w1)" by (cases "post row w")
  show ?thesis using assms p by (cases res) (auto simp: deliver_row_def row_ok_def ob_due_def Let_def split: if_splits)
qed

text \<open>What a round keeps of each row.\<close>

definition row_step :: "int \<Rightarrow> time \<Rightarrow> CallbackOutboxRecord \<Rightarrow> CallbackOutboxRecord \<Rightarrow> bool" where
  "row_step mx now row row' \<longleftrightarrow> row_ok mx row' \<and> (\<not> ob_due now row \<longrightarrow> row' = row) \<and> attempt_count row' \<le> attempt_count row + 1"

lemma row_step_refl: "row_ok mx row \<Longrightarrow> row_step mx now row row"
  by (simp add: row_step_def)

lemma row_step_deliver:
  "row_ok mx row \<Longrightarrow> ob_due now row \<Longrightarrow> deliver_row mx now post row w = (row', w') \<Longrightarrow> row_step mx now row row'"
  using deliver_row_ok [of mx row now post w row' w'] by (simp add: row_step_def)

lemma process_rows_step:
  assumes "process_rows mx now post b rows w = (rows', n, w')" and "\<forall>row \<in> set rows. row_ok mx row"
  shows "n \<le> b \<and> list_all2 (row_step mx now) rows rows'"
  using assms
proof (induction rows arbitrary: b w rows' n)
  case (Cons row rs)
  show ?case
  proof (cases "ob_due now row \<and> b > 0")
    case True
    obtain row1 w1 where d: "deliver_row mx now post row w = (row1, w1)" by (cases "deliver_row mx now post row w")
    obtain rs1 k w2 where p: "process_rows mx now post (b - 1) rs w1 = (rs1, k, w2)" by (cases "process_rows mx now post (b - 1) rs w1")
    have out: "rows' = row1 # rs1" "n = Suc k" "w2 = w'" using Cons.prems(1) True d p by auto
    have "row_step mx now row row1" using row_step_deliver [OF _ _ d] Cons.prems(2) True by simp
    moreover have "k \<le> b - 1 \<and> list_all2 (row_step mx now) rs rs1"
      using Cons.IH [OF p [unfolded out(3)]] Cons.prems(2) by simp
    ultimately show ?thesis using True by (auto simp: out)
  next
    case False
    obtain rs1 k w2 where p: "process_rows mx now post b rs w = (rs1, k, w2)" by (cases "process_rows mx now post b rs w")
    have out: "rows' = row # rs1" "n = k" "w2 = w'" using Cons.prems(1) False p by auto
    have "n \<le> b \<and> list_all2 (row_step mx now) rs rs1"
      using Cons.IH [OF p [unfolded out(3)]] Cons.prems(2) by (simp add: out)
    then show ?thesis using row_step_refl Cons.prems(2) by (simp add: out)
  qed
qed simp

text \<open>
  Bounded delivery: a round of the dispatcher handles at most fifty callbacks, each at most
  once and only when it is due, leaves all others untouched, and keeps every count of attempts
  within the maximum: a pending callback has attempts left, a dead letter has none.
\<close>

theorem dispatcher_bounded:
  assumes "process_once mx ready now post rows w = (rows', n, w')" and "\<forall>row \<in> set rows. row_ok mx row"
  shows "n \<le> 50 \<and> length rows' = length rows \<and> (\<forall>row \<in> set rows'. row_ok mx row)
    \<and> (\<forall>i < length rows. \<not> ob_due now (rows ! i) \<longrightarrow> rows' ! i = rows ! i)
    \<and> (\<forall>i < length rows. attempt_count (rows' ! i) \<le> attempt_count (rows ! i) + 1)"
proof -
  have "n \<le> 50 \<and> list_all2 (row_step mx now) rows rows'"
  proof (cases ready)
    case True
    then have "process_rows mx now post 50 rows w = (rows', n, w')" using assms(1) by (simp add: process_once_def)
    then show ?thesis by (rule process_rows_step [OF _ assms(2)])
  next
    case False
    then show ?thesis using assms by (auto simp: process_once_def list_all2_conv_all_nth row_step_refl)
  qed
  then have n: "n \<le> 50" and len: "length rows' = length rows"
    and each: "\<And>i. i < length rows \<Longrightarrow> row_step mx now (rows ! i) (rows' ! i)"
    by (auto simp: list_all2_conv_all_nth)
  show ?thesis
  proof (intro conjI allI impI)
    show "\<forall>row \<in> set rows'. row_ok mx row"
      using each by (auto simp: in_set_conv_nth len row_step_def)
  qed (use n len each in \<open>simp_all add: row_step_def\<close>)
qed

theorem dispatcher_bounded_witness:
  "snd (snd (process_once 8 True 0 (\<lambda>_ n. (Inl ''503'', Suc n)) [pending_row 1] (0 :: nat))) = 1
   \<and> (\<forall>row \<in> set (fst (process_once 8 True 0 (\<lambda>_ n. (Inl ''503'', Suc n)) [pending_row 1] (0 :: nat))). row_ok 8 row)"
proof -
  obtain rows' n w' where p: "process_once 8 True 0 (\<lambda>_ n. (Inl ''503'', Suc n)) [pending_row 1] (0 :: nat) = (rows', n, w')"
    by (cases "process_once 8 True 0 (\<lambda>_ n. (Inl ''503'', Suc n)) [pending_row 1] (0 :: nat)")
  have "\<forall>row \<in> set rows'. row_ok 8 row"
    using dispatcher_bounded [OF p] by (simp add: row_ok_def pending_row_def)
  moreover have "w' = 1" using p by (simp add: process_once_def deliver_row_def ob_due_def pending_row_def Let_def)
  ultimately show ?thesis by (simp add: p)
qed

subsection \<open>Replaying dead letters\<close>

text \<open>
  The replay route keeps the rules: when it changes the table or the audit trail, a reason was
  given, the callback exists and was not pending, and one that was delivered before was replayed by
  an administrator; the callback is then pending and due at once, and all others are as before.
\<close>

theorem callback_replay_governed:
  assumes "replay_callback_route now auth i reason (rows, db) = (res, rows', db')" and "rows' \<noteq> rows \<or> db' \<noteq> db"
  shows "\<exists>row. find_row i rows = Some row \<and> opt_text reason \<noteq> [] \<and> delivery_status row \<noteq> OB_PENDING
    \<and> (delivery_status row = OB_DELIVERED \<longrightarrow> auth_role auth = ''admin'')
    \<and> (\<forall>r \<in> set rows'. ob_id r = i \<longrightarrow> ob_due t r)
    \<and> (\<forall>k < length rows. ob_id (rows ! k) \<noteq> i \<longrightarrow> rows' ! k = rows ! k)"
proof -
  obtain ok reasons where c: "check_callback_replay_allowed rows i reason (auth_role auth) = (ok, reasons)"
    by (cases "check_callback_replay_allowed rows i reason (auth_role auth)")
  have ok: ok
  proof (rule ccontr)
    assume "\<not> ok"
    then have "(res, rows', db') = (Inl reasons, rows, db)" using assms(1) c by (simp add: replay_callback_route_def)
    then show False using assms(2) by simp
  qed
  obtain row where row: "find_row i rows = Some row"
    using c ok by (cases "find_row i rows") (simp_all add: check_callback_replay_allowed_def)
  have rules: "opt_text reason \<noteq> []" "delivery_status row \<noteq> OB_PENDING" "delivery_status row = OB_DELIVERED \<longrightarrow> auth_role auth = ''admin''"
    using c ok by (simp_all add: check_callback_replay_allowed_def row Let_def split: if_split_asm)
  have rows': "rows' = update_row i (\<lambda>r. r\<lparr>delivery_status := OB_PENDING, next_attempt_at := None, last_error := None,
      acknowledged_by := None, acknowledged_at := None\<rparr>) rows"
    using assms(1) c ok row by (simp add: replay_callback_route_def replay_dead_letter_def)
  have "\<forall>r \<in> set rows'. ob_id r = i \<longrightarrow> ob_due t r"
  proof
    fix r assume "r \<in> set rows'"
    then obtain r0 where "r = (if ob_id r0 = i then r0\<lparr>delivery_status := OB_PENDING, next_attempt_at := None, last_error := None,
        acknowledged_by := None, acknowledged_at := None\<rparr> else r0)"
      unfolding rows' update_row_def by (auto simp only: set_map)
    then show "ob_id r = i \<longrightarrow> ob_due t r" by (simp add: ob_due_def)
  qed
  moreover have "\<forall>k < length rows. ob_id (rows ! k) \<noteq> i \<longrightarrow> rows' ! k = rows ! k" by (simp add: rows' update_row_def)
  ultimately show ?thesis using row rules by blast
qed

theorem callback_replay_governed_witness:
  "\<exists>rows' db'. replay_callback_route 5 [] 1 (Some ''retry'') ([(pending_row 1)\<lparr>delivery_status := OB_DEAD_LETTER, attempt_count := 8\<rparr>], empty_audit)
      = (Inr True, rows', db') \<and> (\<forall>r \<in> set rows'. ob_id r = 1 \<longrightarrow> ob_due 5 r)"
proof -
  let ?rows = "[(pending_row 1)\<lparr>delivery_status := OB_DEAD_LETTER, attempt_count := 8\<rparr>]"
  have "\<exists>rows' db'. replay_callback_route 5 [] 1 (Some ''retry'') (?rows, empty_audit) = (Inr True, rows', db') \<and> rows' \<noteq> ?rows"
    by (simp add: replay_callback_route_def check_callback_replay_allowed_def find_row_def pending_row_def opt_text_def
        replay_dead_letter_def update_row_def Let_def)
  then obtain rows' db' where r: "replay_callback_route 5 [] 1 (Some ''retry'') (?rows, empty_audit) = (Inr True, rows', db')"
    and ne: "rows' \<noteq> ?rows \<or> db' \<noteq> empty_audit" by auto
  have "\<forall>r \<in> set rows'. ob_id r = 1 \<longrightarrow> ob_due 5 r"
    using callback_replay_governed [OF r ne, of 5] by (elim exE conjE)
  then show ?thesis using r by blast
qed

text \<open>
  The count of attempts survives the replay: a replayed dead letter gets a single attempt, whatever
  the maximum, and is a dead letter again when that fails.
\<close>

lemma replayed_letter_single_attempt:
  assumes "attempt_count row \<ge> mx" and "post row w = (Inl e, w')"
  shows "delivery_status (fst (deliver_row mx now post row w)) = OB_DEAD_LETTER"
  using assms by (simp add: deliver_row_def Let_def)

end
