(* ===== verification/Remote_Code.thy ===== *)
theory Remote_Code
  imports Scheduler_Prelude "HOL-Library.Multiset"
begin

text \<open>
  Fetching of remote code packages (\<^verbatim>\<open>src/platform/remote_code_fetcher.py\<close>): validation of the
  URL, download with a size limit and a checksum, extraction with its checks on the members of the
  archive, and the cache with its eviction. The parsing of URLs and of member paths is that of the
  standard library. The transfer, the hash, the decoding of an archive and the test for an IPv6
  address are parameters. The cache directory is the list of its entries; \<open>fault\<close> is an error of
  the disk while the n-th member is written.
\<close>

unbundle bit_operations_syntax

subsection \<open>URLs\<close>

definition partition :: "char \<Rightarrow> string \<Rightarrow> string \<times> string" where
  "partition c s = (takeWhile (\<lambda>x. x \<noteq> c) s, drop 1 (dropWhile (\<lambda>x. x \<noteq> c) s))"

definition is_alpha :: "char \<Rightarrow> bool" where
  "is_alpha c \<longleftrightarrow> (let n = of_char c :: nat in 65 \<le> n \<and> n \<le> 90 \<or> 97 \<le> n \<and> n \<le> 122)"

definition is_digit :: "char \<Rightarrow> bool" where
  "is_digit c \<longleftrightarrow> (let n = of_char c :: nat in 48 \<le> n \<and> n \<le> 57)"

definition scheme_char :: "char \<Rightarrow> bool" where
  "scheme_char c \<longleftrightarrow> is_alpha c \<or> is_digit c \<or> c \<in> set ''+-.''"

text \<open>Scheme and rest of a URL, as \<^verbatim>\<open>urlsplit\<close> finds them.\<close>

definition split_scheme :: "string \<Rightarrow> string \<times> string" where
  "split_scheme url0 =
     (let url = filter (\<lambda>c. c \<notin> {CHR 0x09, CHR 0x0A, CHR 0x0D}) (dropWhile (\<lambda>c. of_char c \<le> (32 :: nat)) url0);
          (scheme, rest) = partition CHR '':'' url
      in if CHR '':'' \<in> set url \<and> scheme \<noteq> [] \<and> is_alpha (hd scheme) \<and> list_all scheme_char scheme
         then (py_lower scheme, rest) else ([], url))"

definition netloc_of :: "string \<Rightarrow> string" where
  "netloc_of rest = (if take 2 rest = ''//'' then takeWhile (\<lambda>c. c \<notin> set ''/?#'') (drop 2 rest) else [])"

text \<open>The property \<^verbatim>\<open>hostname\<close>; the empty string stands for \<^verbatim>\<open>None\<close>.\<close>

definition hostname_of :: "string \<Rightarrow> string" where
  "hostname_of netloc =
     (let hostinfo = rev (takeWhile (\<lambda>c. c \<noteq> CHR ''@'') (rev netloc));
          host = (if CHR ''['' \<in> set hostinfo then fst (partition CHR '']'' (snd (partition CHR ''['' hostinfo)))
                  else fst (partition CHR '':'' hostinfo))
      in py_lower (fst (partition CHR ''%'' host)) @ dropWhile (\<lambda>c. c \<noteq> CHR ''%'') host)"

definition bad_brackets :: "(string \<Rightarrow> bool) \<Rightarrow> string \<Rightarrow> bool" where
  "bad_brackets valid_ip6 netloc \<longleftrightarrow>
     (CHR ''['' \<in> set netloc) \<noteq> (CHR '']'' \<in> set netloc)
     \<or> CHR ''['' \<in> set netloc \<and> \<not> valid_ip6 (fst (partition CHR '']'' (snd (partition CHR ''['' netloc))))"

definition blocked_hostnames :: "string list" where
  "blocked_hostnames = [''localhost'', ''127.0.0.1'', ''::1'', ''0.0.0.0'']"

text \<open>The pattern \<^verbatim>\<open>^(10\.|172\.(1[6-9]|2\d|3[01])\.|192\.168\.|169\.254\.)\<close>.\<close>

definition private_ip :: "string \<Rightarrow> bool" where
  "private_ip h \<longleftrightarrow> take 3 h = ''10.'' \<or> take 8 h = ''192.168.'' \<or> take 8 h = ''169.254.''
     \<or> (take 4 h = ''172.'' \<and> length h \<ge> 7 \<and> h ! 6 = CHR ''.''
         \<and> (h ! 4 = CHR ''1'' \<and> h ! 5 \<in> set ''6789'' \<or> h ! 4 = CHR ''2'' \<and> is_digit (h ! 5) \<or> h ! 4 = CHR ''3'' \<and> h ! 5 \<in> set ''01''))"

subsection \<open>Archives\<close>

datatype member_kind = RegularFile | Directory | SymLink | HardLink | OtherKind

record tar_member =
  tm_name :: string
  tm_mode :: int
  tm_kind :: member_kind
  tm_linkname :: string
  tm_data :: string

fun split_slash :: "string \<Rightarrow> string list" where
  "split_slash [] = [[]]"
| "split_slash (c # cs) = (if c = CHR ''/'' then [] # split_slash cs
     else (case split_slash cs of [] \<Rightarrow> [[c]] | w # ws \<Rightarrow> (c # w) # ws))"

text \<open>The parts of a relative \<^verbatim>\<open>Path\<close>.\<close>

definition path_parts :: "string \<Rightarrow> string list" where
  "path_parts s = filter (\<lambda>p. p \<noteq> [] \<and> p \<noteq> ''.'') (split_slash s)"

definition is_abs :: "string \<Rightarrow> bool" where
  "is_abs s \<longleftrightarrow> s \<noteq> [] \<and> hd s = CHR ''/''"

definition unsafe_path :: "string \<Rightarrow> bool" where
  "unsafe_path s \<longleftrightarrow> is_abs s \<or> ''..'' \<in> set (path_parts s)"

definition strip_mode :: "int \<Rightarrow> int" where
  "strip_mode m = m AND NOT (2048 OR 1024)"

datatype artifact_error = InvalidUrl | UnsupportedScheme string | NoHostname | BlockedHostname string | PrivateAddress string
  | TooLarge | DownloadFailed string | Sha256Mismatch string | UnsafeEntry string | UnsafeLink string string | ExtractFailed string

fun check_members :: "tar_member list \<Rightarrow> artifact_error + tar_member list" where
  "check_members [] = Inr []"
| "check_members (m # mems) =
     (if unsafe_path (tm_name m) then Inl (UnsafeEntry (tm_name m))
      else if (tm_kind m = SymLink \<or> tm_kind m = HardLink) \<and> unsafe_path (tm_linkname m) then Inl (UnsafeLink (tm_name m) (tm_linkname m))
      else case check_members mems of Inl e \<Rightarrow> Inl e | Inr mems' \<Rightarrow> Inr (m\<lparr>tm_mode := strip_mode (tm_mode m)\<rparr> # mems'))"

type_synonym files = "(string list \<times> tar_member) list"

fun extract_all :: "(nat \<Rightarrow> string option) \<Rightarrow> nat \<Rightarrow> tar_member list \<Rightarrow> files \<Rightarrow> string option \<times> files" where
  "extract_all fault i [] fs = (None, fs)"
| "extract_all fault i (m # mems) fs = (case fault i of
     Some e \<Rightarrow> (Some e, fs)
   | None \<Rightarrow> extract_all fault (Suc i) mems (AList.update (path_parts (tm_name m)) m fs))"

subsection \<open>The fetcher\<close>

record cache_entry =
  ce_ready :: bool
  ce_package :: "files option"
  ce_mtime :: time

record fetcher =
  max_size_bytes :: int
  max_cache_entries :: int
  allow_private_ip :: bool
  cache_entries :: "(string \<times> cache_entry) list"

record 'w fetch_env =
  sha256 :: "string \<Rightarrow> string"
  http_get :: "string \<Rightarrow> 'w \<Rightarrow> (string list \<times> string option) \<times> 'w"
  untar :: "string \<Rightarrow> string + tar_member list"
  valid_ip6 :: "string \<Rightarrow> bool"

definition new_fetcher :: "int \<Rightarrow> int \<Rightarrow> bool \<Rightarrow> (string \<times> cache_entry) list \<Rightarrow> fetcher" where
  "new_fetcher mb n priv es = \<lparr>max_size_bytes = mb * 1024 * 1024, max_cache_entries = n, allow_private_ip = priv, cache_entries = es\<rparr>"

definition validate_artifact_url :: "('w, 'z) fetch_env_scheme \<Rightarrow> fetcher \<Rightarrow> string \<Rightarrow> artifact_error + unit" where
  "validate_artifact_url env f url =
     (let (scheme, rest) = split_scheme url; netloc = netloc_of rest; host = hostname_of netloc
      in if bad_brackets (valid_ip6 env) netloc then Inl InvalidUrl
         else if scheme \<notin> {''http'', ''https''} then Inl (UnsupportedScheme scheme)
         else if host = [] then Inl NoHostname
         else if host \<in> set blocked_hostnames then Inl (BlockedHostname host)
         else if \<not> allow_private_ip f \<and> private_ip host then Inl (PrivateAddress host)
         else Inr ())"

fun receive :: "int \<Rightarrow> string \<Rightarrow> string list \<Rightarrow> artifact_error + string" where
  "receive mx got [] = Inr got"
| "receive mx got (c # cs) = (if int (length got + length c) > mx then Inl TooLarge else receive mx (got @ c) cs)"

definition download :: "('w, 'z) fetch_env_scheme \<Rightarrow> fetcher \<Rightarrow> string \<Rightarrow> string option \<Rightarrow> 'w \<Rightarrow> (artifact_error + string) \<times> 'w" where
  "download env f url expected w = (case http_get env url w of ((chunks, err), w1) \<Rightarrow>
     (case receive (max_size_bytes f) [] chunks of
        Inl e \<Rightarrow> Inl e
      | Inr content \<Rightarrow> (case err of
          Some e \<Rightarrow> Inl (DownloadFailed e)
        | None \<Rightarrow> (case expected of
            None \<Rightarrow> Inr content
          | Some h \<Rightarrow> if h \<noteq> [] \<and> sha256 env content \<noteq> py_lower h then Inl (Sha256Mismatch (sha256 env content)) else Inr content)), w1))"

definition no_entry :: cache_entry where
  "no_entry = \<lparr>ce_ready = False, ce_package = None, ce_mtime = 0\<rparr>"

definition entry_of :: "fetcher \<Rightarrow> string \<Rightarrow> cache_entry" where
  "entry_of f key = (case map_of (cache_entries f) key of None \<Rightarrow> no_entry | Some e \<Rightarrow> e)"

definition set_entry :: "string \<Rightarrow> cache_entry \<Rightarrow> fetcher \<Rightarrow> fetcher" where
  "set_entry key e f = f\<lparr>cache_entries := AList.update key e (cache_entries f)\<rparr>"

text \<open>The directory \<^verbatim>\<open>package\<close> is made if it is missing and filled over what it holds.\<close>

definition extract_tar :: "('w, 'z) fetch_env_scheme \<Rightarrow> (nat \<Rightarrow> string option) \<Rightarrow> time \<Rightarrow> string \<Rightarrow> string \<Rightarrow> fetcher \<Rightarrow> (artifact_error + unit) \<times> fetcher" where
  "extract_tar env fault now content key f =
     (let e = entry_of f key;
          old = (case ce_package e of None \<Rightarrow> [] | Some fs \<Rightarrow> fs);
          e1 = (if ce_package e = None then e\<lparr>ce_package := Some [], ce_mtime := now\<rparr> else e)
      in case untar env content of
           Inl err \<Rightarrow> (Inl (ExtractFailed err), set_entry key e1 f)
         | Inr mems \<Rightarrow> (case check_members mems of
             Inl err \<Rightarrow> (Inl err, set_entry key e1 f)
           | Inr mems' \<Rightarrow> (case extract_all fault 0 mems' old of
               (Some err, fs) \<Rightarrow> (Inl (ExtractFailed err), set_entry key (e1\<lparr>ce_package := Some fs\<rparr>) f)
             | (None, fs) \<Rightarrow> (Inr (), set_entry key (e1\<lparr>ce_package := Some fs\<rparr>) f))))"

definition ready_entries :: "fetcher \<Rightarrow> (string \<times> cache_entry) list" where
  "ready_entries f = filter (\<lambda>(k, e). ce_ready e) (cache_entries f)"

definition gc_artifact_cache :: "fetcher \<Rightarrow> nat \<times> fetcher" where
  "gc_artifact_cache f =
     (let entries = ready_entries f
      in if int (length entries) < max_cache_entries f then (0, f)
         else let sorted = sort_key (\<lambda>(k, e). ce_mtime e) entries;
                  gone = take (nat (int (length entries) - max_cache_entries f + 1)) sorted
              in (length gone, f\<lparr>cache_entries := filter (\<lambda>(k, e). k \<notin> fst ` set gone) (cache_entries f)\<rparr>))"

definition cache_key :: "('w, 'z) fetch_env_scheme \<Rightarrow> string \<Rightarrow> string option \<Rightarrow> string" where
  "cache_key env url expected = take 32 (sha256 env (url @ '':'' @ (case expected of None \<Rightarrow> [] | Some h \<Rightarrow> h)))"

definition is_hit :: "fetcher \<Rightarrow> string \<Rightarrow> bool" where
  "is_hit f key \<longleftrightarrow> ce_ready (entry_of f key) \<and> ce_package (entry_of f key) \<noteq> None"

text \<open>The result is the key of the entry whose package directory is returned.\<close>

definition fetch_artifact :: "('w, 'z) fetch_env_scheme \<Rightarrow> (nat \<Rightarrow> string option) \<Rightarrow> time \<Rightarrow> string \<Rightarrow> string option \<Rightarrow>
    fetcher \<Rightarrow> 'w \<Rightarrow> (artifact_error + string) \<times> fetcher \<times> 'w" where
  "fetch_artifact env fault now url expected f w =
     (case validate_artifact_url env f url of
        Inl e \<Rightarrow> (Inl e, f, w)
      | Inr _ \<Rightarrow>
          (let key = cache_key env url expected
           in if is_hit f key then (Inr key, f, w)
              else let f1 = snd (gc_artifact_cache f)
                   in case download env f1 url expected w of
                        (Inl e, w1) \<Rightarrow> (Inl e, f1, w1)
                      | (Inr content, w1) \<Rightarrow> (case extract_tar env fault now content key f1 of
                          (Inl e, f2) \<Rightarrow> (Inl e, f2, w1)
                        | (Inr _, f2) \<Rightarrow> (Inr key, set_entry key ((entry_of f2 key)\<lparr>ce_ready := True, ce_mtime := now\<rparr>) f2, w1))))"

subsection \<open>What an extracted package can reach\<close>

text \<open>
  A path inside a package is normalised with \<open>None\<close> for a path that leaves it; symbolic links are
  followed from the directory that holds them.
\<close>

fun norm_path :: "string list \<Rightarrow> string list \<Rightarrow> string list option" where
  "norm_path acc [] = Some (rev acc)"
| "norm_path acc (p # ps) = (if p = ''..'' then (case acc of [] \<Rightarrow> None | _ # acc' \<Rightarrow> norm_path acc' ps) else norm_path (p # acc) ps)"

definition follow_link :: "string list \<Rightarrow> tar_member \<Rightarrow> string list \<Rightarrow> string list option" where
  "follow_link d m rest = (if is_abs (tm_linkname m) then None else norm_path [] (butlast d @ path_parts (tm_linkname m) @ rest))"

inductive leads_to :: "files \<Rightarrow> string list \<Rightarrow> string list option \<Rightarrow> bool" for fs where
  here: "leads_to fs p (norm_path [] p)"
| link: "leads_to fs p (Some (d @ rest)) \<Longrightarrow> map_of fs d = Some m \<Longrightarrow> tm_kind m = SymLink \<Longrightarrow> leads_to fs p (follow_link d m rest)"

definition safe_member :: "tar_member \<Rightarrow> bool" where
  "safe_member m \<longleftrightarrow> \<not> unsafe_path (tm_name m) \<and> (tm_kind m = SymLink \<or> tm_kind m = HardLink \<longrightarrow> \<not> unsafe_path (tm_linkname m))
     \<and> \<not> bit (tm_mode m) 11 \<and> \<not> bit (tm_mode m) 10"

definition safe_files :: "files \<Rightarrow> bool" where
  "safe_files fs \<longleftrightarrow> (\<forall>(p, m) \<in> set fs. ''..'' \<notin> set p \<and> safe_member m) \<and> distinct (map fst fs)"

lemma norm_plain: "''..'' \<notin> set ps \<Longrightarrow> norm_path acc ps = Some (rev acc @ ps)"
  by (induction ps arbitrary: acc) auto

lemma strip_mode_bits: "\<not> bit (strip_mode m) 11" "\<not> bit (strip_mode m) 10"
proof -
  have "(2048 :: int) = push_bit 11 1" "(1024 :: int) = push_bit 10 1" by (simp_all add: push_bit_eq_mult)
  then have "bit (2048 :: int) 11" "bit (1024 :: int) 10" by (simp_all add: bit_push_bit_iff)
  then show "\<not> bit (strip_mode m) 11" "\<not> bit (strip_mode m) 10"
    by (simp_all add: strip_mode_def bit_and_iff bit_not_iff bit_or_iff)
qed

lemma check_members_safe:
  "check_members mems = Inr mems' \<Longrightarrow>
   mems' = map (\<lambda>m. m\<lparr>tm_mode := strip_mode (tm_mode m)\<rparr>) mems \<and> (\<forall>m \<in> set mems'. safe_member m)"
proof (induction mems arbitrary: mems')
  case (Cons m mems)
  then obtain rest where rest: "check_members mems = Inr rest" "mems' = m\<lparr>tm_mode := strip_mode (tm_mode m)\<rparr> # rest"
    and ok: "\<not> unsafe_path (tm_name m)" "tm_kind m = SymLink \<or> tm_kind m = HardLink \<longrightarrow> \<not> unsafe_path (tm_linkname m)"
    by (auto split: if_splits sum.splits)
  have "safe_member (m\<lparr>tm_mode := strip_mode (tm_mode m)\<rparr>)"
    using ok strip_mode_bits by (simp add: safe_member_def)
  then show ?case using Cons.IH [OF rest(1)] rest(2) by simp
qed simp

lemma safe_files_update:
  assumes "safe_files fs" and "safe_member m"
  shows "safe_files (AList.update (path_parts (tm_name m)) m fs)"
  using assms by (auto simp: safe_files_def safe_member_def unsafe_path_def in_set_update distinct_update split: if_splits)

lemma extract_all_safe:
  "safe_files fs \<Longrightarrow> \<forall>m \<in> set mems. safe_member m \<Longrightarrow> safe_files (snd (extract_all fault i mems fs))"
  by (induction mems arbitrary: i fs) (auto intro: safe_files_update split: option.splits)

lemma leads_to_inside:
  assumes "leads_to fs p q" and "safe_files fs" and "''..'' \<notin> set p"
  shows "\<exists>q'. q = Some q' \<and> ''..'' \<notin> set q'"
  using assms
proof (induction rule: leads_to.induct)
  case (here p)
  then show ?case by (simp add: norm_plain)
next
  case (link p d rest m)
  then have "''..'' \<notin> set (d @ rest)" by auto
  moreover have "(d, m) \<in> set fs" using link.hyps(2) by (rule map_of_SomeD)
  then have "safe_member m" using link.prems(1) by (auto simp: safe_files_def)
  then have "\<not> is_abs (tm_linkname m)" "''..'' \<notin> set (path_parts (tm_linkname m))"
    using link.hyps(3) by (auto simp: safe_member_def unsafe_path_def)
  ultimately have "''..'' \<notin> set (butlast d @ path_parts (tm_linkname m) @ rest)" "\<not> is_abs (tm_linkname m)"
    by (auto dest: in_set_butlastD)
  then show ?case by (simp add: follow_link_def norm_plain del: set_append)
qed

subsection \<open>The cache\<close>

definition cache_safe :: "fetcher \<Rightarrow> bool" where
  "cache_safe f \<longleftrightarrow> (\<forall>(k, e) \<in> set (cache_entries f). case ce_package e of None \<Rightarrow> True | Some fs \<Rightarrow> safe_files fs)"

definition cache_ok :: "fetcher \<Rightarrow> bool" where
  "cache_ok f \<longleftrightarrow> distinct (map fst (cache_entries f)) \<and> int (length (ready_entries f)) \<le> max 1 (max_cache_entries f)"

lemma entry_of_set_entry [simp]: "entry_of (set_entry key e f) k = (if k = key then e else entry_of f k)"
  by (simp add: entry_of_def set_entry_def update_conv')

lemma entry_safe: "cache_safe f \<Longrightarrow> ce_package (entry_of f key) = Some fs \<Longrightarrow> safe_files fs"
  by (auto simp: entry_of_def no_entry_def cache_safe_def dest!: map_of_SomeD split: option.splits)

lemma set_entry_safe:
  assumes "cache_safe f" and "\<And>fs. ce_package e = Some fs \<Longrightarrow> safe_files fs"
  shows "cache_safe (set_entry key e f)"
proof -
  have "x \<in> set (AList.update key e al) \<Longrightarrow> x = (key, e) \<or> x \<in> set al" for x al
    by (induction al) (auto split: if_splits)
  then show ?thesis using assms by (fastforce simp: cache_safe_def set_entry_def split: option.splits)
qed

lemma gc_frame [simp]:
  "max_cache_entries (snd (gc_artifact_cache f)) = max_cache_entries f"
  "max_size_bytes (snd (gc_artifact_cache f)) = max_size_bytes f"
  "allow_private_ip (snd (gc_artifact_cache f)) = allow_private_ip f"
  by (simp_all add: gc_artifact_cache_def Let_def)

lemma set_entry_frame [simp]:
  "max_cache_entries (set_entry key e f) = max_cache_entries f"
  "max_size_bytes (set_entry key e f) = max_size_bytes f"
  by (simp_all add: set_entry_def)

lemma gc_entries:
  "\<exists>P. cache_entries (snd (gc_artifact_cache f)) = filter P (cache_entries f)"
proof (cases "int (length (ready_entries f)) < max_cache_entries f")
  case True
  then have "cache_entries (snd (gc_artifact_cache f)) = filter (\<lambda>_. True) (cache_entries f)"
    by (simp add: gc_artifact_cache_def Let_def)
  then show ?thesis by blast
next
  case False
  then show ?thesis unfolding gc_artifact_cache_def by (auto simp: Let_def)
qed

lemma gc_safe: "cache_safe f \<Longrightarrow> cache_safe (snd (gc_artifact_cache f))"
  using gc_entries [of f] by (auto simp: cache_safe_def)

text \<open>Collection leaves room for one more ready entry, and removes the oldest.\<close>

lemma gc_count:
  assumes d: "distinct (map fst (cache_entries f))"
  shows "int (length (ready_entries (snd (gc_artifact_cache f)))) \<le> max 0 (max_cache_entries f - 1)"
proof (cases "int (length (ready_entries f)) < max_cache_entries f")
  case True
  then show ?thesis by (simp add: gc_artifact_cache_def Let_def)
next
  case False
  define es where "es = ready_entries f"
  define srt where "srt = sort_key (\<lambda>(k, e). ce_mtime e) es"
  define gone where "gone = take (nat (int (length es) - max_cache_entries f + 1)) srt"
  have f': "cache_entries (snd (gc_artifact_cache f)) = filter (\<lambda>(k, e). k \<notin> fst ` set gone) (cache_entries f)"
    using False by (simp add: gc_artifact_cache_def Let_def es_def srt_def gone_def)
  have des: "distinct (map fst es)" using d by (auto simp: es_def ready_entries_def intro: distinct_map_filter)
  have "mset (map fst srt) = mset (map fst es)" by (simp add: srt_def)
  then have dsrt: "distinct (map fst srt)" using des mset_eq_imp_distinct_iff by blast
  have ready: "ready_entries (snd (gc_artifact_cache f)) = filter (\<lambda>(k, e). k \<notin> fst ` set gone) es"
    by (auto simp: ready_entries_def es_def f' intro: filter_cong)
  have sub: "fst ` set gone \<subseteq> fst ` set es"
    using set_take_subset [of _ srt] by (auto simp: gone_def srt_def)
  have "length (filter (\<lambda>(k, e). k \<notin> fst ` set gone) es) = card (fst ` set es - fst ` set gone)"
  proof -
    have "distinct (map fst (filter (\<lambda>(k, e). k \<notin> fst ` set gone) es))" by (intro distinct_map_filter des)
    then have "length (filter (\<lambda>(k, e). k \<notin> fst ` set gone) es) = card (set (map fst (filter (\<lambda>(k, e). k \<notin> fst ` set gone) es)))"
      using distinct_card [of "map fst (filter (\<lambda>(k, e). k \<notin> fst ` set gone) es)"] by simp
    moreover have "set (map fst (filter (\<lambda>(k, e). k \<notin> fst ` set gone) es)) = fst ` set es - fst ` set gone" by force
    ultimately show ?thesis by simp
  qed
  also have "\<dots> = card (fst ` set es) - card (fst ` set gone)" by (rule card_Diff_subset) (use sub in auto)
  also have "card (fst ` set es) = length es" using distinct_card [OF des] by simp
  also have "card (fst ` set gone) = length gone"
  proof -
    have "distinct (map fst gone)" using dsrt by (simp add: gone_def flip: take_map)
    then show ?thesis using distinct_card [of "map fst gone"] by simp
  qed
  finally have "length (ready_entries (snd (gc_artifact_cache f))) = length es - length gone" by (simp add: ready)
  moreover have "length gone = min (length es) (nat (int (length es) - max_cache_entries f + 1))" by (simp add: gone_def srt_def)
  ultimately show ?thesis using False by (simp add: es_def)
qed

lemma gc_oldest_first:
  assumes d: "distinct (map fst (cache_entries f))" and "(k, e) \<in> set (ready_entries (snd (gc_artifact_cache f)))" and "(k', e') \<in> set (ready_entries f)"
    and "(k', e') \<notin> set (cache_entries (snd (gc_artifact_cache f)))"
  shows "ce_mtime e' \<le> ce_mtime e"
proof (cases "int (length (ready_entries f)) < max_cache_entries f")
  case True
  then show ?thesis using assms by (simp add: gc_artifact_cache_def Let_def ready_entries_def)
next
  case False
  define srt where "srt = sort_key (\<lambda>(k, e). ce_mtime e) (ready_entries f)"
  define n where "n = nat (int (length (ready_entries f)) - max_cache_entries f + 1)"
  have f': "cache_entries (snd (gc_artifact_cache f)) = filter (\<lambda>(k, e). k \<notin> fst ` set (take n srt)) (cache_entries f)"
    using False by (simp add: gc_artifact_cache_def Let_def srt_def n_def)
  have k: "(k, e) \<in> set srt" "k \<notin> fst ` set (take n srt)"
    using assms(2) by (auto simp: ready_entries_def f' srt_def)
  then have "(k, e) \<in> set (drop n srt)" by (metis append_take_drop_id Un_iff fst_conv image_eqI set_append)
  moreover have "k' \<in> fst ` set (take n srt)" using assms(3,4) by (auto simp: ready_entries_def f')
  then obtain e'' where e'': "(k', e'') \<in> set (take n srt)" by force
  moreover have "sorted (map (\<lambda>(k, e). ce_mtime e) srt)" by (simp add: srt_def)
  ultimately have "ce_mtime e'' \<le> ce_mtime e"
    using sorted_take_drop_le [of "\<lambda>(k, e). ce_mtime e" srt "(k', e'')" n "(k, e)"] by simp
  moreover have "e'' = e'"
  proof (rule eq_key_imp_eq_value [of "cache_entries f" k'])
    show "(k', e'') \<in> set (cache_entries f)" using set_take_subset [of n srt] e'' by (auto simp: srt_def ready_entries_def)
    show "(k', e') \<in> set (cache_entries f)" using assms(3) by (simp add: ready_entries_def)
  qed (rule d)
  ultimately show ?thesis by simp
qed

lemma ready_set_entry:
  assumes "distinct (map fst (cache_entries f))"
  shows "length (ready_entries (set_entry key e f)) \<le> length (ready_entries f) + 1"
proof -
  have "length (filter (\<lambda>(k, e). ce_ready e) (AList.update key e al)) \<le> length (filter (\<lambda>(k, e). ce_ready e) al) + 1" for al
    by (induction al) auto
  then show ?thesis by (simp add: ready_entries_def set_entry_def)
qed

lemma ready_set_entry_same:
  assumes "distinct (map fst (cache_entries f))" and "\<not> ce_ready e \<or> ce_ready (entry_of f key)"
  shows "length (ready_entries (set_entry key e f)) \<le> length (ready_entries f)"
proof -
  have "distinct (map fst al) \<Longrightarrow> \<not> ce_ready e \<or> (\<exists>e0. map_of al key = Some e0 \<and> ce_ready e0) \<Longrightarrow>
    length (filter (\<lambda>(k, e). ce_ready e) (AList.update key e al)) \<le> length (filter (\<lambda>(k, e). ce_ready e) al)" for al
    by (induction al) (auto split: if_splits)
  moreover have "\<not> ce_ready e \<or> (\<exists>e0. map_of (cache_entries f) key = Some e0 \<and> ce_ready e0)"
    using assms(2) by (auto simp: entry_of_def no_entry_def split: option.splits)
  ultimately show ?thesis using assms(1) by (simp add: ready_entries_def set_entry_def)
qed

subsection \<open>Fetching\<close>

lemma receive_limit: "receive mx got cs = Inr content \<Longrightarrow> int (length got) \<le> mx \<or> cs = [] \<Longrightarrow> int (length content) \<le> max mx (int (length got)) \<and> content = got @ concat cs"
  by (induction cs arbitrary: got) (fastforce split: if_splits)+

lemma extract_all_installs:
  assumes "extract_all fault i mems fs = (None, fs')"
  shows "map_of fs' = map_of fs ++ map_of (rev (map (\<lambda>m. (path_parts (tm_name m), m)) mems))"
  using assms
proof (induction mems arbitrary: i fs)
  case (Cons m mems)
  then have "extract_all fault (Suc i) mems (AList.update (path_parts (tm_name m)) m fs) = (None, fs')"
    by (simp split: option.splits)
  from Cons.IH [OF this] show ?case by (intro ext) (simp add: map_add_def update_conv' split: option.splits)
qed simp

lemma extract_tar_cases:
  assumes "extract_tar env fault now content key f = (res, f')"
  shows "\<exists>e'. f' = set_entry key e' f \<and> ce_ready e' = ce_ready (entry_of f key) \<and> (cache_safe f \<longrightarrow> cache_safe f')
    \<and> (res = Inr () \<longrightarrow> (\<exists>mems mems' fs0 fs. untar env content = Inr mems \<and> check_members mems = Inr mems'
         \<and> extract_all fault 0 mems' fs0 = (None, fs) \<and> ce_package e' = Some fs))"
proof -
  let ?e = "entry_of f key"
  let ?old = "case ce_package ?e of None \<Rightarrow> [] | Some fs \<Rightarrow> fs"
  let ?e1 = "if ce_package ?e = None then ?e\<lparr>ce_package := Some [], ce_mtime := now\<rparr> else ?e"
  have old: "cache_safe f \<Longrightarrow> safe_files ?old"
    using entry_safe [of f key] by (auto simp: safe_files_def split: option.splits)
  have e1: "cache_safe f \<Longrightarrow> ce_package ?e1 = Some fs \<Longrightarrow> safe_files fs" for fs
    using entry_safe [of f key] by (auto simp: safe_files_def split: if_splits)
  have r1: "ce_ready ?e1 = ce_ready ?e" by simp
  show ?thesis
  proof (cases "\<exists>mems mems'. untar env content = Inr mems \<and> check_members mems = Inr mems'")
    case False
    then have "f' = set_entry key ?e1 f" "res \<noteq> Inr ()"
      using assms by (auto simp: extract_tar_def Let_def split: sum.splits)
    then show ?thesis using set_entry_safe [of f ?e1 key] e1 r1 by blast
  next
    case True
    then obtain mems mems' where m: "untar env content = Inr mems" "check_members mems = Inr mems'" by blast
    obtain err fs where x: "extract_all fault 0 mems' ?old = (err, fs)" by (metis surj_pair)
    let ?e2 = "?e1\<lparr>ce_package := Some fs\<rparr>"
    have f': "f' = set_entry key ?e2 f" and res: "res = Inr () \<longrightarrow> err = None"
      using assms m x by (auto simp: extract_tar_def Let_def split: option.splits)
    have "cache_safe f \<Longrightarrow> safe_files fs"
      using extract_all_safe [OF old, of mems' fault 0] check_members_safe [OF m(2)] x by simp
    then have "cache_safe f \<longrightarrow> cache_safe f'" using set_entry_safe [of f ?e2 key] f' by simp
    moreover have "ce_ready ?e2 = ce_ready ?e" by simp
    moreover have "ce_package ?e2 = Some fs" by simp
    ultimately show ?thesis using f' res m x by blast
  qed
qed

lemma gc_distinct: "distinct (map fst (cache_entries f)) \<Longrightarrow> distinct (map fst (cache_entries (snd (gc_artifact_cache f))))"
  using gc_entries [of f] by (auto intro: distinct_map_filter)

lemma set_entry_distinct: "distinct (map fst (cache_entries f)) \<Longrightarrow> distinct (map fst (cache_entries (set_entry key e f)))"
  by (simp add: set_entry_def distinct_update)

lemma gc_miss:
  assumes "distinct (map fst (cache_entries f))"
  shows "entry_of (snd (gc_artifact_cache f)) key = entry_of f key \<or> entry_of (snd (gc_artifact_cache f)) key = no_entry"
proof -
  obtain P where P: "cache_entries (snd (gc_artifact_cache f)) = filter P (cache_entries f)" using gc_entries by blast
  show ?thesis
  proof (cases "map_of (cache_entries (snd (gc_artifact_cache f))) key")
    case None
    then show ?thesis by (simp add: entry_of_def)
  next
    case (Some e)
    then have "(key, e) \<in> set (cache_entries f)" using P by (auto dest: map_of_SomeD)
    then have "map_of (cache_entries f) key = Some e" using assms by simp
    then show ?thesis using Some by (simp add: entry_of_def)
  qed
qed

lemma fetch_cases:
  assumes "fetch_artifact env fault now url expected f w = (res, f', w')" and d: "distinct (map fst (cache_entries f))"
  shows "f' = f \<and> (is_hit f (cache_key env url expected) \<or> (\<exists>e. res = Inl e)) \<or> (\<not> is_hit f (cache_key env url expected) \<and>
    (let key = cache_key env url expected; f1 = snd (gc_artifact_cache f) in
       (\<exists>e. res = Inl e) \<and> f' = f1
     \<or> (\<exists>e content f2. res = Inl e \<and> extract_tar env fault now content key f1 = (Inl e, f2) \<and> f' = f2)
     \<or> (\<exists>content f2. res = Inr key \<and> download env f1 url expected w = (Inr content, w') \<and> extract_tar env fault now content key f1 = (Inr (), f2)
          \<and> f' = set_entry key ((entry_of f2 key)\<lparr>ce_ready := True, ce_mtime := now\<rparr>) f2)))"
proof (cases "validate_artifact_url env f url")
  case (Inl e)
  then have "f' = f \<and> res = Inl e" using assms(1) by (auto simp: fetch_artifact_def)
  then show ?thesis by blast
next
  case valid: (Inr u)
  let ?key = "cache_key env url expected" and ?f1 = "snd (gc_artifact_cache f)"
  show ?thesis
  proof (cases "is_hit f ?key")
    case True
    then show ?thesis using assms(1) valid by (simp add: fetch_artifact_def Let_def)
  next
    case miss: False
    obtain r w1 where dl: "download env ?f1 url expected w = (r, w1)" by (metis surj_pair)
    show ?thesis
    proof (cases r)
      case (Inl e)
      then show ?thesis using assms(1) valid miss dl by (auto simp: fetch_artifact_def Let_def)
    next
      case (Inr content)
      obtain x f2 where x: "extract_tar env fault now content ?key ?f1 = (x, f2)" by (metis surj_pair)
      show ?thesis
      proof (cases x)
        case (Inl e)
        then show ?thesis using assms(1) valid miss dl Inr x by (auto simp: fetch_artifact_def Let_def)
      next
        case (Inr u')
        then show ?thesis using assms(1) valid miss dl \<open>r = Inr content\<close> x by (auto simp: fetch_artifact_def Let_def)
      qed
    qed
  qed
qed

lemma not_hit_not_ready:
  assumes "\<not> is_hit f key" and "distinct (map fst (cache_entries f))"
  shows "\<not> is_hit (snd (gc_artifact_cache f)) key"
  using gc_miss [OF assms(2), of key] assms(1) by (auto simp: is_hit_def no_entry_def)

text \<open>The directory of the cache over a sequence of fetches, from an empty one.\<close>

inductive fetch_run :: "('w, 'z) fetch_env_scheme \<Rightarrow> fetcher \<Rightarrow> bool" for env where
  fresh: "fetch_run env (new_fetcher mb n priv [])"
| fetched: "fetch_run env f \<Longrightarrow> fetch_artifact env fault now url expected f w = (res, f', w') \<Longrightarrow> fetch_run env f'"

definition fetch_inv :: "fetcher \<Rightarrow> bool" where
  "fetch_inv f \<longleftrightarrow> cache_ok f \<and> cache_safe f \<and> (\<forall>key. ce_ready (entry_of f key) \<longrightarrow> ce_package (entry_of f key) \<noteq> None)"

lemma gc_inv: "fetch_inv f \<Longrightarrow> fetch_inv (snd (gc_artifact_cache f)) \<and> int (length (ready_entries (snd (gc_artifact_cache f)))) \<le> max 0 (max_cache_entries f - 1)"
proof -
  assume inv: "fetch_inv f"
  let ?f1 = "snd (gc_artifact_cache f)"
  have d: "distinct (map fst (cache_entries f))" using inv by (simp add: fetch_inv_def cache_ok_def)
  note count = gc_count [OF d]
  have "ce_package (entry_of ?f1 key) \<noteq> None" if "ce_ready (entry_of ?f1 key)" for key
    using gc_miss [OF d, of key] that inv by (auto simp: fetch_inv_def no_entry_def)
  moreover have "cache_ok ?f1" using count gc_distinct [OF d] by (simp add: cache_ok_def)
  moreover have "cache_safe ?f1" using inv gc_safe by (simp add: fetch_inv_def)
  ultimately show ?thesis using count by (simp add: fetch_inv_def)
qed

lemma fetch_keeps_inv:
  assumes inv: "fetch_inv f" and fetch: "fetch_artifact env fault now url expected f w = (res, f', w')"
  shows "fetch_inv f'"
proof -
  let ?key = "cache_key env url expected" and ?f1 = "snd (gc_artifact_cache f)"
  have d: "distinct (map fst (cache_entries f))" using inv by (simp add: fetch_inv_def cache_ok_def)
  have inv1: "fetch_inv ?f1" and room: "int (length (ready_entries ?f1)) \<le> max 0 (max_cache_entries f - 1)" using gc_inv [OF inv] by auto
  have d1: "distinct (map fst (cache_entries ?f1))" and safe1: "cache_safe ?f1" using inv1 by (simp_all add: fetch_inv_def cache_ok_def)
  have ext: "fetch_inv f2 \<and> distinct (map fst (cache_entries f2)) \<and> int (length (ready_entries f2)) \<le> max 0 (max_cache_entries f - 1)
      \<and> max_cache_entries f2 = max_cache_entries f \<and> (r = Inr () \<longrightarrow> ce_package (entry_of f2 ?key) \<noteq> None)"
    if not_hit: "\<not> is_hit f ?key" and x: "extract_tar env fault now content ?key ?f1 = (r, f2)" for content r f2
  proof -
    obtain e' where f2: "f2 = set_entry ?key e' ?f1" and rd: "ce_ready e' = ce_ready (entry_of ?f1 ?key)" and safe2: "cache_safe f2"
      and pk: "r = Inr () \<longrightarrow> ce_package e' \<noteq> None"
      using extract_tar_cases [OF x] safe1 by auto
    have nr: "\<not> ce_ready e'"
      using not_hit_not_ready [OF not_hit d] inv1 rd by (auto simp: is_hit_def fetch_inv_def)
    have len: "length (ready_entries f2) \<le> length (ready_entries ?f1)"
      unfolding f2 using ready_set_entry_same [OF d1, of e' ?key] nr by simp
    have d2: "distinct (map fst (cache_entries f2))" unfolding f2 by (rule set_entry_distinct [OF d1])
    have "fetch_inv f2"
      using inv1 len d2 safe2 nr by (auto simp: fetch_inv_def cache_ok_def f2)
    then show ?thesis using len d2 room pk by (auto simp: f2)
  qed
  consider "f' = f" | "\<not> is_hit f ?key" "f' = ?f1"
    | content f2 e where "\<not> is_hit f ?key" "extract_tar env fault now content ?key ?f1 = (Inl e, f2)" "f' = f2"
    | content f2 where "\<not> is_hit f ?key" "extract_tar env fault now content ?key ?f1 = (Inr (), f2)"
        "f' = set_entry ?key ((entry_of f2 ?key)\<lparr>ce_ready := True, ce_mtime := now\<rparr>) f2"
    using fetch_cases [OF fetch d] unfolding Let_def by blast
  then show ?thesis
  proof cases
    case 1
    then show ?thesis using inv by simp
  next
    case 2
    then show ?thesis using inv1 by simp
  next
    case (3 content f2 e)
    then show ?thesis using ext by blast
  next
    case (4 content f2)
    note x = ext [OF 4(1,2)]
    let ?e = "(entry_of f2 ?key)\<lparr>ce_ready := True, ce_mtime := now\<rparr>"
    have "length (ready_entries f') \<le> length (ready_entries f2) + 1"
      unfolding 4(3) by (rule ready_set_entry) (use x in simp)
    then have "int (length (ready_entries f')) \<le> max 1 (max_cache_entries f)"
      using x by (auto simp: max_def split: if_splits)
    moreover have "cache_safe f'"
    proof -
      have "cache_safe f2" using x by (simp add: fetch_inv_def)
      then show ?thesis unfolding 4(3) by (rule set_entry_safe) (use \<open>cache_safe f2\<close> entry_safe in simp)
    qed
    moreover have "distinct (map fst (cache_entries f'))" unfolding 4(3) using x by (simp add: set_entry_distinct)
    moreover have "\<forall>k. ce_ready (entry_of f' k) \<longrightarrow> ce_package (entry_of f' k) \<noteq> None"
      using x by (auto simp: 4(3) fetch_inv_def)
    ultimately show ?thesis using x 4(3) by (simp add: fetch_inv_def cache_ok_def)
  qed
qed

lemma fetch_run_inv: "fetch_run env f \<Longrightarrow> fetch_inv f"
proof (induction rule: fetch_run.induct)
  case (fresh mb n priv)
  then show ?case by (simp add: fetch_inv_def cache_ok_def cache_safe_def new_fetcher_def ready_entries_def entry_of_def no_entry_def)
next
  case (fetched f fault now url expected w res f' w')
  show ?case by (rule fetch_keeps_inv [OF fetched.IH fetched.hyps(2)])
qed


text \<open>
  The cache is bounded: it never has more ready entries than configured (and one where less
  than one is configured), and collection removes the oldest.
\<close>

theorem cache_bounded:
  assumes "fetch_run env f"
  shows "int (length (ready_entries f)) \<le> max 1 (max_cache_entries f)
    \<and> (\<forall>k e k' e'. (k, e) \<in> set (ready_entries (snd (gc_artifact_cache f))) \<longrightarrow> (k', e') \<in> set (ready_entries f) \<longrightarrow>
         (k', e') \<notin> set (cache_entries (snd (gc_artifact_cache f))) \<longrightarrow> ce_mtime e' \<le> ce_mtime e)"
proof -
  have ok: "cache_ok f" using fetch_run_inv [OF assms] by (simp add: fetch_inv_def)
  then have "distinct (map fst (cache_entries f))" by (simp add: cache_ok_def)
  then show ?thesis using ok gc_oldest_first [of f] by (fastforce simp: cache_ok_def)
qed

lemma download_ok:
  assumes "download env f url expected w = (Inr content, w')" and "max_size_bytes f \<ge> 0"
  shows "int (length content) \<le> max_size_bytes f" and "\<forall>h. expected = Some h \<longrightarrow> h \<noteq> [] \<longrightarrow> sha256 env content = py_lower h"
proof -
  obtain chunks err w1 where g: "http_get env url w = ((chunks, err), w1)" by (metis surj_pair)
  have r: "receive (max_size_bytes f) [] chunks = Inr content"
    using assms(1) g by (cases "receive (max_size_bytes f) [] chunks") (auto simp: download_def split: option.splits if_splits)
  show "int (length content) \<le> max_size_bytes f" using receive_limit [OF r] assms(2) by auto
  show "\<forall>h. expected = Some h \<longrightarrow> h \<noteq> [] \<longrightarrow> sha256 env content = py_lower h"
    using assms(1) g r by (auto simp: download_def split: option.splits if_splits)
qed

definition installed :: "tar_member list \<Rightarrow> files \<Rightarrow> bool" where
  "installed mems fs \<longleftrightarrow> (\<forall>m \<in> set mems. \<exists>m' \<in> set mems. path_parts (tm_name m') = path_parts (tm_name m)
     \<and> map_of fs (path_parts (tm_name m)) = Some (m'\<lparr>tm_mode := strip_mode (tm_mode m')\<rparr>))"

lemma extract_all_installed:
  assumes "check_members mems = Inr mems'" and x: "extract_all fault 0 mems' fs0 = (None, fs)"
  shows "installed mems fs"
  unfolding installed_def
proof
  have mems': "mems' = map (\<lambda>m. m\<lparr>tm_mode := strip_mode (tm_mode m)\<rparr>) mems" using check_members_safe [OF assms(1)] by simp
  fix m assume m: "m \<in> set mems"
  let ?al = "rev (map (\<lambda>m. (path_parts (tm_name m), m)) mems')"
  have "path_parts (tm_name m) \<in> fst ` set ?al" using m by (force simp: mems')
  then have "map_of ?al (path_parts (tm_name m)) \<noteq> None" by (simp only: map_of_eq_None_iff not_not)
  then obtain m1 where m1: "map_of ?al (path_parts (tm_name m)) = Some m1" by blast
  then have "(path_parts (tm_name m), m1) \<in> set ?al" by (rule map_of_SomeD)
  then obtain m' where "m' \<in> set mems" "m1 = m'\<lparr>tm_mode := strip_mode (tm_mode m')\<rparr>" "path_parts (tm_name m') = path_parts (tm_name m)"
    by (auto simp: mems')
  moreover have "map_of fs (path_parts (tm_name m)) = Some m1"
    unfolding extract_all_installs [OF x] using m1 by (rule map_add_find_right)
  ultimately show "\<exists>m' \<in> set mems. path_parts (tm_name m') = path_parts (tm_name m)
     \<and> map_of fs (path_parts (tm_name m)) = Some (m'\<lparr>tm_mode := strip_mode (tm_mode m')\<rparr>)" by blast
qed


text \<open>A server with one archive that holds a file and a link to it, for the witnesses.\<close>

definition demo_members :: "tar_member list" where
  "demo_members = [\<lparr>tm_name = ''a/run'', tm_mode = 3565, tm_kind = RegularFile, tm_linkname = [], tm_data = ''x''\<rparr>,
     \<lparr>tm_name = ''b'', tm_mode = 511, tm_kind = SymLink, tm_linkname = ''./a'', tm_data = []\<rparr>]"

definition demo_env :: "nat fetch_env" where
  "demo_env = \<lparr>sha256 = (\<lambda>s. s), http_get = (\<lambda>url n. (([''ta'', ''r''], None), Suc n)), untar = (\<lambda>s. Inr demo_members), valid_ip6 = (\<lambda>_. False)\<rparr>"

definition demo_fetched :: fetcher where
  "demo_fetched = fst (snd (fetch_artifact demo_env (\<lambda>_. None) 5 ''http://h/p'' (Some ''TAR'') (new_fetcher 1 2 False []) 0))"

lemma demo_fetch:
  "fetch_artifact demo_env (\<lambda>_. None) 5 ''http://h/p'' (Some ''TAR'') (new_fetcher 1 2 False []) 0 = (Inr ''http://h/p:TAR'', demo_fetched, 1)"
proof -
  have "fst (fetch_artifact demo_env (\<lambda>_. None) 5 ''http://h/p'' (Some ''TAR'') (new_fetcher 1 2 False []) 0) = Inr ''http://h/p:TAR''
    \<and> snd (snd (fetch_artifact demo_env (\<lambda>_. None) 5 ''http://h/p'' (Some ''TAR'') (new_fetcher 1 2 False []) 0)) = 1"
    by code_simp
  then show ?thesis by (simp add: demo_fetched_def prod_eq_iff)
qed

lemma demo_run: "fetch_run demo_env demo_fetched"
  by (rule fetch_run.fetched [OF fetch_run.fresh demo_fetch])

lemma demo_entries:
  "cache_entries demo_fetched = [(''http://h/p:TAR'', \<lparr>ce_ready = True,
     ce_package = Some [([''a'', ''run''], \<lparr>tm_name = ''a/run'', tm_mode = 493, tm_kind = RegularFile, tm_linkname = [], tm_data = ''x''\<rparr>),
       ([''b''], \<lparr>tm_name = ''b'', tm_mode = 511, tm_kind = SymLink, tm_linkname = ''./a'', tm_data = []\<rparr>)], ce_mtime = 5\<rparr>)]"
  by code_simp


theorem cache_bounded_witness: "length (ready_entries demo_fetched) \<le> 2"
proof -
  have "max_cache_entries demo_fetched = 2" by code_simp
  then show ?thesis using cache_bounded [OF demo_run] by simp
qed


text \<open>
  Eviction is by age and not by use: a hit leaves the cache as it is. Loopback names are refused
  even where private addresses are allowed. What a failed extraction has written stays in the
  package directory and is served with the next package of that key.
\<close>

lemma hit_keeps_state:
  "is_hit f (cache_key env url expected) \<Longrightarrow> fst (snd (fetch_artifact env fault now url expected f w)) = f"
  by (auto simp: fetch_artifact_def Let_def split: sum.splits)

lemma loopback_always_blocked:
  "validate_artifact_url env (f\<lparr>allow_private_ip := True\<rparr>) ''http://127.0.0.1/x'' = Inl (BlockedHostname ''127.0.0.1'')"
proof -
  have "split_scheme ''http://127.0.0.1/x'' = (''http'', ''//127.0.0.1/x'')" "netloc_of ''//127.0.0.1/x'' = ''127.0.0.1''"
    "hostname_of ''127.0.0.1'' = ''127.0.0.1''" "''127.0.0.1'' \<in> set blocked_hostnames" by code_simp+
  then show ?thesis by (simp add: validate_artifact_url_def bad_brackets_def)
qed

lemma stale_files_survive:
  assumes "\<not> is_hit f (cache_key env url expected)" and "ce_package (entry_of (snd (gc_artifact_cache f)) (cache_key env url expected)) = Some old"
    and "map_of old p = Some m" and "fetch_artifact env fault now url expected f w = (Inr key, f', w')"
    and "distinct (map fst (cache_entries f))"
  shows "\<exists>fs. ce_package (entry_of f' key) = Some fs \<and> map_of fs p \<noteq> None"
proof -
  let ?key = "cache_key env url expected" and ?f1 = "snd (gc_artifact_cache f)"
  obtain content f2 where x: "extract_tar env fault now content ?key ?f1 = (Inr (), f2)"
    and f': "key = ?key" "f' = set_entry ?key ((entry_of f2 ?key)\<lparr>ce_ready := True, ce_mtime := now\<rparr>) f2"
    using fetch_cases [OF assms(4,5)] assms(1) unfolding Let_def by blast
  obtain mems' fs where "extract_all fault 0 mems' old = (None, fs)" "ce_package (entry_of f2 ?key) = Some fs"
    using x assms(2) by (auto simp: extract_tar_def Let_def split: sum.splits prod.splits option.splits)
  then show ?thesis using extract_all_installs [of fault 0 mems' old fs] assms(3) by (auto simp: f' map_add_def split: option.splits)
qed

end
