(* ===== verification/Node_Agent.thy ===== *)
theory Node_Agent
  imports Cluster_Registry Remote_Code
begin

text \<open>
  The agent that runs on every machine of a cluster (\<^verbatim>\<open>src/agent/server.py\<close>): ownership of the
  node through a key with an expiry time, the heartbeat, the Ray worker process, and the endpoints
  for invitation, release, draining and deployment. Running a command of the operating system and
  the JSON encoder are parameters. The handlers have no suspension point before their last call of
  the registry (the commands are run synchronously), so each is one step.
\<close>

subsection \<open>State\<close>

datatype DeployState = DP_PENDING | DP_DOWNLOADING | DP_EXTRACTING | DP_SETTING_UP | DP_DEPLOYED | DP_FAILED

record DeployedPackageInfo =
  dp_version :: string
  dp_url :: string
  dp_path :: string
  dp_state :: DeployState
  dp_deployed_at :: time

record AgentState =
  ag_node_id :: string
  ag_host :: string
  ag_port :: int
  ag_instance :: string
  ag_state :: NodeState
  ag_cluster :: string
  ag_head :: string
  ag_resources :: NodeResources
  ag_packages :: "(string \<times> DeployedPackageInfo) list"

definition new_AgentState :: "string \<Rightarrow> string \<Rightarrow> int \<Rightarrow> string \<Rightarrow> AgentState" where
  "new_AgentState node host port inst = \<lparr>ag_node_id = node, ag_host = host, ag_port = port, ag_instance = inst, ag_state = IDLE,
     ag_cluster = [], ag_head = [], ag_resources = new_NodeResources, ag_packages = []\<rparr>"

definition resources_dump :: "NodeResources \<Rightarrow> dict" where
  "resources_dump n = [(''total_cpus'', PInt (nr_total_cpus n)), (''total_memory_mb'', PInt (nr_total_memory_mb n)),
     (''total_gpus'', PInt (nr_total_gpus n)), (''ray_resources_total'', PDict (map (\<lambda>(k, q). (k, PFloat q)) (ray_resources_total n))),
     (''ray_sync_time'', PFloat (ray_sync_time n))]"

definition to_node_info :: "time \<Rightarrow> AgentState \<Rightarrow> dict" where
  "to_node_info now st = [(''node_id'', PStr (ag_node_id st)), (''host'', PStr (ag_host st)), (''agent_port'', PInt (ag_port st)),
     (''state'', PStr (node_state_value (ag_state st))), (''resources'', PDict (resources_dump (ag_resources st))),
     (''cluster_id'', PStr (ag_cluster st)), (''ray_head_address'', PStr (ag_head st)), (''last_heartbeat'', PFloat now), (''registered_at'', PFloat 0)]"

subsection \<open>Ownership\<close>

definition owner_key :: "string \<Rightarrow> string" where
  "owner_key node = ''agent_owner:'' @ node"

definition OWNER_TTL :: int where
  "OWNER_TTL = 30"

definition acquire_ownership :: "redis \<Rightarrow> string \<Rightarrow> string \<Rightarrow> bool \<times> redis" where
  "acquire_ownership r node inst = set_nx r (owner_key node) (RText inst) (Some OWNER_TTL)"

definition lua_renew :: "redis \<Rightarrow> string \<Rightarrow> string \<Rightarrow> int \<Rightarrow> bool \<times> redis" where
  "lua_renew r key i secs = (if get r key = Some (RText i) then (True, expire r key secs) else (False, r))"

definition lua_release :: "redis \<Rightarrow> string \<Rightarrow> string \<Rightarrow> bool \<times> redis" where
  "lua_release r key i = (if get r key = Some (RText i) then (True, delete_key r key) else (False, r))"

definition renew_ownership :: "redis \<Rightarrow> string \<Rightarrow> string \<Rightarrow> bool \<times> redis" where
  "renew_ownership r node inst = lua_renew r (owner_key node) inst OWNER_TTL"

definition release_ownership :: "redis \<Rightarrow> string \<Rightarrow> string \<Rightarrow> bool \<times> redis" where
  "release_ownership r node inst = lua_release r (owner_key node) inst"

text \<open>
  One turn of the heartbeat: whether the loop goes on, the consecutive failures, and the store.
  When a command of Redis raises, the turn ends without effect.
\<close>

definition MAX_RETRIES :: nat where
  "MAX_RETRIES = 3"

definition heartbeat_turn :: "bool \<Rightarrow> bool \<Rightarrow> time \<Rightarrow> AgentState \<Rightarrow> nat \<Rightarrow> redis \<Rightarrow> bool \<times> nat \<times> redis" where
  "heartbeat_turn redis_up has_registry now st failures r =
     (if \<not> redis_up then (True, failures, r)
      else
        (let (ok, r1) = renew_ownership r (ag_node_id st) (ag_instance st);
             (ok2, r2) = (if ok then (True, r1) else acquire_ownership r1 (ag_node_id st) (ag_instance st));
             failures' = (if ok2 then 0 else failures + 1)
         in if \<not> ok2 \<and> failures' \<ge> MAX_RETRIES then (False, failures', r2)
            else (True, failures',
                  if has_registry then heartbeat r2 now (ag_node_id st) (PDict (resources_dump (ag_resources st))) else r2)))"

subsection \<open>The Ray worker\<close>

record 'w agent_env =
  run_cmd :: "string list \<Rightarrow> 'w \<Rightarrow> (string + int) \<times> 'w"
  json_dumps :: "dict \<Rightarrow> string"

text \<open>\<^verbatim>\<open>str(b)\<close> of a byte string that contains a double quote.\<close>

definition hex_digit :: "nat \<Rightarrow> char" where
  "hex_digit n = (if n < 10 then char_of (48 + n) else char_of (87 + n))"

definition escape_byte :: "char \<Rightarrow> string" where
  "escape_byte c = (let n = of_char c :: nat in
     if n = 92 then [c, c] else if n = 39 then [CHR 0x5C, c] else if n = 9 then [CHR 0x5C, CHR ''t'']
     else if n = 10 then [CHR 0x5C, CHR ''n''] else if n = 13 then [CHR 0x5C, CHR ''r'']
     else if n < 32 \<or> n \<ge> 127 then [CHR 0x5C, CHR ''x'', hex_digit (n div 16), hex_digit (n mod 16)] else [c])"

definition bytes_str :: "string \<Rightarrow> string" where
  "bytes_str b = CHR ''b'' # CHR 0x27 # concat (map escape_byte b) @ [CHR 0x27]"

definition ray_is_running :: "('w, 'z) agent_env_scheme \<Rightarrow> 'w \<Rightarrow> bool \<times> 'w" where
  "ray_is_running env w = (case run_cmd env [''ray'', ''status''] w of (res, w1) \<Rightarrow> (res = Inr 0, w1))"

definition ray_start_cmd :: "('w, 'z) agent_env_scheme \<Rightarrow> string \<Rightarrow> dict \<Rightarrow> string list" where
  "ray_start_cmd env head res = [''ray'', ''start'', ''--address='' @ head]
     @ (if res \<noteq> [] then [''--resources='' @ bytes_str (json_dumps env res)] else [])"

definition ray_start :: "('w, 'z) agent_env_scheme \<Rightarrow> string \<Rightarrow> dict \<Rightarrow> 'w \<Rightarrow> bool \<times> 'w" where
  "ray_start env head res w = (case ray_is_running env w of
      (True, w1) \<Rightarrow> (True, w1)
    | (False, w1) \<Rightarrow> (case run_cmd env (ray_start_cmd env head res) w1 of
        (Inr rc, w2) \<Rightarrow> if rc \<noteq> 0 then (False, w2) else ray_is_running env w2
      | (Inl e, w2) \<Rightarrow> (False, w2)))"

definition ray_stop :: "('w, 'z) agent_env_scheme \<Rightarrow> 'w \<Rightarrow> bool \<times> 'w" where
  "ray_stop env w = (case ray_is_running env w of
      (False, w1) \<Rightarrow> (True, w1)
    | (True, w1) \<Rightarrow> (case run_cmd env [''ray'', ''stop''] w1 of (res, w2) \<Rightarrow> (res = Inr 0, w2)))"

subsection \<open>Endpoints\<close>

datatype agent_reply = Accepted | Refused string | Done | HttpError int | InternalError string

definition node_transition :: "NodeState \<Rightarrow> string \<Rightarrow> string \<Rightarrow> AgentState \<Rightarrow> AgentState" where
  "node_transition s cluster head st = st\<lparr>ag_state := s, ag_cluster := cluster, ag_head := head\<rparr>"

text \<open>The call of the registry that ends a handler; an error of it becomes the reply.\<close>

definition notify_registry :: "bool \<Rightarrow> (redis \<Rightarrow> string + redis) \<Rightarrow> agent_reply \<Rightarrow> redis \<Rightarrow> agent_reply \<times> redis" where
  "notify_registry has_registry f reply r =
     (if \<not> has_registry then (reply, r) else case f r of Inl e \<Rightarrow> (InternalError e, r) | Inr r' \<Rightarrow> (reply, r'))"

definition invite :: "('w, 'z) agent_env_scheme \<Rightarrow> bool \<Rightarrow> string \<Rightarrow> string \<Rightarrow> dict \<Rightarrow> AgentState \<times> redis \<times> 'w \<Rightarrow> agent_reply \<times> AgentState \<times> redis \<times> 'w" where
  "invite env has_registry cluster head res s = (case s of (st, r, w) \<Rightarrow>
     if ag_state st \<notin> {IDLE, RESERVED}
     then (Refused (''node in state '' @ node_state_value (ag_state st) @ '', cannot accept invitation''), st, r, w)
     else (let st1 = node_transition JOINING cluster head st; (ok, w1) = ray_start env head res w
           in if \<not> ok then (Refused ''ray start failed'', node_transition IDLE [] [] st1, r, w1)
              else let st2 = st1\<lparr>ag_state := JOINED\<rparr>; (reply, r1) = notify_registry has_registry (\<lambda>r. mark_joined r (ag_node_id st) []) Accepted r
                   in (reply, st2, r1, w1)))"

definition release_node :: "('w, 'z) agent_env_scheme \<Rightarrow> bool \<Rightarrow> AgentState \<times> redis \<times> 'w \<Rightarrow> agent_reply \<times> AgentState \<times> redis \<times> 'w" where
  "release_node env has_registry s = (case s of (st, r, w) \<Rightarrow>
     (let (_, w1) = ray_stop env w; st1 = node_transition IDLE [] [] st;
          (reply, r1) = notify_registry has_registry (\<lambda>r. mark_released r (ag_node_id st)) Done r
      in (reply, st1, r1, w1)))"

definition drain_node :: "bool \<Rightarrow> AgentState \<times> redis \<times> 'w \<Rightarrow> agent_reply \<times> AgentState \<times> redis \<times> 'w" where
  "drain_node has_registry s = (case s of (st, r, w) \<Rightarrow>
     if ag_state st \<noteq> JOINED then (HttpError 400, st, r, w)
     else (let st1 = st\<lparr>ag_state := DRAINING\<rparr>; (reply, r1) = notify_registry has_registry (\<lambda>r. mark_draining r (ag_node_id st)) Done r
           in (reply, st1, r1, w)))"

record DeployRequest =
  rq_url :: string
  rq_name :: string
  rq_version :: string
  rq_checksum :: string

text \<open>A deployment fetches with private addresses allowed; the cache is the directory of the machine.\<close>

definition deploy :: "('w, 'z) fetch_env_scheme \<Rightarrow> (nat \<Rightarrow> string option) \<Rightarrow> time \<Rightarrow> DeployRequest \<Rightarrow>
    AgentState \<times> (string \<times> cache_entry) list \<times> 'w \<Rightarrow> (artifact_error + string) \<times> AgentState \<times> (string \<times> cache_entry) list \<times> 'w" where
  "deploy env fault now req s = (case s of (st, es, w) \<Rightarrow>
     (let info = \<lparr>dp_version = rq_version req, dp_url = rq_url req, dp_path = [], dp_state = DP_DOWNLOADING, dp_deployed_at = 0\<rparr>;
          set_info = (\<lambda>i. st\<lparr>ag_packages := AList.update (rq_name req) i (ag_packages st)\<rparr>)
      in case fetch_artifact env fault now (rq_url req) (if rq_checksum req = [] then None else Some (rq_checksum req)) (new_fetcher 1024 50 True es) w of
           (Inr dir, f, w1) \<Rightarrow> (Inr dir, set_info (info\<lparr>dp_path := dir, dp_state := DP_DEPLOYED, dp_deployed_at := now\<rparr>), cache_entries f, w1)
         | (Inl e, f, w1) \<Rightarrow> (Inl e, set_info (info\<lparr>dp_state := DP_FAILED\<rparr>), cache_entries f, w1)))"

definition undeploy :: "string \<Rightarrow> AgentState \<Rightarrow> AgentState" where
  "undeploy name st = st\<lparr>ag_packages := AList.delete name (ag_packages st)\<rparr>"

text \<open>Startup and shutdown of the application.\<close>

definition start_agent :: "bool \<Rightarrow> time \<Rightarrow> AgentState \<Rightarrow> redis \<Rightarrow> (string + bool) \<times> redis" where
  "start_agent has_registry now st r =
     (let (ok, r1) = acquire_ownership r (ag_node_id st) (ag_instance st)
      in if \<not> has_registry then (Inr ok, r1)
         else case register_node r1 now (to_node_info now st) of Inl e \<Rightarrow> (Inl e, r1) | Inr r2 \<Rightarrow> (Inr ok, r2))"

definition stop_agent :: "AgentState \<Rightarrow> redis \<Rightarrow> redis" where
  "stop_agent st r = (if ag_state st \<in> {IDLE, RESERVED} then snd (release_ownership r (ag_node_id st) (ag_instance st)) else r)"

subsection \<open>Ownership is exclusive\<close>

text \<open>
  The successful operations on the key of a node by any number of agents, and its expiry; the rest
  of the store may change in any way.
\<close>

datatype own_event = Acquired string | Renewed string | Released string | Expired

inductive own_run :: "string \<Rightarrow> redis \<Rightarrow> own_event list \<Rightarrow> bool" for node where
  begins: "get r (owner_key node) = None \<Longrightarrow> own_run node r []"
| acquires: "own_run node r h \<Longrightarrow> acquire_ownership r node i = (True, r') \<Longrightarrow> own_run node r' (h @ [Acquired i])"
| renews: "own_run node r h \<Longrightarrow> renew_ownership r node i = (True, r') \<Longrightarrow> own_run node r' (h @ [Renewed i])"
| releases: "own_run node r h \<Longrightarrow> release_ownership r node i = (True, r') \<Longrightarrow> own_run node r' (h @ [Released i])"
| expires: "own_run node r h \<Longrightarrow> own_run node (evict r (owner_key node)) (h @ [Expired])"
| elsewhere: "own_run node r h \<Longrightarrow> get r' (owner_key node) = get r (owner_key node) \<Longrightarrow> own_run node r' h"

fun owner_after :: "string option \<Rightarrow> own_event \<Rightarrow> string option" where
  "owner_after ow (Acquired i) = Some i"
| "owner_after ow (Renewed i) = ow"
| "owner_after ow (Released i) = None"
| "owner_after ow Expired = None"

definition owner_in :: "own_event list \<Rightarrow> string option" where
  "owner_in h = foldl owner_after None h"

lemma owner_in_snoc [simp]: "owner_in (h @ [e]) = owner_after (owner_in h) e"
  by (simp add: owner_in_def)

lemma owner_key_holds:
  "own_run node r h \<Longrightarrow> get r (owner_key node) = map_option RText (owner_in h)"
proof (induction rule: own_run.induct)
  case (acquires r h i r')
  then show ?case by (auto simp: acquire_ownership_def set_nx_def set_ex_def get_def split: if_splits)
next
  case (renews r h i r')
  then show ?case by (auto simp: renew_ownership_def lua_renew_def store_simps split: if_splits)
next
  case (releases r h i r')
  then show ?case by (auto simp: release_ownership_def lua_release_def store_simps split: if_splits)
qed (simp_all add: owner_in_def store_simps)

lemma owner_since:
  "owner_in h = Some i \<Longrightarrow> \<exists>h1 h2. h = h1 @ Acquired i # h2 \<and> (\<forall>e \<in> set h2. \<exists>j. e = Renewed j)"
proof (induction h rule: rev_induct)
  case Nil
  then show ?case by (simp add: owner_in_def)
next
  case (snoc e h)
  show ?case
  proof (cases e)
    case (Acquired j)
    then have "h @ [e] = h @ Acquired i # []" using snoc.prems by simp
    then show ?thesis by (metis list.set(1) empty_iff)
  next
    case (Renewed j)
    then obtain h1 h2 where "h = h1 @ Acquired i # h2" "\<forall>e \<in> set h2. \<exists>j. e = Renewed j" using snoc by auto
    then have "h @ [e] = h1 @ Acquired i # (h2 @ [e])" "\<forall>e \<in> set (h2 @ [e]). \<exists>j. e = Renewed j" using Renewed by auto
    then show ?thesis by blast
  qed (use snoc.prems in auto)
qed

text \<open>
  C25. Ownership of a node is exclusive, in every interleaving of any number of agents and expiry:
  renewing and releasing succeed exactly for the instance that acquired last, and since then nobody
  else acquired; acquiring succeeds exactly when the last owner released the node or its key expired.
\<close>

theorem ownership_exclusive:
  assumes "own_run node r h"
  shows "(fst (renew_ownership r node i) \<longleftrightarrow> owner_in h = Some i) \<and> (fst (release_ownership r node i) \<longleftrightarrow> owner_in h = Some i)
    \<and> (fst (acquire_ownership r node i) \<longleftrightarrow> owner_in h = None)
    \<and> (owner_in h = Some i \<longrightarrow> (\<exists>h1 h2. h = h1 @ Acquired i # h2 \<and> (\<forall>e \<in> set h2. \<exists>j. e = Renewed j)))"
proof -
  have "get r (owner_key node) = Some (RText i) \<longleftrightarrow> owner_in h = Some i" "get r (owner_key node) = None \<longleftrightarrow> owner_in h = None"
    using owner_key_holds [OF assms] by auto
  then show ?thesis using owner_since
    by (auto simp: renew_ownership_def lua_renew_def release_ownership_def lua_release_def acquire_ownership_def set_nx_def get_def)
qed

theorem ownership_exclusive_witness:
  "\<not> fst (acquire_ownership (snd (acquire_ownership empty_redis ''n'' ''a'')) ''n'' ''b'')
   \<and> fst (renew_ownership (snd (acquire_ownership empty_redis ''n'' ''a'')) ''n'' ''a'')"
proof -
  have s: "own_run ''n'' empty_redis []" by (rule own_run.begins) (simp add: get_def empty_redis_def)
  have a: "acquire_ownership empty_redis ''n'' ''a'' = (True, snd (acquire_ownership empty_redis ''n'' ''a''))"
    by (simp add: acquire_ownership_def set_nx_def empty_redis_def)
  note run = own_run.acquires [OF s a]
  show ?thesis
    using ownership_exclusive [OF run, of "''a''"] ownership_exclusive [OF run, of "''b''"] by (simp add: owner_in_def)
qed

subsection \<open>The heartbeat\<close>

lemma owner_key_reg: "owner_key node \<noteq> make_key node_reg t n"
  by (simp add: owner_key_def make_key_def node_reg_def new_registry_def)

lemma heartbeat_keeps_owner: "get (heartbeat r now n res) (owner_key node) = get r (owner_key node)"
  using owner_key_reg [of node global_tenant n]
  by (auto simp: heartbeat_def store_simps split: node_item.splits sum.splits)

fun heartbeats :: "bool \<Rightarrow> time list \<Rightarrow> AgentState \<Rightarrow> nat \<Rightarrow> redis \<Rightarrow> bool \<times> nat \<times> redis" where
  "heartbeats reg [] st n r = (True, n, r)"
| "heartbeats reg (t # ts) st n r = (case heartbeat_turn True reg t st n r of
     (True, n', r') \<Rightarrow> heartbeats reg ts st n' r' | (False, n', r') \<Rightarrow> (False, n', r'))"

lemma foreign_turn:
  assumes "get r (owner_key (ag_node_id st)) = Some (RText j)" and "j \<noteq> ag_instance st"
  shows "\<exists>r'. heartbeat_turn True reg t st n r = (n + 1 < MAX_RETRIES, n + 1, r') \<and> get r' (owner_key (ag_node_id st)) = Some (RText j)"
proof (cases "n + 1 < MAX_RETRIES")
  case True
  then show ?thesis using assms heartbeat_keeps_owner [of r t]
    by (auto simp: heartbeat_turn_def renew_ownership_def lua_renew_def acquire_ownership_def set_nx_def get_def)
next
  case False
  then show ?thesis using assms
    by (auto simp: heartbeat_turn_def renew_ownership_def lua_renew_def acquire_ownership_def set_nx_def get_def)
qed

text \<open>
  An agent whose node belongs to another instance gives up: from a fresh count its heartbeat
  ends in the third turn, never takes the node, and an agent that owns its node or finds it free
  always goes on, with its count reset.
\<close>

theorem heartbeat_yields:
  assumes "get r (owner_key (ag_node_id st)) = ow" and "length ts \<ge> 3"
  shows "case ow of
      Some (RText j) \<Rightarrow> if j = ag_instance st then fst (heartbeat_turn True reg t st n r) \<and> fst (snd (heartbeat_turn True reg t st n r)) = 0
        else (\<exists>r'. heartbeats reg ts st 0 r = (False, 3, r') \<and> get r' (owner_key (ag_node_id st)) = Some (RText j))
    | None \<Rightarrow> (\<exists>r'. heartbeat_turn True reg t st n r = (True, 0, r') \<and> get r' (owner_key (ag_node_id st)) = Some (RText (ag_instance st)))
    | _ \<Rightarrow> True"
proof (cases ow)
  case None
  then have "acquire_ownership r (ag_node_id st) (ag_instance st) = (True, set_ex r (owner_key (ag_node_id st)) (RText (ag_instance st)) (Some OWNER_TTL))"
    using assms(1) by (simp add: acquire_ownership_def set_nx_def get_def)
  then show ?thesis using None assms(1)
    by (simp add: heartbeat_turn_def renew_ownership_def lua_renew_def heartbeat_keeps_owner store_simps)
next
  case (Some v)
  show ?thesis
  proof (cases v)
    case (RText j)
    show ?thesis
    proof (cases "j = ag_instance st")
      case True
      then show ?thesis using Some RText assms(1) by (simp add: heartbeat_turn_def renew_ownership_def lua_renew_def)
    next
      case False
      obtain t1 t2 t3 us where ts: "ts = t1 # t2 # t3 # us" using assms(2) by (metis Suc_le_length_iff numeral_3_eq_3)
      obtain r1 where 1: "heartbeat_turn True reg t1 st 0 r = (True, 1, r1)" "get r1 (owner_key (ag_node_id st)) = Some (RText j)"
        using foreign_turn [OF assms(1) [unfolded Some RText] False, of reg t1 0] by (auto simp: MAX_RETRIES_def)
      obtain r2 where 2: "heartbeat_turn True reg t2 st 1 r1 = (True, 2, r2)" "get r2 (owner_key (ag_node_id st)) = Some (RText j)"
        using foreign_turn [OF 1(2) False, of reg t2 1] by (auto simp: MAX_RETRIES_def)
      obtain r3 where 3: "heartbeat_turn True reg t3 st 2 r2 = (False, 3, r3)" "get r3 (owner_key (ag_node_id st)) = Some (RText j)"
        using foreign_turn [OF 2(2) False, of reg t3 2] by (auto simp: MAX_RETRIES_def)
      show ?thesis using Some RText False 1 2 3 by (simp add: ts)
    qed
  qed (simp_all add: Some)
qed

definition demo_agent :: AgentState where
  "demo_agent = new_AgentState ''n'' ''10.0.0.1'' 9100 ''a''"

theorem heartbeat_yields_witness:
  "\<exists>r'. heartbeats False [0, 10, 20] demo_agent 0 (snd (acquire_ownership empty_redis ''n'' ''b'')) = (False, 3, r')"
proof -
  have g: "get (snd (acquire_ownership empty_redis ''n'' ''b'')) (owner_key (ag_node_id demo_agent)) = Some (RText ''b'')"
    by (simp add: acquire_ownership_def set_nx_def set_ex_def get_def empty_redis_def demo_agent_def new_AgentState_def)
  have "''b'' \<noteq> ag_instance demo_agent" by (simp add: demo_agent_def new_AgentState_def)
  then show ?thesis using heartbeat_yields [OF g, of "[0, 10, 20]" False] by auto
qed

subsection \<open>The agent and the Ray worker\<close>

text \<open>
  What the agent relies on of the command line of Ray, where \<open>joined\<close> is the head that the local
  worker is connected to: \<^verbatim>\<open>ray status\<close> succeeds exactly while a worker runs and changes nothing, a
  start that succeeds joins the given head and one that fails leaves no worker, and a stop that
  succeeds ends the worker.
\<close>

definition ray_ok :: "('w, 'z) agent_env_scheme \<Rightarrow> ('w \<Rightarrow> string option) \<Rightarrow> bool" where
  "ray_ok env joined \<longleftrightarrow>
     (\<forall>w. (fst (run_cmd env [''ray'', ''status''] w) = Inr 0 \<longleftrightarrow> joined w \<noteq> None) \<and> joined (snd (run_cmd env [''ray'', ''status''] w)) = joined w)
   \<and> (\<forall>w head res. joined w = None \<longrightarrow> joined (snd (run_cmd env (ray_start_cmd env head res) w))
        = (if fst (run_cmd env (ray_start_cmd env head res) w) = Inr 0 then Some head else None))
   \<and> (\<forall>w. joined (snd (run_cmd env [''ray'', ''stop''] w)) = (if fst (run_cmd env [''ray'', ''stop''] w) = Inr 0 then None else joined w))"

lemma ray_ok_running:
  assumes "ray_ok env joined" and "ray_is_running env w = (b, w')"
  shows "b \<longleftrightarrow> joined w \<noteq> None" and "joined w' = joined w"
proof -
  have "b = (fst (run_cmd env [''ray'', ''status''] w) = Inr 0)" "w' = snd (run_cmd env [''ray'', ''status''] w)"
    using assms(2) by (auto simp: ray_is_running_def split: prod.splits)
  then show "b \<longleftrightarrow> joined w \<noteq> None" "joined w' = joined w" using assms(1) unfolding ray_ok_def by blast+
qed

lemma ray_start_joins:
  assumes ok: "ray_ok env joined" and none: "joined w = None" and s: "ray_start env head res w = (b, w')"
  shows "joined w' = (if b then Some head else None)"
proof -
  obtain c w1 where r: "ray_is_running env w = (c, w1)" by (metis surj_pair)
  have c: "\<not> c" "joined w1 = None" using ray_ok_running [OF ok r] none by auto
  obtain x w2 where x: "run_cmd env (ray_start_cmd env head res) w1 = (x, w2)" by (metis surj_pair)
  have "joined (snd (run_cmd env (ray_start_cmd env head res) w1))
      = (if fst (run_cmd env (ray_start_cmd env head res) w1) = Inr 0 then Some head else None)"
    using ok c(2) unfolding ray_ok_def by blast
  then have w2: "joined w2 = (if x = Inr 0 then Some head else None)" by (simp add: x)
  show ?thesis
  proof (cases "x = Inr 0")
    case True
    then have v: "ray_is_running env w2 = (b, w')" using s r c(1) x by (simp add: ray_start_def)
    show ?thesis using ray_ok_running [OF ok v] w2 True by simp
  next
    case False
    then have "b = False" "w' = w2" using s r c(1) x by (auto simp: ray_start_def split: sum.splits if_splits)
    then show ?thesis using w2 False by simp
  qed
qed

lemma ray_stop_ends:
  assumes ok: "ray_ok env joined" and s: "ray_stop env w = (True, w')"
  shows "joined w' = None"
proof -
  obtain c w1 where r: "ray_is_running env w = (c, w1)" by (metis surj_pair)
  show ?thesis
  proof (cases c)
    case False
    then show ?thesis using ray_ok_running [OF ok r] s r by (simp add: ray_stop_def)
  next
    case True
    obtain x w2 where x: "run_cmd env [''ray'', ''stop''] w1 = (x, w2)" by (metis surj_pair)
    then have "x = Inr 0" "w' = w2" using s r True by (auto simp: ray_stop_def)
    moreover have "joined (snd (run_cmd env [''ray'', ''stop''] w1)) = (if fst (run_cmd env [''ray'', ''stop''] w1) = Inr 0 then None else joined w1)"
      using ok unfolding ray_ok_def by blast
    ultimately show ?thesis by (simp add: x)
  qed
qed

text \<open>Requests to an agent in any order, where \<^verbatim>\<open>ray stop\<close> succeeds whenever it is run.\<close>

inductive agent_run :: "('w, 'z) agent_env_scheme \<Rightarrow> ('w \<Rightarrow> string option) \<Rightarrow> bool \<Rightarrow> AgentState \<times> redis \<times> 'w \<Rightarrow> bool" for env joined reg where
  starts: "joined w = None \<Longrightarrow> agent_run env joined reg (new_AgentState node host port inst, r, w)"
| invited: "agent_run env joined reg s \<Longrightarrow> invite env reg cluster head res s = (reply, s') \<Longrightarrow> agent_run env joined reg s'"
| released: "agent_run env joined reg s \<Longrightarrow> fst (ray_stop env (snd (snd s))) \<Longrightarrow> release_node env reg s = (reply, s') \<Longrightarrow> agent_run env joined reg s'"
| drained: "agent_run env joined reg s \<Longrightarrow> drain_node reg s = (reply, s') \<Longrightarrow> agent_run env joined reg s'"
| store: "agent_run env joined reg (st, r, w) \<Longrightarrow> agent_run env joined reg (st, r', w)"
| packages: "agent_run env joined reg (st, r, w) \<Longrightarrow> agent_run env joined reg (st\<lparr>ag_packages := ps\<rparr>, r, w)"

definition agrees :: "('w \<Rightarrow> string option) \<Rightarrow> AgentState \<Rightarrow> 'w \<Rightarrow> bool" where
  "agrees joined st w \<longleftrightarrow> (ag_state st = IDLE \<and> joined w = None \<and> ag_cluster st = [] \<and> ag_head st = []
     \<or> ag_state st \<in> {JOINED, DRAINING} \<and> joined w = Some (ag_head st))"

lemma invite_agrees:
  assumes ok: "ray_ok env joined" and inv: "agrees joined st w" and i: "invite env reg cluster head res (st, r, w) = (reply, st', r', w')"
  shows "agrees joined st' w'"
proof (cases "ag_state st = IDLE")
  case True
  then have none: "joined w = None" using inv by (auto simp: agrees_def)
  obtain b w1 where s: "ray_start env head res w = (b, w1)" by (metis surj_pair)
  note j = ray_start_joins [OF ok none s]
  show ?thesis
  proof (cases b)
    case True
    then have "w' = w1" "st' = (node_transition JOINING cluster head st)\<lparr>ag_state := JOINED\<rparr>"
      using i s \<open>ag_state st = IDLE\<close> by (auto simp: invite_def Let_def split: prod.splits)
    then show ?thesis using j True by (simp add: agrees_def node_transition_def)
  next
    case False
    then have "w' = w1" "st' = node_transition IDLE [] [] (node_transition JOINING cluster head st)"
      using i s \<open>ag_state st = IDLE\<close> by (auto simp: invite_def Let_def split: prod.splits)
    then show ?thesis using j False by (simp add: agrees_def node_transition_def)
  qed
next
  case False
  then have "ag_state st \<notin> {IDLE, RESERVED}" using inv by (auto simp: agrees_def)
  then show ?thesis using i inv by (simp add: invite_def)
qed

lemma release_agrees:
  assumes ok: "ray_ok env joined" and stop: "fst (ray_stop env w)" and i: "release_node env reg (st, r, w) = (reply, st', r', w')"
  shows "agrees joined st' w'"
proof -
  obtain w1 where s: "ray_stop env w = (True, w1)" using stop by (cases "ray_stop env w") auto
  then have "w' = w1" "st' = node_transition IDLE [] [] st"
    using i by (auto simp: release_node_def Let_def split: prod.splits)
  then show ?thesis using ray_stop_ends [OF ok s] by (simp add: agrees_def node_transition_def)
qed

text \<open>
  C30. The agent knows its worker: as long as stopping Ray succeeds, whatever requests come in
  whatever order, the agent is idle, joined or draining, it is idle exactly when no worker runs, and
  a running worker is connected to the head that the agent recorded.
\<close>

theorem agent_ray_agrees:
  assumes "ray_ok env joined" and "agent_run env joined reg (st, r, w)"
  shows "agrees joined st w"
proof -
  have "agrees joined (fst s) (snd (snd s))" if "agent_run env joined reg s" for s
    using that
  proof (induction rule: agent_run.induct)
    case (starts w node host port inst r)
    then show ?case by (simp add: agrees_def new_AgentState_def)
  next
    case (invited s cluster head res reply s')
    then show ?case using invite_agrees [OF assms(1)] by (cases s; cases s') fastforce
  next
    case (released s reply s')
    then show ?case using release_agrees [OF assms(1)] by (cases s; cases s') fastforce
  next
    case (drained s reply s')
    then show ?case by (cases s) (auto simp: drain_node_def agrees_def Let_def split: if_splits prod.splits)
  qed (simp_all add: agrees_def)
  from this [OF assms(2)] show ?thesis by simp
qed

text \<open>A machine on which the commands of Ray always work, for the witness.\<close>

definition demo_ray :: "string option agent_env" where
  "demo_ray = \<lparr>run_cmd = (\<lambda>cmd w. if cmd = [''ray'', ''status''] then (Inr (if w = None then 1 else 0), w)
      else if cmd = [''ray'', ''stop''] then (Inr 0, None)
      else (case w of None \<Rightarrow> (Inr 0, Some (drop 10 (cmd ! 2))) | Some h \<Rightarrow> (Inr 1, w))), json_dumps = (\<lambda>_. [])\<rparr>"

lemma demo_ray_ok: "ray_ok demo_ray (\<lambda>w. w)"
  by (simp add: ray_ok_def demo_ray_def ray_start_cmd_def)

theorem agent_ray_agrees_witness:
  "\<exists>st r w. invite demo_ray False ''c1'' ''h:6379'' [] (demo_agent, empty_redis, None) = (Accepted, st, r, w)
     \<and> agrees (\<lambda>w. w) st w \<and> ag_state st = JOINED \<and> w = Some ''h:6379''"
proof -
  have a: "agent_run demo_ray (\<lambda>w. w) False (demo_agent, empty_redis, None)"
    unfolding demo_agent_def by (rule agent_run.starts) simp
  let ?st = "demo_agent\<lparr>ag_state := JOINED, ag_cluster := ''c1'', ag_head := ''h:6379''\<rparr>"
  have i: "invite demo_ray False ''c1'' ''h:6379'' [] (demo_agent, empty_redis, None) = (Accepted, ?st, empty_redis, Some ''h:6379'')"
    by (simp add: invite_def demo_agent_def new_AgentState_def demo_ray_def ray_start_def ray_is_running_def ray_start_cmd_def
        node_transition_def notify_registry_def Let_def)
  have "agrees (\<lambda>w. w) ?st (Some ''h:6379'')" by (rule agent_ray_agrees [OF demo_ray_ok agent_run.invited [OF a i]])
  then show ?thesis using i by auto
qed

subsection \<open>Where the agent goes wrong\<close>


definition stuck_ray :: "string agent_env" where
  "stuck_ray = \<lparr>run_cmd = (\<lambda>cmd w. (Inr (if cmd = [''ray'', ''status''] then 0 else 1), w)), json_dumps = (\<lambda>_. [])\<rparr>"


text \<open>
  The registry rejects every change of state of a node that it can read, so that an accepted
  invitation of a registered node is answered by an error. The resources are passed as the text of
  a byte string, never as the JSON document. An agent without the ownership registers its node all
  the same, and a node that an agent registers offers no GPU and has no time of registration.
\<close>

lemma invite_answers_error:
  assumes "get_node r (ag_node_id st) = Some i" and "ag_state st = IDLE" and "ray_start env head res w = (True, w')"
  shows "\<exists>st'. invite env True cluster head res (st, r, w) = (InternalError ''TypeError'', st', r, w') \<and> ag_state st' = JOINED"
  using assms node_state_frozen(2) [OF assms(1)] by (simp add: invite_def notify_registry_def Let_def)

lemma resources_never_json:
  assumes "res \<noteq> []" and "json_dumps env res \<noteq> [] \<Longrightarrow> hd (json_dumps env res) = CHR ''{''"
  shows "ray_start_cmd env head res ! 3 \<noteq> ''--resources='' @ json_dumps env res"
  using assms by (cases "json_dumps env res") (auto simp: ray_start_cmd_def bytes_str_def)

lemma unowned_agent_registers:
  assumes "get r (owner_key (ag_node_id st)) = Some v"
  shows "\<exists>r'. start_agent True now st r = (Inr False, r') \<and> zscore r' heartbeat_zset (RText (ag_node_id st)) = Some now"
  using assms by (simp add: start_agent_def acquire_ownership_def set_nx_def get_def register_node_def to_node_info_def store_simps Let_def)

lemma agent_node_without_gpus:
  assumes "start_agent True now (new_AgentState node host port inst) r = (Inr ok, r')"
  shows "\<exists>i. get_node r' node = Some i \<and> get_effective_gpus (node_resources i) = 0"
proof -
  have v: "validate_node (PDict (dict_set (to_node_info now (new_AgentState node host port inst)) ''last_heartbeat'' (PFloat now)))
      = Some \<lparr>node_id = node, node_state = IDLE, node_resources = new_NodeResources, node_host = host, node_agent_port = port\<rparr>"
    by (simp add: validate_node_def to_node_info_def new_AgentState_def resources_dump_def new_NodeResources_def validate_resources_def
        str_field_def int_field_def dict_get_def dict_set_def node_state_of_def)
  have "reg_get node_reg r' global_tenant node = PDict (dict_set (to_node_info now (new_AgentState node host port inst)) ''last_heartbeat'' (PFloat now))"
    using assms by (auto simp: start_agent_def register_node_def to_node_info_def new_AgentState_def Let_def reg_get_def reg_set_def json_loads_def store_simps
        split: prod.splits)
  then show ?thesis using v by (simp add: get_node_def get_effective_gpus_def is_ray_synced_def new_NodeResources_def)
qed

end
