(* ===== verification/Lifecycle.thy ===== *)
theory Lifecycle
  imports Scheduler_Prelude "HOL-Library.Multiset"
begin

text \<open>
  Startup and shutdown of the background services (\<^verbatim>\<open>src/common/lifecycle.py\<close>): registration,
  starting in order of registration, and stopping in phases with a period to drain. Starting and
  stopping a resource and sleeping are parameters; an exception of a resource is logged only.
\<close>

record ManagedResource =
  rs_name :: string
  rs_type :: string
  rs_phase :: "int option"

definition PHASE_CONSUMER :: int where "PHASE_CONSUMER = 10"
definition PHASE_PROCESSOR :: int where "PHASE_PROCESSOR = 20"
definition PHASE_SCHEDULER :: int where "PHASE_SCHEDULER = 30"
definition PHASE_OTHER :: int where "PHASE_OTHER = 40"

text \<open>A subclass has the type and the phase of the base class unless it overrides them.\<close>

definition managed :: "string \<Rightarrow> ManagedResource" where
  "managed n = \<lparr>rs_name = n, rs_type = ''generic'', rs_phase = Some PHASE_OTHER\<rparr>"

definition TaskReconcilerResource :: ManagedResource where
  "TaskReconcilerResource = (managed ''TaskReconciler'')\<lparr>rs_phase := Some PHASE_PROCESSOR\<rparr>"

definition CronSchedulerResource :: ManagedResource where
  "CronSchedulerResource = (managed ''CronScheduler'')\<lparr>rs_phase := Some PHASE_SCHEDULER\<rparr>"

definition CompensationServiceResource :: ManagedResource where
  "CompensationServiceResource = (managed ''CompensationService'')\<lparr>rs_phase := Some PHASE_PROCESSOR\<rparr>"

definition CallbackDispatcherResource :: ManagedResource where
  "CallbackDispatcherResource = (managed ''CallbackDispatcher'')\<lparr>rs_phase := Some PHASE_PROCESSOR\<rparr>"

record LifecycleManager =
  lm_resources :: "ManagedResource list"
  lm_started :: bool
  lm_stopping :: bool

definition new_LifecycleManager :: LifecycleManager where
  "new_LifecycleManager = \<lparr>lm_resources = [], lm_started = False, lm_stopping = False\<rparr>"

record 'w lifecycle_env =
  start_res :: "ManagedResource \<Rightarrow> 'w \<Rightarrow> (string + unit) \<times> 'w"
  stop_res :: "ManagedResource \<Rightarrow> 'w \<Rightarrow> (string + unit) \<times> 'w"
  drain_sleep :: "rat \<Rightarrow> 'w \<Rightarrow> 'w"

definition register_resource :: "ManagedResource \<Rightarrow> LifecycleManager \<Rightarrow> LifecycleManager" where
  "register_resource rs m = m\<lparr>lm_resources := lm_resources m @ [rs]\<rparr>"

definition start_each :: "('w, 'z) lifecycle_env_scheme \<Rightarrow> ManagedResource list \<Rightarrow> 'w \<Rightarrow> 'w" where
  "start_each env rss w = foldl (\<lambda>w rs. snd (start_res env rs w)) w rss"

definition stop_each :: "('w, 'z) lifecycle_env_scheme \<Rightarrow> ManagedResource list \<Rightarrow> 'w \<Rightarrow> 'w" where
  "stop_each env rss w = foldl (\<lambda>w rs. snd (stop_res env rs w)) w rss"

definition start_all :: "('w, 'z) lifecycle_env_scheme \<Rightarrow> LifecycleManager \<times> 'w \<Rightarrow> LifecycleManager \<times> 'w" where
  "start_all env s = (case s of (m, w) \<Rightarrow>
     if lm_started m then (m, w) else (m\<lparr>lm_started := True\<rparr>, start_each env (lm_resources m) w))"

fun contains :: "string \<Rightarrow> string \<Rightarrow> bool" where
  "contains sub [] \<longleftrightarrow> sub = []"
| "contains sub (c # cs) \<longleftrightarrow> take (length sub) (c # cs) = sub \<or> contains sub cs"

definition infer_phase :: "ManagedResource \<Rightarrow> int" where
  "infer_phase rs =
     (let has = (\<lambda>sub. contains sub (py_lower (rs_type rs)) \<or> contains sub (py_lower (rs_name rs)))
      in if has ''consumer'' then PHASE_CONSUMER
         else if has ''processor'' \<or> has ''executor'' \<or> has ''reconciler'' then PHASE_PROCESSOR
         else if has ''scheduler'' \<or> has ''cron'' then PHASE_SCHEDULER
         else PHASE_OTHER)"

definition phase_of :: "ManagedResource \<Rightarrow> int" where
  "phase_of rs = (case rs_phase rs of None \<Rightarrow> infer_phase rs | Some p \<Rightarrow> p)"

definition stop_all :: "('w, 'z) lifecycle_env_scheme \<Rightarrow> rat \<Rightarrow> LifecycleManager \<times> 'w \<Rightarrow> LifecycleManager \<times> 'w" where
  "stop_all env drain_timeout s = (case s of (m, w) \<Rightarrow>
     if lm_stopping m \<or> \<not> lm_started m then (m, w)
     else
       (let rss = lm_resources m;
            consumers = filter (\<lambda>r. phase_of r = PHASE_CONSUMER) rss;
            processors = filter (\<lambda>r. phase_of r = PHASE_PROCESSOR) rss;
            schedulers = filter (\<lambda>r. phase_of r = PHASE_SCHEDULER) rss;
            others = filter (\<lambda>r. phase_of r \<notin> {PHASE_CONSUMER, PHASE_PROCESSOR, PHASE_SCHEDULER}) rss;
            w1 = stop_each env consumers w;
            w2 = (if consumers \<noteq> [] \<or> processors \<noteq> [] then drain_sleep env drain_timeout w1 else w1);
            w3 = stop_each env processors w2;
            w4 = stop_each env schedulers w3
        in (m\<lparr>lm_started := False, lm_stopping := False\<rparr>, stop_each env others w4)))"

text \<open>The services of the application, in the order in which \<^verbatim>\<open>app_runtime\<close> registers them.\<close>

definition app_manager :: "bool \<Rightarrow> bool \<Rightarrow> bool \<Rightarrow> bool \<Rightarrow> LifecycleManager" where
  "app_manager reconciler cron compensation dispatcher =
     foldl (\<lambda>m (present, rs). if present then register_resource rs m else m) new_LifecycleManager
       [(reconciler, TaskReconcilerResource), (cron, CronSchedulerResource), (compensation, CompensationServiceResource),
        (dispatcher, CallbackDispatcherResource)]"

subsection \<open>Order of shutdown\<close>

text \<open>What happens to the resources, noted beside the world of any environment.\<close>

datatype life_event = Started ManagedResource | Stopped ManagedResource | Drained rat

definition noted :: "'w lifecycle_env \<Rightarrow> ('w \<times> life_event list) lifecycle_env" where
  "noted env = \<lparr>start_res = (\<lambda>rs (w, l). case start_res env rs w of (x, w') \<Rightarrow> (x, w', l @ [Started rs])),
     stop_res = (\<lambda>rs (w, l). case stop_res env rs w of (x, w') \<Rightarrow> (x, w', l @ [Stopped rs])),
     drain_sleep = (\<lambda>t (w, l). (drain_sleep env t w, l @ [Drained t]))\<rparr>"

lemma stop_each_noted: "snd (stop_each (noted env) rss (w, l)) = l @ map Stopped rss"
proof (induction rss arbitrary: w l)
  case (Cons rs rss)
  obtain x w' where "stop_res env rs w = (x, w')" by (metis surj_pair)
  then show ?case using Cons.IH [of w' "l @ [Stopped rs]"] by (simp add: stop_each_def noted_def)
qed (simp add: stop_each_def)

lemma start_each_noted: "snd (start_each (noted env) rss (w, l)) = l @ map Started rss"
proof (induction rss arbitrary: w l)
  case (Cons rs rss)
  obtain x w' where "start_res env rs w = (x, w')" by (metis surj_pair)
  then show ?case using Cons.IH [of w' "l @ [Started rs]"] by (simp add: start_each_def noted_def)
qed (simp add: start_each_def)

text \<open>Four classes by a stable sort.\<close>

definition stop_rank :: "ManagedResource \<Rightarrow> nat" where
  "stop_rank rs = (if phase_of rs = PHASE_CONSUMER then 0 else if phase_of rs = PHASE_PROCESSOR then 1
     else if phase_of rs = PHASE_SCHEDULER then 2 else 3)"

lemma sort_classes:
  fixes f :: "'a \<Rightarrow> nat"
  assumes "\<forall>x \<in> set xs. f x \<le> 3"
  shows "sort_key f xs = filter (\<lambda>x. f x = 0) xs @ filter (\<lambda>x. f x = 1) xs @ filter (\<lambda>x. f x = 2) xs @ filter (\<lambda>x. f x = 3) xs"
proof (rule properties_for_sort_key)
  let ?ys = "filter (\<lambda>x. f x = 0) xs @ filter (\<lambda>x. f x = 1) xs @ filter (\<lambda>x. f x = 2) xs @ filter (\<lambda>x. f x = 3) xs"
  show "mset ?ys = mset xs" using assms
  proof (induction xs)
    case (Cons x xs)
    then have "f x = 0 \<or> f x = 1 \<or> f x = 2 \<or> f x = 3" by auto
    then show ?case using Cons by auto
  qed simp
  have "sorted (map f (filter (\<lambda>x. f x = c) xs))" for c by (induction xs) auto
  then show "sorted (map f ?ys)" by (simp add: sorted_append) auto
  have "filter (\<lambda>x. f k = f x) (filter (\<lambda>x. f x = c) xs) = (if f k = c then filter (\<lambda>x. f k = f x) xs else [])" for c k
    unfolding filter_filter by (cases "f k = c") (auto intro!: filter_cong)
  then show "filter (\<lambda>x. f k = f x) ?ys = filter (\<lambda>x. f k = f x) xs" if "k \<in> set ?ys" for k
    using that by auto
qed

lemma rank_filters:
  "filter (\<lambda>r. phase_of r = PHASE_CONSUMER) rss = filter (\<lambda>r. stop_rank r = 0) rss"
  "filter (\<lambda>r. phase_of r = PHASE_PROCESSOR) rss = filter (\<lambda>r. stop_rank r = 1) rss"
  "filter (\<lambda>r. phase_of r = PHASE_SCHEDULER) rss = filter (\<lambda>r. stop_rank r = 2) rss"
  "filter (\<lambda>r. phase_of r \<notin> {PHASE_CONSUMER, PHASE_PROCESSOR, PHASE_SCHEDULER}) rss = filter (\<lambda>r. stop_rank r = 3) rss"
  by (intro filter_cong refl; simp add: stop_rank_def PHASE_CONSUMER_def PHASE_PROCESSOR_def PHASE_SCHEDULER_def)+


text \<open>Starting is idempotent and starts every resource once, in order of registration.\<close>

lemma start_all_once:
  assumes "\<not> lm_started m"
  shows "\<exists>w'. start_all (noted env) (m, w, l) = (m\<lparr>lm_started := True\<rparr>, w', l @ map Started (lm_resources m))
    \<and> start_all (noted env) (start_all (noted env) (m, w, l)) = start_all (noted env) (m, w, l)"
  using assms start_each_noted [of env "lm_resources m" w l]
  by (cases "start_each (noted env) (lm_resources m) (w, l)") (simp add: start_all_def)

text \<open>
  The services of the application are stopped in the order reconciler, compensation, dispatcher and
  cron scheduler. The inference of a phase from the name never applies to a resource that inherits
  the base class: one that is named a consumer but sets no phase is stopped last.
\<close>

lemma app_shutdown_order:
  "map rs_name (sort_key stop_rank (lm_resources (app_manager True True True True)))
     = [''TaskReconciler'', ''CompensationService'', ''CallbackDispatcher'', ''CronScheduler'']"
  by code_simp

lemma inherited_phase_hides_name: "phase_of (managed n) = PHASE_OTHER" "infer_phase (managed ''TaskConsumer'') = PHASE_CONSUMER"
  by (simp add: phase_of_def managed_def, code_simp)

definition idle_env :: "unit lifecycle_env" where
  "idle_env = \<lparr>start_res = (\<lambda>_ w. (Inr (), w)), stop_res = (\<lambda>_ w. (Inl ''already stopped'', w)), drain_sleep = (\<lambda>_ w. w)\<rparr>"


end
