(* ===== verification/Task_Application.thy ===== *)
theory Task_Application
  imports Task_Creator Api_Auth "HOL-Library.Multiset" "HOL-Library.List_Lexorder" "HOL-Library.Char_ord"
begin

text \<open>
  The task service behind the API (\<^verbatim>\<open>src/services/task_application.py\<close>, \<^verbatim>\<open>task_validation.py\<close>,
  \<^verbatim>\<open>recovery_explainer.py\<close> and the routes in \<^verbatim>\<open>src/api/routes/tasks.py\<close>): submission, listing by
  pages, lookup, result, cancellation, and the explanation of a task for recovery. The table of
  tasks is the list of its rows; identifiers are compared bytewise.
\<close>

subsection \<open>Validation\<close>

text \<open>An optional string where only its truth value and its text matter.\<close>

definition str_or_empty :: "string option \<Rightarrow> string" where
  "str_or_empty s = (case s of None \<Rightarrow> [] | Some t \<Rightarrow> t)"

definition bind_sum :: "'e + 'a \<Rightarrow> ('a \<Rightarrow> 'e + 'b) \<Rightarrow> 'e + 'b" where
  "bind_sum x f = (case x of Inl e \<Rightarrow> Inl e | Inr a \<Rightarrow> f a)"

definition validate_task_artifact :: "string option \<Rightarrow> string option \<Rightarrow> bool" where
  "validate_task_artifact url sha \<longleftrightarrow>
     \<not> (str_or_empty url \<noteq> [] \<and> str_or_empty sha \<noteq> [] \<and> length (str_or_empty sha) \<noteq> 64)"

definition validate_task_scheduling :: "string option \<Rightarrow> int option \<Rightarrow> bool" where
  "validate_task_scheduling scheduled_at delay_seconds \<longleftrightarrow> scheduled_at = None \<or> delay_seconds = None"

definition fix_lua_cjson_empty_tables :: "dict \<Rightarrow> dict" where
  "fix_lua_cjson_empty_tables values =
     foldl (\<lambda>d k. if map_of d k = Some (PList []) then dict_set d k (PDict []) else d) values [''input_data'', ''output_data'', ''metadata_json'']"

subsection \<open>Presentation\<close>

definition to_json :: "rval option \<Rightarrow> pyval" where
  "to_json v = (case v of None \<Rightarrow> PDict [] | Some (RJson j) \<Rightarrow> j | Some (RNum n) \<Rightarrow> PInt n | Some (RText _) \<Rightarrow> PDict [])"

record TaskInfo =
  ti_task_id :: string
  ti_tenant_id :: string
  ti_task_type :: string
  ti_status :: TaskStatus
  ti_priority :: TaskPriority
  ti_input_data :: pyval
  ti_output_data :: pyval
  ti_metadata :: pyval
  ti_error_message :: "string option"
  ti_timeout_seconds :: int
  ti_max_retries :: int

fun is_dict :: "pyval \<Rightarrow> bool" where
  "is_dict (PDict d) = True"
| "is_dict _ = False"

text \<open>The three documents must be objects; the schema rejects any other value.\<close>

definition to_task_info :: "TaskRecord \<Rightarrow> http_error + TaskInfo" where
  "to_task_info t =
     (if is_dict (to_json (tr_input_data t)) \<and> is_dict (to_json (tr_output_data t)) \<and> is_dict (to_json (tr_metadata_json t))
      then Inr \<lparr>ti_task_id = tr_task_id t, ti_tenant_id = tr_tenant_id t, ti_task_type = tr_task_type t, ti_status = tr_status t,
        ti_priority = tr_priority t, ti_input_data = to_json (tr_input_data t), ti_output_data = to_json (tr_output_data t),
        ti_metadata = to_json (tr_metadata_json t), ti_error_message = None,
        ti_timeout_seconds = (if tr_timeout_seconds t = 0 then 3600 else tr_timeout_seconds t),
        ti_max_retries = (if tr_max_retries t = 0 then 3 else tr_max_retries t)\<rparr>
      else Inl (HTTPException 500))"

record TaskSummary =
  ts_task_id :: string
  ts_tenant_id :: string
  ts_task_type :: string
  ts_status :: TaskStatus
  ts_cluster_id :: string

definition to_task_summary :: "TaskRecord \<Rightarrow> TaskSummary" where
  "to_task_summary t = \<lparr>ts_task_id = tr_task_id t, ts_tenant_id = tr_tenant_id t, ts_task_type = tr_task_type t, ts_status = tr_status t,
     ts_cluster_id = str_or_empty (tr_cluster_id t)\<rparr>"

subsection \<open>Access, lookup and result\<close>

definition ensure_task_access :: "TaskRecord option \<Rightarrow> string \<Rightarrow> bool \<Rightarrow> http_error + TaskRecord" where
  "ensure_task_access task tenant admin = (case task of
      None \<Rightarrow> Inl (HTTPException 404)
    | Some t \<Rightarrow> if \<not> admin \<and> tr_tenant_id t \<noteq> tenant then Inl (HTTPException 404) else Inr t)"

definition session_get :: "TaskRecord list \<Rightarrow> string \<Rightarrow> TaskRecord option" where
  "session_get rows i = List.find (\<lambda>t. tr_task_id t = i) rows"

definition get_task_record :: "TaskRecord list \<Rightarrow> string \<Rightarrow> string \<Rightarrow> bool \<Rightarrow> http_error + TaskRecord" where
  "get_task_record rows i tenant admin = ensure_task_access (session_get rows i) tenant admin"

definition get_task :: "TaskRecord list \<Rightarrow> string \<Rightarrow> string \<Rightarrow> bool \<Rightarrow> http_error + TaskInfo" where
  "get_task rows i tenant admin = bind_sum (get_task_record rows i tenant admin) to_task_info"

record TaskResult =
  tres_status :: TaskStatus
  tres_output :: pyval
  tres_error :: "string option"

definition get_task_result :: "TaskRecord list \<Rightarrow> string \<Rightarrow> string \<Rightarrow> bool \<Rightarrow> http_error + TaskResult" where
  "get_task_result rows i tenant admin = bind_sum (get_task_record rows i tenant admin) (\<lambda>t.
     if tr_status t \<notin> {COMPLETED, FAILED} then Inl (HTTPException 409)
     else if \<not> is_dict (to_json (tr_output_data t)) then Inl (HTTPException 500)
     else Inr \<lparr>tres_status = tr_status t, tres_output = to_json (tr_output_data t), tres_error = tr_error_message t\<rparr>)"

subsection \<open>Listing\<close>

record TaskListResponse =
  tl_items :: "TaskSummary list"
  tl_next_cursor :: "string option"

definition task_matches :: "string \<Rightarrow> bool \<Rightarrow> TaskStatus option \<Rightarrow> string option \<Rightarrow> TaskRecord \<Rightarrow> bool" where
  "task_matches tenant admin task_status task_type t \<longleftrightarrow> (admin \<or> tr_tenant_id t = tenant)
     \<and> (case task_status of None \<Rightarrow> True | Some s \<Rightarrow> tr_status t = s) \<and> (str_or_empty task_type = [] \<or> task_type = Some (tr_task_type t))"

definition after_cursor :: "string option \<Rightarrow> TaskRecord \<Rightarrow> bool" where
  "after_cursor cursor t \<longleftrightarrow> (str_or_empty cursor = [] \<or> str_or_empty cursor < tr_task_id t)"

definition list_tasks :: "TaskRecord list \<Rightarrow> string \<Rightarrow> bool \<Rightarrow> TaskStatus option \<Rightarrow> string option \<Rightarrow> nat \<Rightarrow> string option \<Rightarrow> TaskListResponse" where
  "list_tasks table tenant admin task_status task_type page cursor =
     (let rows = take (page + 1) (sort_key tr_task_id (filter (after_cursor cursor) (filter (task_matches tenant admin task_status task_type) table)));
          has_more = length rows > page;
          items = take page rows
      in \<lparr>tl_items = map to_task_summary items, tl_next_cursor = (if has_more \<and> items \<noteq> [] then Some (tr_task_id (last items)) else None)\<rparr>)"

subsection \<open>Cancellation\<close>

record TaskCancelResponse =
  tc_cancelled :: bool
  tc_prior :: TaskStatus

definition set_status :: "string \<Rightarrow> TaskStatus \<Rightarrow> TaskRecord list \<Rightarrow> TaskRecord list" where
  "set_status i s rows = map (\<lambda>t. if tr_task_id t = i then t\<lparr>tr_status := s\<rparr> else t) rows"

definition cancel_task :: "TaskRecord list \<Rightarrow> string \<Rightarrow> string \<Rightarrow> bool \<Rightarrow> (http_error + TaskCancelResponse) \<times> TaskRecord list" where
  "cancel_task rows i tenant admin = (case get_task_record rows i tenant admin of
      Inl e \<Rightarrow> (Inl e, rows)
    | Inr t \<Rightarrow>
        if tr_status t \<in> {COMPLETED, FAILED, CANCELLED} then (Inr \<lparr>tc_cancelled = False, tc_prior = tr_status t\<rparr>, rows)
        else case transition (tr_status t) CANCEL of
          Inl e \<Rightarrow> (Inr \<lparr>tc_cancelled = False, tc_prior = tr_status t\<rparr>, rows)
        | Inr tr \<Rightarrow> (Inr \<lparr>tc_cancelled = True, tc_prior = tr_status t\<rparr>, set_status i (current tr) rows))"

subsection \<open>Submission\<close>

record TaskCreate =
  rq_tenant_id :: string
  rq_task_type :: string
  rq_priority :: TaskPriority
  rq_input_data :: dict
  rq_metadata :: dict
  rq_callback_url :: "string option"
  rq_idempotency_key :: "string option"
  rq_timeout_seconds :: int
  rq_max_retries :: int
  rq_scheduled_at :: "string option"
  rq_delay_seconds :: "int option"
  rq_cron_expr :: "string option"
  rq_artifact_url :: "string option"
  rq_artifact_sha256 :: "string option"

text \<open>The constraints that the schema puts on the fields.\<close>

definition valid_TaskCreate :: "TaskCreate \<Rightarrow> bool" where
  "valid_TaskCreate req \<longleftrightarrow> 1 \<le> length (rq_task_type req) \<and> length (rq_task_type req) \<le> 128
     \<and> 1 \<le> rq_timeout_seconds req \<and> rq_timeout_seconds req \<le> 86400 \<and> 0 \<le> rq_max_retries req \<and> rq_max_retries req \<le> 20"

definition opt_val :: "string option \<Rightarrow> pyval" where
  "opt_val s = (case s of None \<Rightarrow> PNone | Some t \<Rightarrow> PStr t)"

definition submit_kwargs :: "TaskCreate \<Rightarrow> dict" where
  "submit_kwargs req =
     [(''task_type'', PStr (rq_task_type req)), (''priority'', PStr (priority_value (rq_priority req))),
      (''input_data'', PDict (rq_input_data req)), (''metadata'', PDict (rq_metadata req)), (''callback_url'', opt_val (rq_callback_url req)),
      (''timeout_seconds'', PInt (rq_timeout_seconds req)), (''max_retries'', PInt (rq_max_retries req)),
      (''cron_expr'', opt_val (rq_cron_expr req)), (''persist_to_db'', PBool True)]
     @ (if str_or_empty (rq_scheduled_at req) \<noteq> [] then [(''scheduled_at'', PStr (str_or_empty (rq_scheduled_at req)))] else [])
     @ (case rq_delay_seconds req of Some d \<Rightarrow> if d \<noteq> 0 then [(''delay_seconds'', PInt d)] else [] | None \<Rightarrow> [])
     @ (if str_or_empty (rq_artifact_url req) \<noteq> [] then [(''artifact_url'', PStr (str_or_empty (rq_artifact_url req)))] else [])
     @ (if str_or_empty (rq_artifact_sha256 req) \<noteq> [] then [(''artifact_sha256'', PStr (str_or_empty (rq_artifact_sha256 req)))] else [])"

record TaskCreateResponse =
  tcr_task_id :: string
  tcr_tenant_id :: string
  tcr_status :: TaskStatus
  tcr_queue_position :: int
  tcr_reused :: bool

definition submit ::
  "TaskCreator \<Rightarrow> (string \<Rightarrow> string) \<Rightarrow> ('w \<Rightarrow> TaskRecord \<Rightarrow> (string + unit) \<times> 'w) \<Rightarrow> ('w \<Rightarrow> TaskRecord list)
   \<Rightarrow> create_env \<Rightarrow> time \<Rightarrow> TaskCreate \<Rightarrow> string \<Rightarrow> QueueManager \<times> 'w \<times> redis
   \<Rightarrow> (create_error + TaskCreateResponse) \<times> QueueManager \<times> 'w \<times> redis" where
  "submit tc sha add_row rows env now req tenant st =
     (if \<not> validate_task_artifact (rq_artifact_url req) (rq_artifact_sha256 req)
         \<or> \<not> validate_task_scheduling (rq_scheduled_at req) (rq_delay_seconds req) then (Inl ValueError, st)
      else case create_task tc sha add_row rows env now tenant (str_or_empty (rq_idempotency_key req)) (submit_kwargs req) st of
        (Inl e, st') \<Rightarrow> (Inl e, st')
      | (Inr res, st') \<Rightarrow> (case transition PENDING ENQUEUE of
          Inl e \<Rightarrow> (Inl ValueError, st')
        | Inr tr \<Rightarrow> (Inr \<lparr>tcr_task_id = cr_task_id res, tcr_tenant_id = tenant, tcr_status = current tr,
            tcr_queue_position = cr_queue_position res, tcr_reused = cr_reused res\<rparr>, st')))"

text \<open>The route \<^verbatim>\<open>POST /tasks\<close>; \<open>None\<close> is an application without a task creator.\<close>

definition create_task_route ::
  "TaskCreator option \<Rightarrow> (string \<Rightarrow> string) \<Rightarrow> ('w \<Rightarrow> TaskRecord \<Rightarrow> (string + unit) \<times> 'w) \<Rightarrow> ('w \<Rightarrow> TaskRecord list)
   \<Rightarrow> create_env \<Rightarrow> time \<Rightarrow> TaskCreate \<Rightarrow> string \<Rightarrow> QueueManager \<times> 'w \<times> redis
   \<Rightarrow> (http_error + TaskCreateResponse) \<times> QueueManager \<times> 'w \<times> redis" where
  "create_task_route creator sha add_row rows env now req ctx_tenant st =
     (let tenant = (if ctx_tenant \<noteq> [] then ctx_tenant else if rq_tenant_id req \<noteq> [] then rq_tenant_id req else ''default'')
      in case creator of
           None \<Rightarrow> (Inl (HTTPException 503), st)
         | Some tc \<Rightarrow> (case submit tc sha add_row rows env now req tenant st of
             (Inr res, st') \<Rightarrow> (Inr res, st')
           | (Inl e, st') \<Rightarrow> (Inl (HTTPException (if e = ValueError then 422 else 500)), st')))"

subsection \<open>Explaining a task\<close>

datatype explain_action = Inspect | ReplayOrRepair | InspectOrReplayCallback
datatype explain_reason = LeaseMissing | RunningWithoutLease | NoInconsistency

record explanation =
  ex_lock :: bool
  ex_cached :: bool
  ex_row :: "(string \<times> int \<times> int) option"
  ex_action :: explain_action
  ex_reasons :: "explain_reason list"

definition explain_task :: "redis option \<Rightarrow> TaskRecord list option \<Rightarrow> string \<Rightarrow> explanation" where
  "explain_task redis db i =
     (let lock = (case redis of None \<Rightarrow> False | Some r \<Rightarrow> exists r (''task_lock:'' @ i));
          cached = (case redis of None \<Rightarrow> False | Some r \<Rightarrow> get r (task_key i) \<noteq> None);
          rs0 = (if redis \<noteq> None \<and> \<not> lock then [LeaseMissing] else []);
          row = Option.bind db (\<lambda>rows. session_get rows i);
          (act, rs1) = (case row of
             None \<Rightarrow> (Inspect, rs0)
           | Some t \<Rightarrow> if tr_status t = RUNNING \<and> redis \<noteq> None \<and> \<not> lock then (ReplayOrRepair, rs0 @ [RunningWithoutLease])
               else if tr_status t \<in> {FAILED, COMPLETED} then (InspectOrReplayCallback, rs0) else (Inspect, rs0))
      in \<lparr>ex_lock = lock, ex_cached = cached, ex_row = map_option (\<lambda>t. (status_value (tr_status t), tr_attempt t, tr_max_retries t)) row,
          ex_action = act, ex_reasons = (if rs1 = [] then [NoInconsistency] else rs1)\<rparr>)"

subsection \<open>Pages\<close>

text \<open>A client that follows the cursor until there is none, for at most \<open>n\<close> requests.\<close>

fun all_pages :: "nat \<Rightarrow> (string option \<Rightarrow> TaskListResponse) \<Rightarrow> string option \<Rightarrow> TaskSummary list option" where
  "all_pages 0 q c = None"
| "all_pages (Suc n) q c = (case tl_next_cursor (q c) of
     None \<Rightarrow> Some (tl_items (q c))
   | Some c' \<Rightarrow> map_option (\<lambda>rest. tl_items (q c) @ rest) (all_pages n q (Some c')))"

definition at_cursor :: "TaskRecord list \<Rightarrow> string option \<Rightarrow> nat \<Rightarrow> bool" where
  "at_cursor l c k \<longleftrightarrow> c = None \<and> k = 0 \<or> 0 < k \<and> k \<le> length l \<and> c = Some (tr_task_id (l ! (k - 1)))"

lemma filter_after_cursor:
  assumes s: "sorted_wrt (<) (map tr_task_id l)" and ne: "\<forall>t \<in> set l. tr_task_id t \<noteq> []" and at: "at_cursor l c k"
  shows "filter (after_cursor c) l = drop k l"
proof (cases "k = 0")
  case True
  then have "c = None" using at by (simp add: at_cursor_def)
  then show ?thesis using True by (simp add: after_cursor_def str_or_empty_def)
next
  case False
  then have k: "0 < k" "k \<le> length l" and c: "c = Some (tr_task_id (l ! (k - 1)))" using at by (auto simp: at_cursor_def)
  have lt: "tr_task_id (l ! i) < tr_task_id (l ! j)" if "i < j" "j < length l" for i j
    using s that by (simp add: sorted_wrt_iff_nth_less)
  have "tr_task_id (l ! (k - 1)) \<noteq> []" using ne k by simp
  then have after: "after_cursor c t \<longleftrightarrow> tr_task_id (l ! (k - 1)) < tr_task_id t" for t by (simp add: after_cursor_def str_or_empty_def c)
  have "\<not> after_cursor c t" if t: "t \<in> set (take k l)" for t
  proof -
    obtain i where i: "i < k" "t = l ! i" using t k by (auto simp: in_set_conv_nth)
    have "i = k - 1 \<or> i < k - 1" using i by linarith
    moreover have "k - 1 < length l" using k by linarith
    ultimately have "\<not> tr_task_id (l ! (k - 1)) < tr_task_id (l ! i)" using lt [of i "k - 1"] by (auto dest: order_less_asym)
    then show ?thesis by (simp add: after i(2))
  qed
  moreover have "after_cursor c t" if t: "t \<in> set (drop k l)" for t
  proof -
    obtain i where i: "k + i < length l" "t = l ! (k + i)" using t k by (auto simp: in_set_conv_nth less_diff_conv add.commute)
    then show ?thesis using lt [of "k - 1" "k + i"] k by (simp add: after)
  qed
  ultimately have "filter (after_cursor c) (take k l @ drop k l) = drop k l"
    by (simp only: filter_append) (simp add: filter_False filter_True)
  then show ?thesis by simp
qed

lemma list_tasks_page:
  assumes l: "l = sort_key tr_task_id (filter (task_matches tenant admin st ty) table)"
    and s: "sorted_wrt (<) (map tr_task_id l)" and ne: "\<forall>t \<in> set l. tr_task_id t \<noteq> []" and at: "at_cursor l c k" and page: "page > 0"
  shows "tl_items (list_tasks table tenant admin st ty page c) = map to_task_summary (take page (drop k l))"
    and "tl_next_cursor (list_tasks table tenant admin st ty page c) =
      (if k + page < length l then Some (tr_task_id (l ! (k + page - 1))) else None)"
proof -
  have rows: "sort_key tr_task_id (filter (after_cursor c) (filter (task_matches tenant admin st ty) table)) = drop k l"
    using filter_after_cursor [OF s ne at] by (simp only: l filter_sort)
  have items: "take page (take (page + 1) (drop k l)) = take page (drop k l)" by (simp only: take_take) simp
  have len: "length (take (page + 1) (drop k l)) > page \<longleftrightarrow> k + page < length l" by (simp only: length_take length_drop) linarith
  have ne': "k + page < length l \<Longrightarrow> take page (drop k l) \<noteq> []" using page by simp
  show "tl_items (list_tasks table tenant admin st ty page c) = map to_task_summary (take page (drop k l))"
    unfolding list_tasks_def Let_def rows items by simp
  have "tr_task_id (last (take page (drop k l))) = tr_task_id (l ! (k + page - 1))" if "k + page < length l"
  proof -
    have "length (take page (drop k l)) = page" using that by simp
    then have "last (take page (drop k l)) = take page (drop k l) ! (page - 1)"
      using page by (metis last_conv_nth length_greater_0_conv)
    also have "\<dots> = l ! (k + (page - 1))" using page that by simp
    finally show ?thesis using page by simp
  qed
  then show "tl_next_cursor (list_tasks table tenant admin st ty page c) =
      (if k + page < length l then Some (tr_task_id (l ! (k + page - 1))) else None)"
    unfolding list_tasks_def Let_def rows items len using ne' by simp
qed

lemma pages_from:
  assumes l: "l = sort_key tr_task_id (filter (task_matches tenant admin st ty) table)"
    and s: "sorted_wrt (<) (map tr_task_id l)" and ne: "\<forall>t \<in> set l. tr_task_id t \<noteq> []" and page: "page > 0"
  shows "at_cursor l c k \<Longrightarrow> length l - k < n \<Longrightarrow>
    all_pages n (list_tasks table tenant admin st ty page) c = Some (map to_task_summary (drop k l))"
proof (induction n arbitrary: c k)
  case (Suc n)
  note p = list_tasks_page [OF l s ne Suc.prems(1) page]
  show ?case
  proof (cases "k + page < length l")
    case True
    have at': "at_cursor l (Some (tr_task_id (l ! (k + page - 1)))) (k + page)" using True page by (simp add: at_cursor_def)
    have "length l - (k + page) < n" using Suc.prems(2) page True by linarith
    from Suc.IH [OF at' this] have "all_pages n (list_tasks table tenant admin st ty page) (Some (tr_task_id (l ! (k + page - 1))))
        = Some (map to_task_summary (drop (k + page) l))" .
    moreover have "take page (drop k l) @ drop (k + page) l = drop k l" by (metis append_take_drop_id add.commute drop_drop)
    ultimately show ?thesis using True p by (simp flip: map_append)
  next
    case False
    then have "take page (drop k l) = drop k l" by simp
    then show ?thesis using False p by simp
  qed
qed simp

lemma sorted_ids:
  assumes "distinct (map tr_task_id table)"
  shows "sorted_wrt (<) (map tr_task_id (sort_key tr_task_id (filter P table)))"
proof -
  let ?l = "sort_key tr_task_id (filter P table)"
  have "distinct (map tr_task_id (filter P table))" using assms by (rule distinct_map_filter)
  moreover have "mset (map tr_task_id ?l) = mset (map tr_task_id (filter P table))" by simp
  ultimately have "distinct (map tr_task_id ?l)" using mset_eq_imp_distinct_iff by blast
  then show ?thesis by (simp add: strict_sorted_iff)
qed


definition demo_table :: "TaskRecord list" where
  "demo_table = [new_TaskRecord ''b'' ''t1'' ''x'' 0, new_TaskRecord ''c'' ''t2'' ''x'' 0, new_TaskRecord ''a'' ''t1'' ''x'' 0]"


subsection \<open>Tenants are kept apart\<close>

lemma session_get_own:
  assumes "distinct (map tr_task_id rows)"
  shows "session_get (filter (\<lambda>t. tr_tenant_id t = tenant) rows) i =
    (case session_get rows i of Some t \<Rightarrow> if tr_tenant_id t = tenant then Some t else None | None \<Rightarrow> None)"
  using assms
proof (induction rows)
  case (Cons t rows)
  have "session_get rows i = None" if "tr_task_id t = i"
    using Cons.prems that by (auto simp: session_get_def find_None_iff) (metis image_eqI)
  then show ?case using Cons by (auto simp: session_get_def)
qed (simp add: session_get_def)

lemma get_task_record_own:
  "distinct (map tr_task_id rows) \<Longrightarrow>
   get_task_record rows i tenant False = get_task_record (filter (\<lambda>t. tr_tenant_id t = tenant) rows) i tenant False"
  by (auto simp: get_task_record_def ensure_task_access_def session_get_own split: option.splits)

lemma session_get_id: "session_get rows i = Some t \<Longrightarrow> tr_task_id t = i \<and> t \<in> set rows"
  by (auto simp: session_get_def find_Some_iff)

text \<open>
  C26. Tenants are kept apart: what a tenant that is no administrator sees of tasks, by lookup,
  result and listing, and the answer to its cancellations, depend only on its own rows, and a
  cancellation leaves the rows of all other tenants as they are.
\<close>

theorem tenants_isolated:
  assumes "distinct (map tr_task_id rows)" and "own = filter (\<lambda>t. tr_tenant_id t = tenant) rows"
  shows "get_task rows i tenant False = get_task own i tenant False
    \<and> get_task_result rows i tenant False = get_task_result own i tenant False
    \<and> list_tasks rows tenant False st ty page c = list_tasks own tenant False st ty page c
    \<and> fst (cancel_task rows i tenant False) = fst (cancel_task own i tenant False)
    \<and> filter (\<lambda>t. tr_tenant_id t \<noteq> tenant) (snd (cancel_task rows i tenant False)) = filter (\<lambda>t. tr_tenant_id t \<noteq> tenant) rows"
proof -
  note rec = get_task_record_own [OF assms(1), of i tenant, folded assms(2)]
  have own: "filter (task_matches tenant False st ty) own = filter (task_matches tenant False st ty) rows"
    unfolding assms(2) filter_filter by (rule filter_cong) (auto simp: task_matches_def)
  have cancel: "filter (\<lambda>t. tr_tenant_id t \<noteq> tenant) (snd (cancel_task rows i tenant False)) = filter (\<lambda>t. tr_tenant_id t \<noteq> tenant) rows"
  proof (cases "snd (cancel_task rows i tenant False) = rows")
    case False
    then obtain t s where t: "session_get rows i = Some t" "tr_tenant_id t = tenant" and r: "snd (cancel_task rows i tenant False) = set_status i s rows"
      by (auto simp: cancel_task_def get_task_record_def ensure_task_access_def split: option.splits sum.splits if_splits)
    have mine: "tr_tenant_id u = tenant" if "u \<in> set rows" "tr_task_id u = i" for u
    proof -
      have "u = t" using that session_get_id [OF t(1)] assms(1) by (auto simp: distinct_map inj_on_def)
      then show ?thesis using t(2) by simp
    qed
    have "filter (\<lambda>t. tr_tenant_id t \<noteq> tenant) (set_status i s us) = filter (\<lambda>t. tr_tenant_id t \<noteq> tenant) us" if "set us \<subseteq> set rows" for us
      using that mine by (induction us) (auto simp: set_status_def)
    then show ?thesis using r by simp
  qed simp
  have "fst (cancel_task rows i tenant False) = fst (cancel_task own i tenant False)"
    unfolding cancel_task_def rec
    by (cases "get_task_record own i tenant False") (simp_all split: sum.split)
  moreover have "get_task rows i tenant False = get_task own i tenant False" unfolding get_task_def rec ..
  moreover have "get_task_result rows i tenant False = get_task_result own i tenant False" unfolding get_task_result_def rec ..
  moreover have "list_tasks rows tenant False st ty page c = list_tasks own tenant False st ty page c" unfolding list_tasks_def own ..
  ultimately show ?thesis using cancel by blast
qed

theorem tenants_isolated_witness:
  "get_task demo_table ''c'' ''t1'' False = Inl (HTTPException 404)
   \<and> list_tasks demo_table ''t1'' False None None 5 None = list_tasks [new_TaskRecord ''b'' ''t1'' ''x'' 0, new_TaskRecord ''a'' ''t1'' ''x'' 0] ''t1'' False None None 5 None"
proof -
  have d: "distinct (map tr_task_id demo_table)" by (simp add: demo_table_def new_TaskRecord_def)
  have own: "[new_TaskRecord ''b'' ''t1'' ''x'' 0, new_TaskRecord ''a'' ''t1'' ''x'' 0] = filter (\<lambda>t. tr_tenant_id t = ''t1'') demo_table"
    by (simp add: demo_table_def new_TaskRecord_def)
  have "get_task [new_TaskRecord ''b'' ''t1'' ''x'' 0, new_TaskRecord ''a'' ''t1'' ''x'' 0] ''c'' ''t1'' False = Inl (HTTPException 404)"
    by (simp add: get_task_def bind_sum_def get_task_record_def ensure_task_access_def session_get_def new_TaskRecord_def)
  then show ?thesis using tenants_isolated [OF d own, of "''c''" None None 5 None] by simp
qed

subsection \<open>Cancellation\<close>

text \<open>Only a queued task can be cancelled, and cancelling changes nothing else.\<close>

lemma cancel_queued_only:
  assumes "session_get rows i = Some t" and "admin \<or> tr_tenant_id t = tenant"
  shows "cancel_task rows i tenant admin = (Inr \<lparr>tc_cancelled = (tr_status t = QUEUED), tc_prior = tr_status t\<rparr>,
    if tr_status t = QUEUED then set_status i CANCELLED rows else rows)"
  using assms by (cases "tr_status t") (auto simp: cancel_task_def get_task_record_def ensure_task_access_def transition_def)

subsection \<open>Submission, end to end\<close>

lemma submit_kwargs_fields [simp]:
  "capability_arg (submit_kwargs req) = PStr (rq_task_type req)"
  "dict_get (submit_kwargs req) ''priority'' x = PStr (priority_value (rq_priority req))"
  "truthy (dict_get (submit_kwargs req) ''persist_to_db'' x)"
  by (simp_all add: submit_kwargs_def capability_arg_def dict_get_def)

lemma submit_delay:
  "dict_get (submit_kwargs req) ''delay_seconds'' PNone = (case rq_delay_seconds req of Some d \<Rightarrow> if d \<noteq> 0 then PInt d else PNone | None \<Rightarrow> PNone)"
  by (simp add: submit_kwargs_def dict_get_def split: option.splits)

lemma submit_execute_after:
  "execute_after now (dict_get (submit_kwargs req) ''delay_seconds'' PNone) =
     Inr (case rq_delay_seconds req of Some d \<Rightarrow> if d > 0 then ms now + d * 1000 else 0 | None \<Rightarrow> 0)"
  by (simp add: submit_delay execute_after_def split: option.splits)

text \<open>
  C20. A submitted task arrives: when the route answers with a task that is new, a row with the tenant,
  the type, the priority and the data of the request and the status that is reported was committed,
  and if the queue accepted it the task waits in the queue of its type with the weight of its
  priority, at once or after the requested delay. Conflicting schedules and malformed checksums are
  answered by 422 without any effect.
\<close>

theorem submission_arrives:
  assumes route: "create_task_route (Some tc) sha add_row rows env now req ctx (qm, w, r) = (res, qm', w', r')" and db: "has_db tc" and ctx: "ctx \<noteq> []"
  shows "case res of
      Inr resp \<Rightarrow> tcr_reused resp \<or> (\<exists>row r1 er. add_row w row = (Inr (), w') \<and> tr_task_id row = tcr_task_id resp \<and> tr_tenant_id row = ctx
          \<and> tr_task_type row = rq_task_type req \<and> tr_status row = tcr_status resp \<and> tr_priority row = rq_priority req
          \<and> tr_input_data row = Some (RJson (PDict (rq_input_data req)))
          \<and> enqueue qm r1 now (rq_task_type req) (tcr_task_id resp) (weight (rq_priority req))
                (case rq_delay_seconds req of Some d \<Rightarrow> if d > 0 then ms now + d * 1000 else 0 | None \<Rightarrow> 0) = (Inr er, qm', r'))
    | Inl e \<Rightarrow> validate_task_scheduling (rq_scheduled_at req) (rq_delay_seconds req) \<and> validate_task_artifact (rq_artifact_url req) (rq_artifact_sha256 req)
        \<or> e = HTTPException 422 \<and> (qm', w', r') = (qm, w, r)"
proof (cases "validate_task_scheduling (rq_scheduled_at req) (rq_delay_seconds req) \<and> validate_task_artifact (rq_artifact_url req) (rq_artifact_sha256 req)")
  case False
  then have "submit tc sha add_row rows env now req ctx (qm, w, r) = (Inl ValueError, qm, w, r)" by (auto simp: submit_def)
  then show ?thesis using route ctx by (auto simp: create_task_route_def)
next
  case valid: True
  obtain x st' where c: "create_task tc sha add_row rows env now ctx (str_or_empty (rq_idempotency_key req)) (submit_kwargs req) (qm, w, r) = (x, st')"
    by (metis surj_pair)
  show ?thesis
  proof (cases x)
    case (Inl e)
    then have "submit tc sha add_row rows env now req ctx (qm, w, r) = (Inl e, st')" using valid c by (simp add: submit_def)
    then show ?thesis using route ctx valid by (auto simp: create_task_route_def)
  next
    case (Inr cr)
    have "submit tc sha add_row rows env now req ctx (qm, w, r) = (Inr \<lparr>tcr_task_id = cr_task_id cr, tcr_tenant_id = ctx, tcr_status = QUEUED,
        tcr_queue_position = cr_queue_position cr, tcr_reused = cr_reused cr\<rparr>, st')"
      using valid c Inr by (simp add: submit_def transition_def)
    then have res: "res = Inr \<lparr>tcr_task_id = cr_task_id cr, tcr_tenant_id = ctx, tcr_status = QUEUED,
        tcr_queue_position = cr_queue_position cr, tcr_reused = cr_reused cr\<rparr>" and st': "st' = (qm', w', r')"
      using route ctx by (simp_all add: create_task_route_def)
    show ?thesis
    proof (cases "cr_reused cr")
      case True
      then show ?thesis by (simp add: res)
    next
      case False
      from create_task_new [OF c [unfolded Inr st'] False] obtain cap ps after r1 er where
        n: "capability_arg (submit_kwargs req) = PStr cap" "dict_get (submit_kwargs req) ''priority'' (PStr ''normal'') = PStr ps"
          "execute_after now (dict_get (submit_kwargs req) ''delay_seconds'' PNone) = Inr after"
        and sto: "store_task tc add_row env now (cr_task_id cr) ctx cap
           (redis_record (cr_task_id cr) ctx cap (priority_map (py_lower ps)) now (submit_kwargs req)) (submit_kwargs req) (w, r) = (Inr (), w', r1)"
        and enq: "enqueue qm r1 now cap (cr_task_id cr) (priority_map (py_lower ps)) after = (Inr er, qm', r')" by metis
      from store_task_durable [OF sto db submit_kwargs_fields(3)] obtain p where
        p: "priority_value (rq_priority req) = priority_value p" "add_row w (db_row (cr_task_id cr) ctx cap p now (submit_kwargs req)) = (Inr (), w')" by auto
      have pe: "p = rq_priority req" using p(1) priority_of_value_Some [of "priority_value p" p] priority_of_value_Some [of "priority_value p" "rq_priority req"] by simp
      let ?row = "db_row (cr_task_id cr) ctx cap p now (submit_kwargs req)"
      have row: "tr_task_id ?row = cr_task_id cr \<and> tr_tenant_id ?row = ctx \<and> tr_task_type ?row = rq_task_type req \<and> tr_status ?row = QUEUED
          \<and> tr_priority ?row = rq_priority req \<and> tr_input_data ?row = Some (RJson (PDict (rq_input_data req)))"
        using n(1) pe by (simp add: db_row_def new_TaskRecord_def) (simp add: submit_kwargs_def dict_get_def)
      have enq': "enqueue qm r1 now (rq_task_type req) (cr_task_id cr) (weight (rq_priority req))
          (case rq_delay_seconds req of Some d \<Rightarrow> if d > 0 then ms now + d * 1000 else 0 | None \<Rightarrow> 0) = (Inr er, qm', r')"
        using enq n pe priority_agree [of "rq_priority req"] by (auto simp: submit_execute_after)
      show ?thesis unfolding res sum.case
        using p(2) row enq' by (intro disjI2 exI [of _ ?row] exI [of _ r1] exI [of _ er]) simp
    qed
  qed
qed

definition demo_request :: TaskCreate where
  "demo_request = \<lparr>rq_tenant_id = [], rq_task_type = ''ocr'', rq_priority = HIGH, rq_input_data = [], rq_metadata = [], rq_callback_url = None,
     rq_idempotency_key = None, rq_timeout_seconds = 60, rq_max_retries = 0, rq_scheduled_at = None, rq_delay_seconds = Some 2, rq_cron_expr = None,
     rq_artifact_url = None, rq_artifact_sha256 = None\<rparr>"

definition demo_route :: "(http_error + TaskCreateResponse) \<times> QueueManager \<times> TaskRecord list \<times> redis" where
  "demo_route = create_task_route (Some \<lparr>has_db = True, has_compensation = False\<rparr>) (\<lambda>s. ''h'') demo_add (\<lambda>w. w) demo_env 5 demo_request ''acme''
     (new_QueueManager None, [], empty_redis)"

theorem submission_arrives_witness:
  "\<exists>resp qm' w' r' row. demo_route = (Inr resp, qm', w', r') \<and> \<not> tcr_reused resp \<and> demo_add [] row = (Inr (), w')
     \<and> tr_tenant_id row = ''acme'' \<and> tr_priority row = HIGH"
proof -
  have ok: "case fst demo_route of Inr resp \<Rightarrow> \<not> tcr_reused resp | Inl e \<Rightarrow> False" by code_simp
  obtain x qm' w' r' where x: "demo_route = (x, qm', w', r')" by (metis prod_cases4)
  obtain resp where resp: "x = Inr resp" "\<not> tcr_reused resp" using ok unfolding x fst_conv by (cases x) simp_all
  note d = x [unfolded resp(1)] and n = resp(2)
  from submission_arrives [OF d [unfolded demo_route_def]] n obtain row where
    "demo_add [] row = (Inr (), w')" "tr_tenant_id row = ''acme''" "tr_priority row = rq_priority demo_request" by auto
  then show ?thesis using d n by (auto simp: demo_request_def)
qed

text \<open>
  A task with a time to run at is queued for now: only the delay is read. A task without retries is
  shown with three. A full queue is answered by 500, where the route documents 503.
\<close>

lemma scheduled_task_runs_now:
  "rq_delay_seconds req = None \<Longrightarrow> execute_after now (dict_get (submit_kwargs req) ''delay_seconds'' PNone) = Inr 0"
  by (simp add: submit_execute_after)

lemma zero_retries_shown_as_three: "tr_max_retries t = 0 \<Longrightarrow> to_task_info t = Inr i \<Longrightarrow> ti_max_retries i = 3"
  by (auto simp: to_task_info_def split: if_splits)

lemma queue_error_answered_500:
  assumes "submit tc sha add_row rows env now req tenant st = (Inl (QueueError e), st')" and "tenant \<noteq> []"
  shows "create_task_route (Some tc) sha add_row rows env now req tenant st = (Inl (HTTPException 500), st')"
  using assms by (simp add: create_task_route_def)

subsection \<open>Explanations\<close>

text \<open>Repair is recommended exactly for a task that is running in the table and has no lease in Redis.\<close>

lemma repair_recommended:
  "ex_action (explain_task redis db i) = ReplayOrRepair \<longleftrightarrow>
     (\<exists>r rows t. redis = Some r \<and> db = Some rows \<and> session_get rows i = Some t \<and> tr_status t = RUNNING \<and> \<not> exists r (''task_lock:'' @ i))"
  by (cases redis; cases db) (auto simp: explain_task_def Let_def split: option.splits prod.splits if_splits)

end
