(* ===== verification/Step_Executors.thy ===== *)
theory Step_Executors
  imports Queue_Control
begin

text \<open>
  The adapters for the execution modes of a step (\<^verbatim>\<open>src/platform/step_executors.py\<close>): a synchronous
  call with retries that adjusts the concurrency of its capability, an asynchronous call that waits
  for a result key, and a call per shard under a semaphore. The dispatch function is a parameter.
\<close>

subsection \<open>Synchronous steps\<close>

type_synonym 'w dispatch = "string \<Rightarrow> string \<Rightarrow> dict \<Rightarrow> 'w \<Rightarrow> (string + dict) \<times> 'w"

definition sync_delay :: "rat \<Rightarrow> nat \<Rightarrow> rat \<Rightarrow> rat" where
  "sync_delay retry_delay attempt u = (let base = retry_delay * 2 ^ attempt in min (base + u * (base * (1 / 5))) 60)"

text \<open>The concurrency after a failure and after a success; the queue manager may be missing.\<close>

definition lowered :: "QueueManager option \<Rightarrow> string \<Rightarrow> redis \<Rightarrow> redis" where
  "lowered qm cap r = (case qm of None \<Rightarrow> r | Some q \<Rightarrow> snd (adjust_concurrent q r cap (-1) False))"

definition raised :: "QueueManager option \<Rightarrow> string \<Rightarrow> redis \<Rightarrow> redis" where
  "raised qm cap r = (case qm of None \<Rightarrow> r | Some q \<Rightarrow> snd (try_recover_concurrent q r cap))"

text \<open>The attempts that are left.\<close>

fun sync_attempts :: "'w dispatch \<Rightarrow> QueueManager option \<Rightarrow> string \<Rightarrow> string \<Rightarrow> dict \<Rightarrow> nat \<Rightarrow> redis \<Rightarrow> 'w \<Rightarrow> dict option \<times> redis \<times> 'w" where
  "sync_attempts disp qm cap step inp 0 r w = (None, r, w)"
| "sync_attempts disp qm cap step inp (Suc n) r w = (case disp cap step inp w of
     (Inr res, w1) \<Rightarrow> (Some res, raised qm cap r, w1)
   | (Inl e, w1) \<Rightarrow> sync_attempts disp qm cap step inp n (lowered qm cap r) w1)"

definition sync_execute :: "'w dispatch \<Rightarrow> QueueManager option \<Rightarrow> int \<Rightarrow> string \<Rightarrow> string \<Rightarrow> dict \<Rightarrow> redis \<Rightarrow> 'w \<Rightarrow> dict option \<times> redis \<times> 'w" where
  "sync_execute disp qm max_retries cap step inp r w = sync_attempts disp qm cap step inp (nat (max_retries + 1)) r w"

text \<open>A dispatch that answers the n-th call with the n-th of given responses.\<close>

definition answers :: "(nat \<Rightarrow> string + dict) \<Rightarrow> nat dispatch" where
  "answers resp cap step inp n = (resp n, Suc n)"

lemma sync_attempts_fail:
  "\<forall>i < k. \<exists>e. resp (m + i) = Inl e \<Longrightarrow> k \<le> n \<Longrightarrow>
   sync_attempts (answers resp) qm cap step inp n r m = sync_attempts (answers resp) qm cap step inp (n - k) ((lowered qm cap ^^ k) r) (m + k)"
proof (induction k arbitrary: m n r)
  case (Suc k)
  obtain n' where n: "n = Suc n'" using Suc.prems(2) by (cases n) auto
  obtain e where e: "resp m = Inl e" using Suc.prems(1) by (metis add_0_right zero_less_Suc)
  have "\<forall>i < k. \<exists>e. resp (Suc m + i) = Inl e" using Suc.prems(1) by (metis Suc_less_eq add_Suc_shift)
  from Suc.IH [OF this, of n' "lowered qm cap r"] Suc.prems(2) show ?case
    using e by (simp add: n answers_def funpow_swap1)
qed simp

text \<open>
  A synchronous step stops at its first success: it makes one attempt more than its retries at
  most; if one of these succeeds the first success is the result, no further attempt is made, and
  the concurrency of the capability is lowered once per failure and raised once; otherwise the step
  fails after all attempts.
\<close>

theorem sync_step_outcome:
  assumes "max_retries \<ge> 0"
  shows "(\<forall>k res. int k \<le> max_retries \<longrightarrow> resp k = Inr res \<longrightarrow> (\<forall>i < k. \<exists>e. resp i = Inl e) \<longrightarrow>
        sync_execute (answers resp) qm max_retries cap step inp r 0 = (Some res, raised qm cap ((lowered qm cap ^^ k) r), Suc k))
    \<and> ((\<forall>i. int i \<le> max_retries \<longrightarrow> (\<exists>e. resp i = Inl e)) \<longrightarrow>
        sync_execute (answers resp) qm max_retries cap step inp r 0 = (None, (lowered qm cap ^^ nat (max_retries + 1)) r, nat (max_retries + 1)))"
proof (intro conjI allI impI)
  fix k res assume k: "int k \<le> max_retries" "resp k = Inr res" "\<forall>i < k. \<exists>e. resp i = Inl e"
  obtain d where d: "nat (max_retries + 1) - k = Suc d" using k(1) by (metis Suc_diff_le nat_int nat_le_iff nat_mono Suc_nat_eq_nat_zadd1 add.commute assms)
  have "sync_attempts (answers resp) qm cap step inp (nat (max_retries + 1)) r 0
      = sync_attempts (answers resp) qm cap step inp (Suc d) ((lowered qm cap ^^ k) r) k"
    using sync_attempts_fail [of k resp 0 "nat (max_retries + 1)"] k d by simp
  then show "sync_execute (answers resp) qm max_retries cap step inp r 0 = (Some res, raised qm cap ((lowered qm cap ^^ k) r), Suc k)"
    using k(2) by (simp add: sync_execute_def answers_def)
next
  assume all: "\<forall>i. int i \<le> max_retries \<longrightarrow> (\<exists>e. resp i = Inl e)"
  have "\<forall>i < nat (max_retries + 1). \<exists>e. resp (0 + i) = Inl e" using all by simp
  from sync_attempts_fail [OF this order_refl]
  show "sync_execute (answers resp) qm max_retries cap step inp r 0 = (None, (lowered qm cap ^^ nat (max_retries + 1)) r, nat (max_retries + 1))"
    by (simp add: sync_execute_def)
qed

theorem sync_step_outcome_witness:
  "sync_execute (answers (\<lambda>n. if n < 2 then Inl ''busy'' else Inr [])) None 3 ''ocr'' ''s'' [] empty_redis 0 = (Some [], empty_redis, 3)"
proof -
  have "(lowered None ''ocr'' ^^ 2) empty_redis = empty_redis" by (simp add: lowered_def numeral_2_eq_2)
  then show ?thesis
    using sync_step_outcome [of 3 "\<lambda>n. if n < 2 then Inl ''busy'' else Inr []" None "''ocr''" "''s''" "[]" empty_redis, THEN conjunct1, rule_format, of 2 "[]"]
    by (simp add: raised_def)
qed

lemma sync_delay_bounded: "sync_delay d k u \<le> 60"
  by (simp add: sync_delay_def Let_def)

subsection \<open>Asynchronous steps\<close>

text \<open>
  What one round of the loop observes: the clock, the store when the key is read, whether a message
  came within the poll interval, and the store after it. The loop ends with a result or, at the
  first round after the deadline, with a timeout; \<open>None\<close> is a loop that has not ended.
\<close>

record round =
  rd_now :: time
  rd_before :: redis
  rd_message :: bool
  rd_after :: redis

datatype async_outcome = GotResult pyval | BadResult | TimedOut

definition step_result_key :: "string \<Rightarrow> string \<Rightarrow> string" where
  "step_result_key task step = ''result:'' @ task @ '':'' @ step"

text \<open>A result that is there: an empty text counts as none. \<open>loads\<close> parses it.\<close>

definition read_step_result :: "(rval \<Rightarrow> pyval option) \<Rightarrow> redis \<Rightarrow> string \<Rightarrow> async_outcome option" where
  "read_step_result loads r key = (case get r key of
      None \<Rightarrow> None
    | Some raw \<Rightarrow> if raw = RText [] then None
        else Some (case loads raw of Some v \<Rightarrow> GotResult v | None \<Rightarrow> BadResult))"

fun await_result :: "(rval \<Rightarrow> pyval option) \<Rightarrow> time \<Rightarrow> string \<Rightarrow> round list \<Rightarrow> async_outcome option" where
  "await_result loads deadline key [] = None"
| "await_result loads deadline key (rd # rds) =
     (if rd_now rd \<ge> deadline then Some TimedOut
      else case read_step_result loads (rd_before rd) key of
        Some out \<Rightarrow> Some out
      | None \<Rightarrow> (case (if rd_message rd then read_step_result loads (rd_after rd) key else None) of
            Some out \<Rightarrow> Some out
          | None \<Rightarrow> await_result loads deadline key rds))"

definition async_execute :: "(rval \<Rightarrow> pyval option) \<Rightarrow> 'w dispatch \<Rightarrow> bool \<Rightarrow> time \<Rightarrow> string \<Rightarrow> string \<Rightarrow> dict \<Rightarrow> string \<Rightarrow> time \<Rightarrow> round list \<Rightarrow> 'w
    \<Rightarrow> (string + dict + async_outcome option) \<times> 'w" where
  "async_execute loads disp has_redis timeout cap step inp task now rds w = (case disp cap step inp w of
      (Inl e, w1) \<Rightarrow> (Inl e, w1)
    | (Inr resp, w1) \<Rightarrow> (Inr (if \<not> has_redis then Inl resp else Inr (await_result loads (now + timeout) (step_result_key task step) rds)), w1))"

text \<open>
  A result is not missed: if it is readable at a round before the deadline, the loop ends by then
  and not with a timeout, with or without messages; the loop ends no later than the first round at
  the deadline.
\<close>

lemma read_step_result_not_timeout: "read_step_result loads r key \<noteq> Some TimedOut"
  by (auto simp: read_step_result_def split: option.splits if_splits)

lemma await_finds:
  assumes "\<forall>x \<in> set (rds1 @ [rd]). rd_now x < deadline" and "read_step_result loads (rd_before rd) key \<noteq> None"
  shows "\<exists>out. await_result loads deadline key (rds1 @ rd # rds2) = Some out \<and> out \<noteq> TimedOut"
  using assms(1)
proof (induction rds1)
  case Nil
  then show ?case using assms(2) read_step_result_not_timeout [of loads "rd_before rd" key] by (auto split: option.splits)
next
  case (Cons x rds1)
  then obtain out where "await_result loads deadline key (rds1 @ rd # rds2) = Some out" "out \<noteq> TimedOut" by auto
  then show ?case using Cons.prems read_step_result_not_timeout [of loads "rd_before x" key] read_step_result_not_timeout [of loads "rd_after x" key]
    by (cases "read_step_result loads (rd_before x) key"; cases "read_step_result loads (rd_after x) key"; simp)
qed

lemma await_ends:
  assumes "\<exists>rd \<in> set rds. rd_now rd \<ge> deadline"
  shows "await_result loads deadline key rds \<noteq> None"
  using assms by (induction rds) (auto split: option.splits)

subsection \<open>Steps over shards\<close>

text \<open>
  The tasks of \<^verbatim>\<open>asyncio.gather\<close>: each waits for the semaphore, then dispatches its shard, then has
  its outcome. The semaphore lets \<open>n\<close> tasks in at a time.
\<close>

datatype shard_task = Queued | Dispatched string dict | Ended "string + dict"

definition shard_call :: "string \<Rightarrow> dict \<Rightarrow> pyval list \<Rightarrow> nat \<Rightarrow> shard_task" where
  "shard_call step inp shards i = Dispatched (step @ ''['' @ nat_str i @ '']'')
     (dict_merge inp [(''shard'', shards ! i), (''shard_index'', PInt (int i))])"

definition map_limit :: "nat option \<Rightarrow> nat \<Rightarrow> nat" where
  "map_limit step_limit max_parallelism = (case step_limit of Some n \<Rightarrow> if n = 0 then max_parallelism else n | None \<Rightarrow> max_parallelism)"

definition in_flight :: "shard_task list \<Rightarrow> nat" where
  "in_flight ts = sum_list (map (\<lambda>t. case t of Dispatched _ _ \<Rightarrow> 1 | _ \<Rightarrow> 0) ts)"

inductive shard_step :: "string \<Rightarrow> dict \<Rightarrow> pyval list \<Rightarrow> nat \<Rightarrow> (nat \<Rightarrow> string + dict) \<Rightarrow> shard_task list \<Rightarrow> shard_task list \<Rightarrow> bool"
  for step inp shards n disp where
  enter: "i < length ts \<Longrightarrow> ts ! i = Queued \<Longrightarrow> in_flight ts < n \<Longrightarrow> shard_step step inp shards n disp ts (ts[i := shard_call step inp shards i])"
| leave: "i < length ts \<Longrightarrow> ts ! i = shard_call step inp shards i \<Longrightarrow> shard_step step inp shards n disp ts (ts[i := Ended (disp i)])"

definition shard_start :: "pyval list \<Rightarrow> shard_task list" where
  "shard_start shards = replicate (length shards) Queued"

fun gather :: "shard_task list \<Rightarrow> (string + dict) list option" where
  "gather [] = Some []"
| "gather (Ended r # ts) = map_option ((#) r) (gather ts)"
| "gather (_ # ts) = None"

definition shard_errors :: "(string + dict) list \<Rightarrow> string list" where
  "shard_errors rs = concat (map (\<lambda>(i, r). case r of Inl e \<Rightarrow> [''shard['' @ nat_str i @ '']: '' @ e] | Inr _ \<Rightarrow> []) (List.enumerate 0 rs))"

definition shard_values :: "(string + dict) list \<Rightarrow> dict list" where
  "shard_values rs = concat (map (\<lambda>r. case r of Inl _ \<Rightarrow> [] | Inr d \<Rightarrow> [d]) rs)"

definition map_result :: "(string + dict) list \<Rightarrow> string list + dict list" where
  "map_result rs = (if shard_errors rs \<noteq> [] then Inl (shard_errors rs) else Inr (shard_values rs))"

definition shard_inv :: "string \<Rightarrow> dict \<Rightarrow> pyval list \<Rightarrow> nat \<Rightarrow> (nat \<Rightarrow> string + dict) \<Rightarrow> shard_task list \<Rightarrow> bool" where
  "shard_inv step inp shards n disp ts \<longleftrightarrow> length ts = length shards \<and> in_flight ts \<le> n
     \<and> (\<forall>i < length ts. ts ! i \<in> {Queued, shard_call step inp shards i, Ended (disp i)})"

lemma in_flight_update:
  "i < length ts \<Longrightarrow> in_flight (ts[i := t]) + in_flight [ts ! i] = in_flight ts + in_flight [t]"
  by (induction ts arbitrary: i) (auto simp: in_flight_def nth_Cons split: nat.splits)

lemma in_flight_call [simp]: "in_flight [shard_call step inp shards i] = 1"
  by (simp add: in_flight_def shard_call_def)

lemma in_flight_other [simp]: "in_flight [Queued] = 0" "in_flight [Ended r] = 0"
  by (simp_all add: in_flight_def)

lemma shard_step_inv:
  assumes "shard_step step inp shards n disp ts ts'" and "shard_inv step inp shards n disp ts"
  shows "shard_inv step inp shards n disp ts'"
  using assms
proof (cases rule: shard_step.cases)
  case (enter i)
  then have "in_flight ts' = in_flight ts + 1" using in_flight_update [of i ts "shard_call step inp shards i"] by simp
  then show ?thesis using enter assms(2) by (auto simp: shard_inv_def nth_list_update)
next
  case (leave i)
  then have "in_flight ts' \<le> in_flight ts" using in_flight_update [of i ts "Ended (disp i)"] by simp
  then show ?thesis using leave assms(2) by (auto simp: shard_inv_def nth_list_update)
qed

lemma in_flight_start: "in_flight (replicate k Queued) = 0"
  by (simp add: in_flight_def sum_list_replicate)

lemma shard_reachable_inv:
  assumes "(shard_step step inp shards n disp)\<^sup>*\<^sup>* (shard_start shards) ts"
  shows "shard_inv step inp shards n disp ts"
  using assms
proof (induction rule: rtranclp_induct)
  case base
  show ?case by (simp add: shard_inv_def shard_start_def in_flight_start)
qed (rule shard_step_inv)

lemma gather_Some: "gather ts = Some rs \<longleftrightarrow> ts = map Ended rs"
  by (induction ts arbitrary: rs rule: gather.induct) (auto simp: Cons_eq_map_conv)

lemma shard_values_all:
  "\<forall>r \<in> set rs. \<not> isl r \<Longrightarrow> shard_values rs = map projr rs"
  by (induction rs) (auto simp: shard_values_def split: sum.splits)

lemma shard_errors_none: "shard_errors rs = [] \<longleftrightarrow> (\<forall>r \<in> set rs. \<not> isl r)"
proof -
  have one: "(case p of (i, r) \<Rightarrow> case r of Inl e \<Rightarrow> [''shard['' @ nat_str i @ '']: '' @ e] | Inr _ \<Rightarrow> []) = [] \<longleftrightarrow> \<not> isl (snd p)" for p :: "nat \<times> (string + dict)"
    by (cases p; cases "snd p") auto
  have "shard_errors rs = [] \<longleftrightarrow> (\<forall>p \<in> set (List.enumerate 0 rs). \<not> isl (snd p))"
    unfolding shard_errors_def concat_eq_Nil_conv set_map ball_simps(9) one ..
  also have "\<dots> \<longleftrightarrow> (\<forall>r \<in> snd ` set (List.enumerate 0 rs). \<not> isl r)" by simp
  also have "snd ` set (List.enumerate 0 rs) = set rs" by (simp flip: set_map)
  finally show ?thesis .
qed

text \<open>A task that has not ended can always move, if the semaphore lets anyone in.\<close>

lemma shard_progress:
  assumes inv: "shard_inv step inp shards n disp ts" and n: "0 < n" and open_task: "gather ts = None"
  shows "\<exists>ts'. shard_step step inp shards n disp ts ts'"
proof (cases "\<exists>i < length ts. ts ! i = shard_call step inp shards i")
  case True
  then show ?thesis by (blast intro: shard_step.leave)
next
  case False
  have cases: "ts ! i \<in> {Queued, Ended (disp i)}" if "i < length ts" for i
    using inv False that by (auto simp: shard_inv_def)
  have "t = Queued \<or> (\<exists>r. t = Ended r)" if "t \<in> set ts" for t
    using cases that by (metis in_set_conv_nth insertE singletonD)
  then have "in_flight ts = 0"
    unfolding in_flight_def sum_list_eq_0_iff by fastforce
  moreover obtain i where "i < length ts" "ts ! i = Queued"
  proof (rule ccontr)
    assume "\<not> thesis"
    then have "\<forall>i < length ts. ts ! i = Ended (disp i)" using cases that by blast
    then have "ts = map Ended (map disp [0..<length ts])" by (auto intro: nth_equalityI)
    then have "gather ts = Some (map disp [0..<length ts])" by (simp only: gather_Some)
    then show False using open_task by simp
  qed
  ultimately have "shard_step step inp shards n disp ts (ts[i := shard_call step inp shards i])" using n by (intro shard_step.enter) simp_all
  then show ?thesis ..
qed

definition shard_work :: "shard_task list \<Rightarrow> nat" where
  "shard_work ts = sum_list (map (\<lambda>t. case t of Queued \<Rightarrow> 2 | Dispatched _ _ \<Rightarrow> 1 | Ended _ \<Rightarrow> 0) ts)"

lemma shard_work_update:
  "i < length ts \<Longrightarrow> shard_work (ts[i := t]) + shard_work [ts ! i] = shard_work ts + shard_work [t]"
  by (induction ts arbitrary: i) (auto simp: shard_work_def nth_Cons split: nat.splits)

lemma shard_work_one [simp]: "shard_work [Queued] = 2" "shard_work [Ended r] = 0" "shard_work [shard_call step inp shards i] = 1"
  by (simp_all add: shard_work_def shard_call_def)

lemma shard_step_work:
  "shard_step step inp shards n disp ts ts' \<Longrightarrow> shard_work ts' < shard_work ts"
proof (induction rule: shard_step.induct)
  case (enter i ts)
  then show ?case using shard_work_update [of i ts "shard_call step inp shards i"] by simp
next
  case (leave i ts)
  then show ?case using shard_work_update [of i ts "Ended (disp i)"] by simp
qed

text \<open>
  A step over shards runs every shard once under its own index: in every interleaving at most
  \<open>n\<close> shards are dispatched at a time, each step brings the run closer to its end, a run that has not
  ended can go on when the semaphore has a place, and at the end the results are those of the
  shards in their order, or, if one failed, exactly the errors.
\<close>

theorem map_step_correct:
  assumes "(shard_step step inp shards n disp)\<^sup>*\<^sup>* (shard_start shards) ts"
  shows "in_flight ts \<le> n
    \<and> (\<forall>ts'. shard_step step inp shards n disp ts ts' \<longrightarrow> shard_work ts' < shard_work ts)
    \<and> (0 < n \<and> gather ts = None \<longrightarrow> (\<exists>ts'. shard_step step inp shards n disp ts ts'))
    \<and> (\<forall>rs. gather ts = Some rs \<longrightarrow> rs = map disp [0..<length shards]
        \<and> map_result rs = (if \<forall>i < length shards. \<not> isl (disp i) then Inr (map (projr \<circ> disp) [0..<length shards]) else Inl (shard_errors rs)))"
proof (intro conjI allI impI)
  note inv = shard_reachable_inv [OF assms]
  show "in_flight ts \<le> n" using inv by (simp add: shard_inv_def)
  show "shard_work ts' < shard_work ts" if "shard_step step inp shards n disp ts ts'" for ts'
    using that by (rule shard_step_work)
  show "\<exists>ts'. shard_step step inp shards n disp ts ts'" if open_task: "0 < n \<and> gather ts = None"
    by (rule shard_progress [OF inv]) (simp_all add: open_task)
  fix rs assume "gather ts = Some rs"
  then have ts: "ts = map Ended rs" by (simp add: gather_Some)
  have "\<forall>i < length rs. rs ! i = disp i" using inv by (auto simp: ts shard_inv_def shard_call_def)
  moreover have len: "length rs = length shards" using inv by (simp add: ts shard_inv_def)
  ultimately show rs: "rs = map disp [0..<length shards]" by (auto intro: nth_equalityI)
  show "map_result rs = (if \<forall>i < length shards. \<not> isl (disp i) then Inr (map (projr \<circ> disp) [0..<length shards]) else Inl (shard_errors rs))"
    using shard_errors_none [of rs] shard_values_all [of rs] by (auto simp: map_result_def rs)
qed

theorem map_step_correct_witness:
  "shard_work [Queued] = 2 \<and> in_flight (shard_start [PInt 7]) \<le> 1
   \<and> (\<exists>ts'. shard_step ''s'' [] [PInt 7] 1 (\<lambda>_. Inr []) (shard_start [PInt 7]) ts')"
proof -
  have "gather (shard_start [PInt 7]) = None" by (simp add: shard_start_def)
  then show ?thesis
    using map_step_correct [of "''s''" "[]" "[PInt 7]" 1 "\<lambda>_. Inr []" "shard_start [PInt 7]", OF rtranclp.rtrancl_refl]
    by simp
qed

end
