(* ===== verification/Alerts.thy ===== *)
theory Alerts
  imports Scheduler_Prelude
begin

text \<open>
  Alerts (\<^verbatim>\<open>src/monitoring/alerts.py\<close>): the router from labels to channels, the notifier that tries
  every channel, and the handler of an Alertmanager payload. The texts of the messages are not
  modelled; the post of a webhook and its configuration are parameters.
\<close>

subsection \<open>Alerts and routes\<close>

datatype AlertSeverity = CRITICAL | WARNING | INFO

datatype AlertStatus = FIRING | RESOLVED

datatype AlertChannel = INFOFLOW | EMAIL | WEBHOOK | SLACK | PAGERDUTY

fun severity_value :: "AlertSeverity \<Rightarrow> string" where
  "severity_value CRITICAL = ''critical''"
| "severity_value WARNING = ''warning''"
| "severity_value INFO = ''info''"

fun alert_status_value :: "AlertStatus \<Rightarrow> string" where
  "alert_status_value FIRING = ''firing''"
| "alert_status_value RESOLVED = ''resolved''"

record AlertLabel =
  al_alertname :: string
  al_severity :: AlertSeverity
  al_service :: "string option"
  al_capability :: "string option"
  al_tenant_id :: "string option"
  al_instance :: "string option"
  al_extra :: "(string \<times> string) list"

record Alert =
  a_status :: AlertStatus
  a_labels :: AlertLabel
  a_summary :: string
  a_description :: string
  a_starts_at :: time
  a_fingerprint :: string

text \<open>The value of a label, by the name of its attribute or else from the additional ones.\<close>

datatype label_value = LText string | LExtra "(string \<times> string) list"

definition label_attr :: "AlertLabel \<Rightarrow> string \<Rightarrow> label_value option" where
  "label_attr l k = (
     if k = ''alertname'' then Some (LText (al_alertname l))
     else if k = ''severity'' then Some (LText (severity_value (al_severity l)))
     else if k = ''service'' then map_option LText (al_service l)
     else if k = ''capability'' then map_option LText (al_capability l)
     else if k = ''tenant_id'' then map_option LText (al_tenant_id l)
     else if k = ''instance'' then map_option LText (al_instance l)
     else if k = ''extra'' then Some (LExtra (al_extra l))
     else None)"

definition alert_value :: "AlertLabel \<Rightarrow> string \<Rightarrow> label_value option" where
  "alert_value l k = (case label_attr l k of Some v \<Rightarrow> Some v | None \<Rightarrow> map_option LText (map_of (al_extra l) k))"

type_synonym route = "(string \<times> label_value option) list \<times> AlertChannel"

fun matches :: "AlertLabel \<Rightarrow> (string \<times> label_value option) list \<Rightarrow> bool" where
  "matches l [] = True"
| "matches l ((k, v) # m) = (if alert_value l k \<noteq> v then False else matches l m)"

record AlertRouter =
  ar_channels :: "AlertChannel list"
  ar_rules :: "route list"

definition new_AlertRouter :: AlertRouter where
  "new_AlertRouter = \<lparr>ar_channels = [], ar_rules = []\<rparr>"

definition add_channel :: "AlertRouter \<Rightarrow> AlertChannel \<Rightarrow> AlertRouter" where
  "add_channel a c = a\<lparr>ar_channels := (if c \<in> set (ar_channels a) then ar_channels a else ar_channels a @ [c])\<rparr>"

definition add_route :: "AlertRouter \<Rightarrow> (string \<times> label_value option) list \<Rightarrow> AlertChannel \<Rightarrow> AlertRouter" where
  "add_route a m c = a\<lparr>ar_rules := ar_rules a @ [(m, c)]\<rparr>"

fun severity_channels :: "AlertSeverity \<Rightarrow> AlertChannel list" where
  "severity_channels CRITICAL = [INFOFLOW, WEBHOOK]"
| "severity_channels WARNING = [INFOFLOW]"
| "severity_channels INFO = [WEBHOOK]"

fun apply_rules :: "AlertLabel \<Rightarrow> route list \<Rightarrow> AlertChannel list \<Rightarrow> AlertChannel list" where
  "apply_rules l [] cs = cs"
| "apply_rules l ((m, c) # rules) cs = apply_rules l rules (if matches l m \<and> c \<notin> set cs then cs @ [c] else cs)"

definition route_alert :: "AlertRouter \<Rightarrow> Alert \<Rightarrow> AlertChannel list" where
  "route_alert a x = apply_rules (a_labels x) (ar_rules a) (severity_channels (al_severity (a_labels x)))"

definition get_alert_router :: AlertRouter where
  "get_alert_router =
     add_route (add_route new_AlertRouter
       [(''service'', Some (LText ''task-api'')), (''severity'', Some (LText (severity_value CRITICAL)))] INFOFLOW)
       [(''service'', Some (LText ''ops-api'')), (''severity'', Some (LText (severity_value CRITICAL)))] INFOFLOW"

subsection \<open>Sending\<close>

text \<open>A member of the webhook's payload; \<^verbatim>\<open>json.dumps\<close> has no form for a time.\<close>

datatype json_member = JText string | JNull | JTime time

fun json_encode :: "(string \<times> json_member) list \<Rightarrow> (string \<times> json_member) list option" where
  "json_encode [] = Some []"
| "json_encode ((k, v) # xs) = (case v of JTime _ \<Rightarrow> None | _ \<Rightarrow> map_option ((#) (k, v)) (json_encode xs))"

record alert_env =
  ae_webhook_url :: string
  ae_email_to :: string
  ae_post :: "string \<Rightarrow> (string \<times> json_member) list \<Rightarrow> bool"

definition webhook_payload :: "Alert \<Rightarrow> (string \<times> json_member) list" where
  "webhook_payload x = [
     (''alertname'', JText (al_alertname (a_labels x))),
     (''severity'', JText (severity_value (al_severity (a_labels x)))),
     (''service'', case al_service (a_labels x) of Some s \<Rightarrow> JText s | None \<Rightarrow> JNull),
     (''status'', JText (alert_status_value (a_status x))),
     (''summary'', JText (a_summary x)),
     (''description'', JText (a_description x)),
     (''starts_at'', JTime (a_starts_at x)),
     (''fingerprint'', JText (a_fingerprint x))]"

definition send_to_channel :: "alert_env \<Rightarrow> AlertChannel \<Rightarrow> Alert \<Rightarrow> bool" where
  "send_to_channel env c x = (case c of
      WEBHOOK \<Rightarrow> (if ae_webhook_url env = [] then False
        else case json_encode (webhook_payload x) of None \<Rightarrow> False | Some body \<Rightarrow> ae_post env (ae_webhook_url env) body)
    | INFOFLOW \<Rightarrow> True
    | EMAIL \<Rightarrow> ae_email_to env \<noteq> []
    | _ \<Rightarrow> False)"

definition notify :: "alert_env \<Rightarrow> AlertRouter \<Rightarrow> Alert \<Rightarrow> (AlertChannel \<times> bool) list" where
  "notify env a x = map (\<lambda>c. (c, send_to_channel env c x)) (route_alert a x)"

definition set_result :: "string \<Rightarrow> 'a \<Rightarrow> (string \<times> 'a) list \<Rightarrow> (string \<times> 'a) list" where
  "set_result k v d = (if k \<in> fst ` set d then map (\<lambda>(k', v'). (k', if k' = k then v else v')) d else d @ [(k, v)])"

record webhook_reply =
  wr_processed :: nat
  wr_results :: "(string \<times> (AlertChannel \<times> bool) list) list"

text \<open>A payload that is no valid webhook is answered with an error; \<open>None\<close> is such a payload.\<close>

definition process_alertmanager_webhook :: "alert_env \<Rightarrow> AlertRouter \<Rightarrow> Alert list option \<Rightarrow> webhook_reply option" where
  "process_alertmanager_webhook env a payload = (case payload of
      None \<Rightarrow> None
    | Some xs \<Rightarrow> Some \<lparr>wr_processed = length xs,
        wr_results = foldl (\<lambda>d x. set_result (a_fingerprint x) (notify env a x) d) [] xs\<rparr>)"

subsection \<open>What the router and the notifier do\<close>

lemma matches_iff: "matches l m \<longleftrightarrow> (\<forall>(k, v) \<in> set m. alert_value l k = v)"
  by (induction l m rule: matches.induct) auto

lemma apply_rules_set:
  "set (apply_rules l rules cs) = set cs \<union> {c. \<exists>m. (m, c) \<in> set rules \<and> matches l m}"
  by (induction l rules cs rule: apply_rules.induct) auto

lemma apply_rules_distinct: "distinct cs \<Longrightarrow> distinct (apply_rules l rules cs)"
  by (induction l rules cs rule: apply_rules.induct) auto

lemma severity_channels_distinct [simp]: "distinct (severity_channels s)"
  by (cases s) simp_all

text \<open>
  Every alert goes once to each channel of its severity and of the rules all of whose labels it
  has, and to no other; the answer of the notifier has one entry for each of these channels.
\<close>

theorem alerts_routed:
  "distinct (route_alert a x)
   \<and> set (route_alert a x) = set (severity_channels (al_severity (a_labels x)))
       \<union> {c. \<exists>m. (m, c) \<in> set (ar_rules a) \<and> (\<forall>p. p \<in> set m \<longrightarrow> alert_value (a_labels x) (fst p) = snd p)}
   \<and> map fst (notify env a x) = route_alert a x"
proof -
  have "matches (a_labels x) m \<longleftrightarrow> (\<forall>p. p \<in> set m \<longrightarrow> alert_value (a_labels x) (fst p) = snd p)" for m
    by (auto simp: matches_iff)
  then show ?thesis by (simp add: route_alert_def apply_rules_set apply_rules_distinct notify_def comp_def)
qed

lemma default_rules:
  "ar_rules get_alert_router =
     [([(''service'', Some (LText ''task-api'')), (''severity'', Some (LText ''critical''))], INFOFLOW),
      ([(''service'', Some (LText ''ops-api'')), (''severity'', Some (LText ''critical''))], INFOFLOW)]"
  by (simp add: get_alert_router_def add_route_def new_AlertRouter_def)

lemma alert_value_severity [simp]: "alert_value l ''severity'' = Some (LText (severity_value (al_severity l)))"
  by (simp add: alert_value_def label_attr_def)

theorem alerts_routed_witness:
  "set (route_alert (add_route new_AlertRouter [] EMAIL) \<lparr>a_status = FIRING,
      a_labels = \<lparr>al_alertname = ''Down'', al_severity = INFO, al_service = None, al_capability = None, al_tenant_id = None, al_instance = None, al_extra = []\<rparr>,
      a_summary = [], a_description = [], a_starts_at = 0, a_fingerprint = ''f''\<rparr>) = {WEBHOOK, EMAIL}"
  (is "set (route_alert ?a ?x) = _")
proof -
  have rules: "ar_rules ?a = [([], EMAIL)]" by (simp add: add_route_def new_AlertRouter_def)
  show ?thesis
    using alerts_routed [of ?a ?x] unfolding rules by auto
qed

text \<open>
  The webhook is never delivered: the payload holds the start of the alert as a time, which has
  no JSON form, so nothing is posted whatever the receiver would answer. An alert of severity info
  that matches no rule reaches no channel, and the payload is still answered as processed.
\<close>

theorem alert_webhook_undelivered:
  assumes "al_severity (a_labels x) = INFO"
  shows "\<not> send_to_channel env WEBHOOK y
    \<and> notify env get_alert_router x = [(WEBHOOK, False)]
    \<and> process_alertmanager_webhook env get_alert_router (Some [x]) = Some \<lparr>wr_processed = 1, wr_results = [(a_fingerprint x, [(WEBHOOK, False)])]\<rparr>"
proof (intro conjI)
  have dumps: "json_encode (webhook_payload z) = None" for z
    by (simp add: webhook_payload_def split: option.splits)
  show undelivered: "\<not> send_to_channel env WEBHOOK y"
    by (simp add: send_to_channel_def dumps)
  have route: "route_alert get_alert_router x = [WEBHOOK]"
    using assms by (simp add: route_alert_def get_alert_router_def add_route_def new_AlertRouter_def alert_value_def label_attr_def)
  show "notify env get_alert_router x = [(WEBHOOK, False)]"
    by (simp add: notify_def route send_to_channel_def dumps)
  then show "process_alertmanager_webhook env get_alert_router (Some [x]) = Some \<lparr>wr_processed = 1, wr_results = [(a_fingerprint x, [(WEBHOOK, False)])]\<rparr>"
    by (simp add: process_alertmanager_webhook_def set_result_def)
qed

theorem alert_webhook_undelivered_witness:
  "notify \<lparr>ae_webhook_url = ''http://hook'', ae_email_to = [], ae_post = \<lambda>_ _. True\<rparr> get_alert_router
     \<lparr>a_status = FIRING,
      a_labels = \<lparr>al_alertname = ''Down'', al_severity = INFO, al_service = None, al_capability = None, al_tenant_id = None, al_instance = None, al_extra = []\<rparr>,
      a_summary = [], a_description = [], a_starts_at = 0, a_fingerprint = ''f''\<rparr> = [(WEBHOOK, False)]"
  by (rule alert_webhook_undelivered [THEN conjunct2, THEN conjunct1]) simp

text \<open>The two default rules add nothing: an alert they match already goes to their channel.\<close>

lemma default_rules_redundant:
  "set (route_alert get_alert_router x) = set (severity_channels (al_severity (a_labels x)))"
  unfolding route_alert_def apply_rules_set default_rules
  by (cases "al_severity (a_labels x)") (auto simp: matches_iff)

end
