(* ===== verification/Resource_Application.thy ===== *)
theory Resource_Application
  imports Cluster_Registry Cron_Scheduling Dag_Loader
begin

text \<open>
  The services behind the operator routes (\<^verbatim>\<open>src/services/resource_application.py\<close>): clusters,
  nodes, DAG definitions and schedules over their registries. A reply is an error, an HTTP status
  or an exception that the route does not handle, or the value; operations that write also return
  the store. Fresh ids, the text of the current time and what a key scan returns are arguments.
\<close>

datatype service_error = Status int | TypeErr | AttributeErr | ValidationErr | DataErr | LoaderErr | ScriptErr

text \<open>An id of a body as a part of a key; the client of the store refuses other values.\<close>

fun id_text :: "pyval \<Rightarrow> string option" where
  "id_text (PStr s) = Some s"
| "id_text (PInt i) = Some (int_str i)"
| "id_text _ = None"

subsection \<open>Clusters\<close>

text \<open>\<^verbatim>\<open>ClusterRegistry.get(tenant, id)\<close> validates what it reads, and raises when that fails.\<close>

definition cluster_item :: "redis \<Rightarrow> string \<Rightarrow> string \<Rightarrow> service_error + ClusterInfo option" where
  "cluster_item r tenant cid = (case reg_get cluster_reg r tenant cid of
      PNone \<Rightarrow> Inr None
    | v \<Rightarrow> (case validate_cluster v of Some c \<Rightarrow> Inr (Some c) | None \<Rightarrow> Inl ValidationErr))"

fun collect_clusters :: "redis \<Rightarrow> string \<Rightarrow> string list \<Rightarrow> service_error + ClusterInfo list" where
  "collect_clusters r tenant [] = Inr []"
| "collect_clusters r tenant (i # is) = (case cluster_item r tenant i of
      Inl e \<Rightarrow> Inl e
    | Inr None \<Rightarrow> collect_clusters r tenant is
    | Inr (Some c) \<Rightarrow> map_sum id ((#) c) (collect_clusters r tenant is))"

definition cs_list_clusters :: "redis \<Rightarrow> string \<Rightarrow> service_error + ClusterInfo list" where
  "cs_list_clusters r tenant = collect_clusters r tenant (reg_list cluster_reg r tenant)"

definition cs_get_cluster :: "redis \<Rightarrow> string \<Rightarrow> string \<Rightarrow> service_error + ClusterInfo" where
  "cs_get_cluster r tenant cid = (case cluster_item r tenant cid of
      Inl e \<Rightarrow> Inl e | Inr None \<Rightarrow> Inl (Status 404) | Inr (Some c) \<Rightarrow> Inr c)"

definition cs_register_cluster :: "redis \<Rightarrow> string \<Rightarrow> dict \<Rightarrow> (service_error + dict) \<times> redis" where
  "cs_register_cluster r tenant body = (let v = dict_get body ''cluster_id'' PNone in
     if \<not> truthy v then (Inl (Status 422), r)
     else case id_text v of
        None \<Rightarrow> (Inl DataErr, r)
      | Some cid \<Rightarrow> (Inr [(''cluster_id'', v), (''registered'', PBool True)], reg_set cluster_reg r tenant cid (PDict body)))"

text \<open>Unpacking the validated object as a mapping raises, and so does calling its \<^verbatim>\<open>get\<close>.\<close>

definition cs_update_cluster :: "redis \<Rightarrow> string \<Rightarrow> string \<Rightarrow> dict \<Rightarrow> (service_error + dict) \<times> redis" where
  "cs_update_cluster r tenant cid body = (case cs_get_cluster r tenant cid of
      Inl e \<Rightarrow> (Inl e, r) | Inr existing \<Rightarrow> (Inl TypeErr, r))"

definition cs_delete_cluster :: "redis \<Rightarrow> string \<Rightarrow> string \<Rightarrow> redis" where
  "cs_delete_cluster r tenant cid = snd (reg_delete cluster_reg r tenant cid)"

definition cs_get_cluster_resources :: "redis \<Rightarrow> string \<Rightarrow> string \<Rightarrow> service_error + dict" where
  "cs_get_cluster_resources r tenant cid = (case cs_get_cluster r tenant cid of
      Inl e \<Rightarrow> Inl e | Inr cluster \<Rightarrow> Inl AttributeErr)"

subsection \<open>Nodes\<close>

definition tenant_node :: "redis \<Rightarrow> string \<Rightarrow> string \<Rightarrow> node_item" where
  "tenant_node r tenant n = (case reg_get node_reg r tenant n of
      PNone \<Rightarrow> Missing
    | v \<Rightarrow> (case validate_node v of Some i \<Rightarrow> Info i | None \<Rightarrow> Raw v))"

fun node_truthy :: "node_item \<Rightarrow> bool" where
  "node_truthy Missing = False"
| "node_truthy (Info i) = True"
| "node_truthy (Raw v) = truthy v"

definition node_in_cluster :: "node_item \<Rightarrow> string \<Rightarrow> service_error + bool" where
  "node_in_cluster node cid = (case node of
      Raw (PDict d) \<Rightarrow> Inr (dict_get d ''cluster_id'' PNone = PStr cid) | _ \<Rightarrow> Inl AttributeErr)"

fun collect_nodes :: "redis \<Rightarrow> string \<Rightarrow> string \<Rightarrow> string list \<Rightarrow> service_error + node_item list" where
  "collect_nodes r tenant cid [] = Inr []"
| "collect_nodes r tenant cid (n # ns) = (let node = tenant_node r tenant n in
     if \<not> node_truthy node then collect_nodes r tenant cid ns
     else case (if cid = [] then Inr True else node_in_cluster node cid) of
        Inl e \<Rightarrow> Inl e
      | Inr False \<Rightarrow> collect_nodes r tenant cid ns
      | Inr True \<Rightarrow> map_sum id ((#) node) (collect_nodes r tenant cid ns))"

definition ns_list_nodes :: "redis \<Rightarrow> string \<Rightarrow> string \<Rightarrow> service_error + node_item list" where
  "ns_list_nodes r tenant cid = collect_nodes r tenant cid (reg_list node_reg r tenant)"

definition ns_get_node :: "redis \<Rightarrow> string \<Rightarrow> string \<Rightarrow> service_error + node_item" where
  "ns_get_node r tenant n = (case tenant_node r tenant n of Missing \<Rightarrow> Inl (Status 404) | node \<Rightarrow> Inr node)"

text \<open>The three operations assign items of the node and store it.\<close>

definition ns_assign :: "redis \<Rightarrow> string \<Rightarrow> string \<Rightarrow> dict \<Rightarrow> dict \<Rightarrow> (service_error + dict) \<times> redis" where
  "ns_assign r tenant n upd reply = (case ns_get_node r tenant n of
      Inl e \<Rightarrow> (Inl e, r)
    | Inr node \<Rightarrow> (case set_items node upd of
        Inl _ \<Rightarrow> (Inl TypeErr, r)
      | Inr d \<Rightarrow> (Inr reply, reg_set node_reg r tenant n (PDict d))))"

definition ns_invite_node :: "redis \<Rightarrow> string \<Rightarrow> string \<Rightarrow> dict \<Rightarrow> (service_error + dict) \<times> redis" where
  "ns_invite_node r tenant n body = (let cid = dict_get body ''cluster_id'' (PStr []) in
     ns_assign r tenant n [(''cluster_id'', cid), (''state'', PStr ''joining'')]
       [(''node_id'', PStr n), (''cluster_id'', cid), (''state'', PStr ''joining'')])"

definition ns_drain_node :: "redis \<Rightarrow> string \<Rightarrow> string \<Rightarrow> dict \<Rightarrow> (service_error + dict) \<times> redis" where
  "ns_drain_node r tenant n body = (let deadline = dict_get body ''deadline_seconds'' (PInt 300) in
     ns_assign r tenant n [(''state'', PStr ''draining'')]
       [(''node_id'', PStr n), (''state'', PStr ''draining''), (''deadline_seconds'', deadline)])"

definition ns_release_node :: "redis \<Rightarrow> string \<Rightarrow> string \<Rightarrow> (service_error + dict) \<times> redis" where
  "ns_release_node r tenant n =
     ns_assign r tenant n [(''state'', PStr ''idle''), (''cluster_id'', PStr [])] [(''node_id'', PStr n), (''state'', PStr ''idle'')]"

definition ns_delete_node :: "redis \<Rightarrow> string \<Rightarrow> string \<Rightarrow> redis" where
  "ns_delete_node r tenant n = snd (reg_delete node_reg r tenant n)"

subsection \<open>DAG definitions\<close>

definition last_segment :: "string \<Rightarrow> string" where
  "last_segment s = rev (takeWhile (\<lambda>c. c \<noteq> CHR '':'') (rev s))"

text \<open>\<open>scanned\<close> is what \<^verbatim>\<open>SCAN\<close> returns for the tenant's pattern.\<close>

definition ds_list_dags :: "string list option \<Rightarrow> string \<Rightarrow> dict list" where
  "ds_list_dags scanned tenant = (case scanned of
      None \<Rightarrow> []
    | Some keys \<Rightarrow> map (\<lambda>k. [(''dag_id'', PStr (last_segment k)), (''tenant_id'', PStr tenant)]) keys)"

type_synonym dag_sources = "(string \<Rightarrow> pyval option option) \<times> (string \<Rightarrow> string \<Rightarrow> rval option)"

definition ds_get_dag :: "DagLoader \<Rightarrow> dag_sources \<Rightarrow> redis \<Rightarrow> string \<Rightarrow> string \<Rightarrow> (service_error + pyval) \<times> redis" where
  "ds_get_dag dl src r dag_id tenant = (let (v, r') = load dl (fst src) (snd src) r dag_id tenant
     in (if v = PNone then Inl (Status 404) else Inr v, r'))"

definition ds_register_dag :: "DagLoader \<Rightarrow> redis \<Rightarrow> string \<Rightarrow> dict \<Rightarrow> (service_error + dict) \<times> redis" where
  "ds_register_dag dl r tenant body = (let v = dict_get body ''dag_id'' PNone in
     if \<not> truthy v then (Inl (Status 422), r)
     else case id_text v of
        None \<Rightarrow> (Inl DataErr, r)
      | Some dag_id \<Rightarrow> (case register_dag dl r dag_id tenant (PDict body) of
          Inl _ \<Rightarrow> (Inl LoaderErr, r)
        | Inr r' \<Rightarrow> (Inr [(''dag_id'', v), (''tenant_id'', PStr tenant), (''registered'', PBool True)], r')))"

definition ds_update_dag :: "DagLoader \<Rightarrow> dag_sources \<Rightarrow> redis \<Rightarrow> string \<Rightarrow> string \<Rightarrow> dict \<Rightarrow> (service_error + dict) \<times> redis" where
  "ds_update_dag dl src r dag_id tenant body = (case ds_get_dag dl src r dag_id tenant of
      (Inl e, r1) \<Rightarrow> (Inl e, r1)
    | (Inr (PDict existing), r1) \<Rightarrow>
        (let merged = dict_set (dict_merge existing body) ''dag_id'' (PStr dag_id) in
         case register_dag dl r1 dag_id tenant (PDict merged) of
           Inl _ \<Rightarrow> (Inl LoaderErr, r1)
         | Inr r2 \<Rightarrow> (Inr merged, r2))
    | (Inr _, r1) \<Rightarrow> (Inl TypeErr, r1))"

definition ds_delete_dag :: "DagLoader \<Rightarrow> redis \<Rightarrow> string \<Rightarrow> string \<Rightarrow> redis" where
  "ds_delete_dag dl r dag_id tenant = snd (delete_dag dl r dag_id tenant)"

subsection \<open>Schedules\<close>

definition ss_list_schedules :: "redis \<Rightarrow> string \<Rightarrow> pyval list" where
  "ss_list_schedules r tenant = filter truthy (map (reg_get schedule_reg r tenant) (reg_list schedule_reg r tenant))"

definition ss_get_schedule :: "redis \<Rightarrow> string \<Rightarrow> string \<Rightarrow> service_error + pyval" where
  "ss_get_schedule r tenant sid = (let v = reg_get schedule_reg r tenant sid in if v = PNone then Inl (Status 404) else Inr v)"

definition ss_record :: "dict \<Rightarrow> string \<Rightarrow> pyval \<Rightarrow> string \<Rightarrow> dict" where
  "ss_record body tenant sid now_iso = dict_merge body
     [(''schedule_id'', sid), (''tenant_id'', PStr tenant), (''enabled'', dict_get body ''enabled'' (PBool True)),
      (''created_at'', PStr now_iso), (''updated_at'', PStr now_iso), (''last_triggered_at'', PNone), (''next_fire_at'', PNone)]"

definition ss_create_schedule :: "redis \<Rightarrow> string \<Rightarrow> string \<Rightarrow> string \<Rightarrow> dict \<Rightarrow> (service_error + dict) \<times> redis" where
  "ss_create_schedule r uuid now_iso tenant body =
     (if \<not> truthy (dict_get body ''cron_expr'' PNone) then (Inl (Status 422), r)
      else let given = dict_get body ''schedule_id'' PNone; v = (if truthy given then given else PStr uuid) in
        case id_text v of
          None \<Rightarrow> (Inl DataErr, r)
        | Some sid \<Rightarrow> (let d = ss_record body tenant v now_iso in (Inr d, set_schedule r tenant sid (PDict d))))"

definition ss_update_schedule :: "redis \<Rightarrow> string \<Rightarrow> string \<Rightarrow> string \<Rightarrow> dict \<Rightarrow> (service_error + dict) \<times> redis" where
  "ss_update_schedule r now_iso tenant sid body = (case ss_get_schedule r tenant sid of
      Inl e \<Rightarrow> (Inl e, r)
    | Inr (PDict existing) \<Rightarrow>
        (let merged = dict_merge (dict_merge existing body) [(''schedule_id'', PStr sid), (''updated_at'', PStr now_iso)]
         in (Inr merged, set_schedule r tenant sid (PDict merged)))
    | Inr _ \<Rightarrow> (Inl TypeErr, r))"

definition ss_toggle_schedule :: "redis \<Rightarrow> string \<Rightarrow> string \<Rightarrow> dict \<Rightarrow> (service_error + dict) \<times> redis" where
  "ss_toggle_schedule r tenant sid body = (let enabled = truthy (dict_get body ''enabled'' (PBool True)) in
     case toggle r tenant sid enabled of
       (Inl _, r') \<Rightarrow> (Inl ScriptErr, r')
     | (Inr ok, r') \<Rightarrow> (if ok then Inr [(''schedule_id'', PStr sid), (''enabled'', PBool enabled)] else Inl (Status 404), r'))"

definition ss_delete_schedule :: "redis \<Rightarrow> string \<Rightarrow> string \<Rightarrow> redis" where
  "ss_delete_schedule r tenant sid = snd (reg_delete schedule_reg r tenant sid)"

subsection \<open>Histories of the schedule service and the scheduler\<close>

datatype schedule_event =
    CreateSchedule string string string dict
  | UpdateSchedule string string string dict
  | ToggleSchedule string string dict
  | DeleteSchedule string string
  | SchedulerTurn CronScheduler time

fun schedule_apply :: "'w cron_env \<Rightarrow> 'w cron_state \<Rightarrow> schedule_event \<Rightarrow> 'w cron_state" where
  "schedule_apply env (qm, w, r) (CreateSchedule uuid now_iso tenant body) = (qm, w, snd (ss_create_schedule r uuid now_iso tenant body))"
| "schedule_apply env (qm, w, r) (UpdateSchedule now_iso tenant sid body) = (qm, w, snd (ss_update_schedule r now_iso tenant sid body))"
| "schedule_apply env (qm, w, r) (ToggleSchedule tenant sid body) = (qm, w, snd (ss_toggle_schedule r tenant sid body))"
| "schedule_apply env (qm, w, r) (DeleteSchedule tenant sid) = (qm, w, ss_delete_schedule r tenant sid)"
| "schedule_apply env st (SchedulerTurn cs now) = snd (cron_turn cs env now st)"

text \<open>An update that does not write the next time of the schedule by hand.\<close>

fun sets_no_time :: "schedule_event \<Rightarrow> bool" where
  "sets_no_time (UpdateSchedule now_iso tenant sid body) = (''next_fire_at'' \<notin> fst ` set body)"
| "sets_no_time _ = True"

definition undated_doc :: "rval option \<Rightarrow> bool" where
  "undated_doc v = (case v of None \<Rightarrow> True | Some (RJson (PDict d)) \<Rightarrow> dict_get d ''next_fire_at'' PNone = PNone | _ \<Rightarrow> False)"

definition undated :: "redis \<Rightarrow> bool" where
  "undated r \<longleftrightarrow> (\<forall>t i. undated_doc (get r (make_key schedule_reg t i)))"

lemma undated_doc_None [simp]: "undated_doc None"
  by (simp add: undated_doc_def)

lemma undated_doc_json [simp]: "undated_doc (Some (RJson (PDict d))) \<longleftrightarrow> dict_get d ''next_fire_at'' PNone = PNone"
  by (simp add: undated_doc_def)

lemma undated_doc_cases:
  assumes "undated_doc v"
  obtains "v = None" | d where "v = Some (RJson (PDict d))" "dict_get d ''next_fire_at'' PNone = PNone"
  using assms unfolding undated_doc_def by (auto split: option.splits rval.splits pyval.splits)

lemma undated_key_cases:
  assumes "undated r"
  obtains "get r (make_key schedule_reg t i) = None"
    | d where "get r (make_key schedule_reg t i) = Some (RJson (PDict d))" "dict_get d ''next_fire_at'' PNone = PNone"
proof -
  have "undated_doc (get r (make_key schedule_reg t i))" using assms by (simp add: undated_def)
  then show thesis using that by (rule undated_doc_cases)
qed

lemma undated_write: "undated r \<Longrightarrow> dict_get d ''next_fire_at'' PNone = PNone \<Longrightarrow> undated (set_schedule r t i (PDict d))"
  by (simp add: undated_def set_schedule_def store_simps)

lemma dict_get_merge_other: "k \<notin> fst ` set b \<Longrightarrow> dict_get (dict_merge a b) k dflt = dict_get a k dflt"
proof -
  assume "k \<notin> fst ` set b"
  then have "map_of (rev b) k = None" by (simp add: map_of_eq_None_iff)
  then show ?thesis by (simp add: dict_get_def map_add_def)
qed

lemma undated_get: "undated r \<Longrightarrow> reg_get schedule_reg r t i = PDict d \<Longrightarrow> dict_get d ''next_fire_at'' PNone = PNone"
  by (erule undated_key_cases [of r t i]) (simp_all add: reg_get_def json_loads_def)

lemma undated_create: "undated r \<Longrightarrow> undated (snd (ss_create_schedule r uuid now_iso tenant body))"
proof -
  assume u: "undated r"
  have "dict_get (ss_record body tenant v now_iso) ''next_fire_at'' PNone = PNone" for v
    by (simp add: ss_record_def dict_get_def)
  then show ?thesis using u by (simp add: ss_create_schedule_def Let_def undated_write split: option.splits)
qed

lemma undated_update:
  assumes "undated r" and "''next_fire_at'' \<notin> fst ` set body"
  shows "undated (snd (ss_update_schedule r now_iso tenant sid body))"
proof (cases "ss_get_schedule r tenant sid")
  case (Inr v)
  show ?thesis
  proof (cases v)
    case (PDict d)
    then have "dict_get d ''next_fire_at'' PNone = PNone"
      using Inr undated_get [OF assms(1)] by (simp add: ss_get_schedule_def Let_def split: if_splits)
    then show ?thesis
      using assms Inr PDict by (simp add: ss_update_schedule_def Let_def dict_get_merge_other undated_write)
  qed (simp_all add: ss_update_schedule_def Inr assms(1))
qed (simp add: ss_update_schedule_def assms(1))

lemma undated_toggle: "undated r \<Longrightarrow> undated (snd (ss_toggle_schedule r tenant sid body))"
proof -
  assume u: "undated r"
  show ?thesis
    using u
  proof (rule undated_key_cases [of r tenant sid])
    assume "get r (make_key schedule_reg tenant sid) = None"
    then show ?thesis using u by (simp add: ss_toggle_schedule_def toggle_def lua_toggle_def Let_def)
  next
    fix d assume "get r (make_key schedule_reg tenant sid) = Some (RJson (PDict d))" "dict_get d ''next_fire_at'' PNone = PNone"
    then show ?thesis using u by (simp add: ss_toggle_schedule_def toggle_def lua_toggle_def Let_def undated_def store_simps)
  qed
qed

lemma undated_delete: "undated r \<Longrightarrow> undated (ss_delete_schedule r tenant sid)"
  by (simp add: ss_delete_schedule_def undated_def store_simps)

lemma undated_leader: "undated r \<Longrightarrow> undated (snd (cron_become_leader cs r))"
proof -
  have "make_key schedule_reg t i \<noteq> cron_leader" for t i
    by (simp add: make_key_def schedule_reg_def new_registry_def cron_leader_def)
  then show "undated r \<Longrightarrow> undated (snd (cron_become_leader cs r))"
    by (simp add: cron_become_leader_def set_nx_def undated_def store_simps Let_def split: prod.splits)
qed

lemma undated_none_due: "undated r \<Longrightarrow> list_due fi r as_of = Inr []"
proof -
  assume u: "undated r"
  have none: "due_docs fi as_of raws = Inr []" if "\<forall>v \<in> set raws. undated_doc v" for raws
    using that
  proof (induction raws)
    case (Cons v raws)
    then have "undated_doc v" by simp
    then show ?case by (rule undated_doc_cases) (use Cons in \<open>simp_all add: is_due_def\<close>)
  qed simp
  show ?thesis unfolding list_due_def by (rule none) (use u in \<open>auto simp: undated_def\<close>)
qed

lemma undated_turn:
  assumes "undated r"
  shows "cron_turn cs env now (qm, w, r) = (Inr (), qm, w, snd (cron_become_leader cs r))"
  using undated_none_due [OF undated_leader [OF assms], of "from_iso env" cs now]
  by (cases "cron_become_leader cs r") (simp add: cron_turn_def fire_due_schedules_def)

lemma undated_step:
  assumes "undated r" and "sets_no_time e"
  shows "\<exists>r'. schedule_apply env (qm, w, r) e = (qm, w, r') \<and> undated r'"
  using assms
  by (cases e) (simp_all add: undated_create undated_update undated_toggle undated_delete undated_turn undated_leader)

text \<open>
  C21. A schedule created by the service never fires: creation stores no next time, and only a firing
  computes one. In every history of creations, updates that do not write the next time by hand,
  toggles, deletions and turns of schedulers, no task is created, and at no time any schedule is
  due.
\<close>

theorem created_schedule_never_fires:
  assumes "\<forall>e \<in> set es. sets_no_time e"
  shows "\<exists>r. foldl (schedule_apply env) (qm, w, empty_redis) es = (qm, w, r) \<and> (\<forall>now. list_due (from_iso env) r now = Inr [])"
proof -
  have "\<exists>r'. foldl (schedule_apply env) (qm, w, r) es = (qm, w, r') \<and> undated r'" if "undated r" for r
    using that assms
  proof (induction es arbitrary: r)
    case (Cons e es)
    then obtain r1 where "schedule_apply env (qm, w, r) e = (qm, w, r1)" "undated r1"
      using undated_step [of r e env qm w] by auto
    then show ?case using Cons by simp
  qed simp
  moreover have "undated empty_redis" by (simp add: undated_def empty_redis_def get_def)
  ultimately show ?thesis using undated_none_due by blast
qed

theorem created_schedule_never_fires_witness:
  "\<exists>r. foldl (schedule_apply demo_cron) (new_QueueManager None, [], empty_redis)
        [CreateSchedule ''u'' ''t0'' ''acme'' demo_schedule, SchedulerTurn \<lparr>cron_instance_id = ''i'', cron_leader_ttl = 60\<rparr> 61] = (new_QueueManager None, [], r)
     \<and> list_due (from_iso demo_cron) r 61 = Inr []"
proof -
  have "\<forall>e \<in> set [CreateSchedule ''u'' ''t0'' ''acme'' demo_schedule, SchedulerTurn \<lparr>cron_instance_id = ''i'', cron_leader_ttl = 60\<rparr> 61]. sets_no_time e"
    by simp
  from created_schedule_never_fires [OF this, of demo_cron "new_QueueManager None" "[]"] show ?thesis by blast
qed

text \<open>
  What the service stores it returns: a created schedule is read back and listed for its tenant
  and changes nothing another tenant reads; an update returns and stores the merged document; a
  deleted schedule is not found.
\<close>

theorem schedule_service_roundtrip:
  assumes "valid_tenant t" and "valid_tenant u" and "truthy (dict_get body ''cron_expr'' PNone)"
    and "dict_get body ''schedule_id'' PNone = PStr sid" and "sid \<noteq> []"
  shows "\<exists>d r'. ss_create_schedule r uuid now_iso t body = (Inr d, r')
    \<and> ss_get_schedule r' t sid = Inr (PDict d) \<and> PDict d \<in> set (ss_list_schedules r' t)
    \<and> dict_get d ''tenant_id'' PNone = PStr t
    \<and> (u \<noteq> t \<longrightarrow> ss_get_schedule r' u i = ss_get_schedule r u i)
    \<and> (\<forall>n b. \<exists>m r''. ss_update_schedule r' n t sid b = (Inr m, r'') \<and> ss_get_schedule r'' t sid = Inr (PDict m)
         \<and> dict_get m ''schedule_id'' PNone = PStr sid)
    \<and> ss_get_schedule (ss_delete_schedule r' t sid) t sid = Inl (Status 404)"
proof -
  define d where "d = ss_record body t (PStr sid) now_iso"
  define r' where "r' = set_schedule r t sid (PDict d)"
  have read: "reg_get schedule_reg (set_schedule s t sid v) x y = (if x = t \<and> y = sid then v else reg_get schedule_reg s x y)"
    if "valid_tenant x" for s v x y
  proof -
    have "reg_get schedule_reg (set_schedule s t sid v) x y = reg_get schedule_reg (reg_set schedule_reg s t sid v) x y"
      by (simp add: set_schedule_def reg_get_def store_simps)
    then show ?thesis unfolding docs.lookup_put [OF assms(1) that] .
  qed
  have listed: "sid \<in> set (reg_list schedule_reg r' t)"
    using docs.ids_put [of schedule_reg r t sid "PDict d" t] by (simp add: r'_def set_schedule_def reg_list_def store_simps)
  have tenant: "dict_get d ''tenant_id'' PNone = PStr t" by (simp add: d_def ss_record_def dict_get_def)
  then have "d \<noteq> []" by (auto simp: dict_get_def)
  show ?thesis
  proof (rule exI [of _ d], rule exI [of _ r'], intro conjI impI allI)
    show "ss_create_schedule r uuid now_iso t body = (Inr d, r')"
      using assms by (simp add: ss_create_schedule_def d_def r'_def Let_def)
    show get: "ss_get_schedule r' t sid = Inr (PDict d)"
      by (simp add: ss_get_schedule_def r'_def read assms(1))
    show "PDict d \<in> set (ss_list_schedules r' t)"
      using imageI [OF listed, of "reg_get schedule_reg r' t"] \<open>d \<noteq> []\<close> by (simp add: ss_list_schedules_def r'_def read assms(1))
    show "dict_get d ''tenant_id'' PNone = PStr t" by (rule tenant)
    show "ss_get_schedule r' u i = ss_get_schedule r u i" if "u \<noteq> t"
      using that by (simp add: ss_get_schedule_def r'_def read assms(2))
    show "\<exists>m r''. ss_update_schedule r' n t sid b = (Inr m, r'') \<and> ss_get_schedule r'' t sid = Inr (PDict m)
         \<and> dict_get m ''schedule_id'' PNone = PStr sid" for n b
    proof (intro exI conjI)
      let ?m = "dict_merge (dict_merge d b) [(''schedule_id'', PStr sid), (''updated_at'', PStr n)]"
      show "ss_update_schedule r' n t sid b = (Inr ?m, set_schedule r' t sid (PDict ?m))"
        by (simp add: ss_update_schedule_def get Let_def)
      show "ss_get_schedule (set_schedule r' t sid (PDict ?m)) t sid = Inr (PDict ?m)"
        by (simp add: ss_get_schedule_def read assms(1))
      show "dict_get ?m ''schedule_id'' PNone = PStr sid" by (simp add: dict_get_def)
    qed
    show "ss_get_schedule (ss_delete_schedule r' t sid) t sid = Inl (Status 404)"
      using docs.lookup_remove [OF assms(1,1), of schedule_reg r' sid sid] by (simp add: ss_get_schedule_def ss_delete_schedule_def)
  qed
qed

theorem schedule_service_roundtrip_witness:
  "\<exists>d r'. ss_create_schedule empty_redis ''u'' ''t0'' ''acme'' demo_schedule = (Inr d, r') \<and> ss_get_schedule r' ''acme'' ''s1'' = Inr (PDict d)"
proof -
  have "valid_tenant ''acme''" by (simp add: valid_tenant_def colon_free_def)
  moreover have "truthy (dict_get demo_schedule ''cron_expr'' PNone)" "dict_get demo_schedule ''schedule_id'' PNone = PStr ''s1''"
    by (simp_all add: demo_schedule_def dict_get_def)
  ultimately show ?thesis
    using schedule_service_roundtrip [of "''acme''" "''acme''" demo_schedule "''s1''" empty_redis "''u''" "''t0''"] by blast
qed

subsection \<open>Nodes and clusters behind the routes\<close>

text \<open>
  The node routes cannot act on a node: agents register their nodes for the global tenant, so a
  registration changes nothing that another tenant lists or reads; and a node that is found and
  validates is an object whose items cannot be assigned, so inviting, draining and releasing it
  raise and change nothing. Reading and updating the resources of a cluster raise in the same way.
\<close>

theorem operator_routes_inert:
  assumes "valid_tenant t" and "t \<noteq> global_tenant" and "register_node r now info = Inr r'"
    and "tenant_node s t n = Info node" and "cluster_item s t c = Inr (Some cluster)"
  shows "ns_get_node r' t m = ns_get_node r t m
    \<and> ns_invite_node s t n body = (Inl TypeErr, s) \<and> ns_drain_node s t n body = (Inl TypeErr, s) \<and> ns_release_node s t n = (Inl TypeErr, s)
    \<and> cs_update_cluster s t c body = (Inl TypeErr, s) \<and> cs_get_cluster_resources s t c = Inl AttributeErr"
proof (intro conjI)
  obtain i d where r': "r' = zadd (sadd (reg_set node_reg r global_tenant i d) node_index i) heartbeat_zset (RText i) now"
    using assms(3) by (auto simp: register_node_def Let_def split: option.splits pyval.splits)
  have g: "valid_tenant global_tenant" by (simp add: valid_tenant_def colon_free_def global_tenant_def)
  have "reg_get node_reg r' t m = reg_get node_reg r t m"
    using docs.lookup_put [OF g assms(1), of node_reg r i d m] assms(2) by (simp add: r' reg_get_def store_simps)
  then show "ns_get_node r' t m = ns_get_node r t m" by (simp add: ns_get_node_def tenant_node_def)
qed (use assms(4,5) in \<open>simp_all add: ns_invite_node_def ns_drain_node_def ns_release_node_def ns_assign_def ns_get_node_def set_items_def
      cs_update_cluster_def cs_get_cluster_resources_def cs_get_cluster_def\<close>)

definition demo_tenant :: redis where
  "demo_tenant = reg_set cluster_reg (reg_set node_reg empty_redis ''acme'' ''n'' (PDict demo_node)) ''acme'' ''c'' (PDict [(''cluster_id'', PStr ''c'')])"

lemma demo_tenant_node: "\<exists>node. tenant_node demo_tenant ''acme'' ''n'' = Info node"
  by (simp add: demo_tenant_def tenant_node_def reg_get_def json_loads_def store_simps demo_node_def validate_node_def str_field_def
      int_field_def dict_get_def validate_resources_def node_state_of_def make_key_def node_reg_def cluster_reg_def new_registry_def)

lemma demo_tenant_cluster: "\<exists>c. cluster_item demo_tenant ''acme'' ''c'' = Inr (Some c)"
  by (simp add: demo_tenant_def cluster_item_def reg_get_def json_loads_def store_simps validate_cluster_def str_field_def
      dict_get_def validate_cluster_resources_def cluster_status_of_def from_flat_def validate_plan_def validate_observed_def int_field_def)

theorem operator_routes_inert_witness:
  "ns_get_node demo_nodes ''acme'' ''n1'' = Inl (Status 404) \<and> ns_invite_node demo_tenant ''acme'' ''n'' [] = (Inl TypeErr, demo_tenant)"
proof -
  obtain node c where n: "tenant_node demo_tenant ''acme'' ''n'' = Info node" and c: "cluster_item demo_tenant ''acme'' ''c'' = Inr (Some c)"
    using demo_tenant_node demo_tenant_cluster by blast
  have t: "valid_tenant ''acme''" "''acme'' \<noteq> global_tenant" by (simp_all add: valid_tenant_def colon_free_def global_tenant_def)
  have r: "register_node empty_redis 5 demo_node = Inr demo_nodes"
    by (simp add: demo_nodes_def demo_node_def register_node_def Let_def)
  have "ns_get_node empty_redis ''acme'' ''n1'' = Inl (Status 404)"
    by (simp add: ns_get_node_def tenant_node_def reg_get_def json_loads_def get_def empty_redis_def)
  then show ?thesis using operator_routes_inert [OF t r n c, of "''n1''" "[]"] by simp
qed

text \<open>A body without the fields of a cluster is accepted, and the listing of its tenant then raises.\<close>

lemma bad_cluster_breaks_list:
  assumes "valid_tenant t" and "dict_get body ''cluster_id'' PNone = PStr cid" and "cid \<noteq> []" and "validate_cluster (PDict body) = None"
    and "reg_list cluster_reg r t = []"
  shows "\<exists>r'. cs_register_cluster r t body = (Inr [(''cluster_id'', PStr cid), (''registered'', PBool True)], r')
    \<and> cs_list_clusters r' t = Inl ValidationErr"
proof -
  let ?r = "reg_set cluster_reg r t cid (PDict body)"
  have "set (reg_list cluster_reg ?r t) = {cid}" using docs.ids_put [of cluster_reg r t cid "PDict body" t] assms(5) by simp
  then obtain xs where l: "reg_list cluster_reg ?r t = cid # xs" by (cases "reg_list cluster_reg ?r t") auto
  have "cluster_item ?r t cid = Inl ValidationErr"
    using docs.lookup_put [OF assms(1,1), of cluster_reg r cid "PDict body" cid] assms(4) by (simp add: cluster_item_def)
  then have "cs_list_clusters ?r t = Inl ValidationErr" by (simp add: cs_list_clusters_def l)
  then show ?thesis using assms(2,3) by (simp add: cs_register_cluster_def Let_def)
qed

end
