(* ===== verification/Spec2Isabelle.thy ===== *)
theory Spec2Isabelle
  imports Dag_Runs Dag_Steps Dag_Loader Task_Consumer Task_Reconciler Cluster_Registry Cron_Scheduling
    Redis_HA Scheduler_Actor Command_Proxy Service_Proxy Rate_Limit Callback_Outbox Node_Agent Lifecycle
    Task_Application Step_Executors Alerts Resource_Application
begin

text \<open>
  A verification development for the asynchronous scheduler framework. Paths are relative to the
  repository; \<^verbatim>\<open>src/...\<close> is its Python package.

  \<^bold>\<open>The program.\<close> Clients submit tasks to an API. A task is stored in a table and in Redis and
  waits in the priority queue of its capability. Consumers take tasks from the queues and give them
  to executors, which hold a lease in Redis and run a DAG of steps on pools of worker actors, on
  command proxies or on service proxies. A completion node records the outcome and delivers
  callbacks; an outbox with a dispatcher does so from a table. A reconciler and a compensation
  service repair what a crash leaves behind, and a cron scheduler creates tasks by schedule.
  Registries in Redis hold tenants, capabilities, nodes, clusters and schedules; an agent on each
  machine joins it to a Ray cluster. Operators act through audited routes.

  \<^bold>\<open>How it is modelled.\<close> A class is a record of its attributes, an operation a function from the
  state to its reply and the new state, an exception the left side of a sum. Redis is the record
  \<open>redis\<close> with the buckets of the repository's own \<^verbatim>\<open>tests/fake_redis.py\<close>; a Lua script is one
  atomic function. JSON is kept as the value it encodes (\<open>pyval\<close>), dictionaries are association
  lists in insertion order, clock readings are rationals. Code outside the repository (Ray, HTTP,
  the database session, hash functions, croniter, subprocesses) is a parameter, a function or a
  field of an environment record, and acts on a world of type \<open>'w\<close> that the operations thread
  through. Concurrent code is an inductive step relation over the interleavings that \<^verbatim>\<open>await\<close>,
  threads and several processes allow.

  \<^bold>\<open>Foundations.\<close>
  \<^item> \<open>Scheduler_Prelude\<close>: Python values, dictionaries, texts of numbers, and the lemmas on
    association lists and sorting that the components share; collections \<open>key_simps\<close>, \<open>store_simps\<close>.
  \<^item> \<open>Redis_Store\<close>: the commands and what each changes; locale \<open>sorted_set\<close>, interpreted on them.

  \<^bold>\<open>Queues.\<close>
  \<^item> \<open>Circuit_Breaker\<close> (\<^verbatim>\<open>src/platform/circuit_breaker.py\<close>): opening at the threshold, the cooldown,
    and that capabilities do not influence each other.
  \<^item> \<open>Queue_Manager\<close>, \<open>Queue_Properties\<close>, \<open>Queue_Refinement\<close>, \<open>Queue_Control\<close>
    (\<^verbatim>\<open>src/platform/queue_manager.py\<close>, \<^verbatim>\<open>queue_keys.py\<close>): the scripts and operations; the encoding of
    priority and time as a score; the locale \<open>priority_queue\<close>, its interpretation on the queue of a
    capability, and that draining serves by priority and then time; limits, counters, adaptive
    concurrency, slots, sweeping and the statistics cache over all runs of the manager.
  \<^item> \<open>Task_Consumer\<close> (\<^verbatim>\<open>src/platform/task_consumer.py\<close>): the polling loop over the locale
    \<open>task_source\<close>, interpreted on the queue manager: no task is lost or taken twice.

  \<^bold>\<open>Tasks.\<close>
  \<^item> \<open>Task_Model\<close> (\<^verbatim>\<open>src/models/task.py\<close>, \<^verbatim>\<open>src/platform/task_state_machine.py\<close>): status, priority,
    rows and transitions.
  \<^item> \<open>Task_Transactions\<close> (\<^verbatim>\<open>src/common/transaction.py\<close> and the compensation service): the double
    write, its outcomes, and that a failed half is repaired.
  \<^item> \<open>Task_Creator\<close> (\<^verbatim>\<open>src/platform/task_creator.py\<close>): creation with idempotency; what is queued is
    stored.
  \<^item> \<open>Task_Executor\<close> (\<^verbatim>\<open>src/platform/task_executor.py\<close>): leases as interleaved steps with mutual
    exclusion, and the outcome of an execution on every branch.
  \<^item> \<open>Task_Completion\<close> (\<^verbatim>\<open>src/platform/task_completion_node.py\<close>): completion and callback retries;
    none is lost and their number is bounded.
  \<^item> \<open>Task_Reconciler\<close> (\<^verbatim>\<open>src/platform/task_reconciler.py\<close>): leadership, recovery of stuck tasks and
    rebuilding of the queues.
  \<^item> \<open>Task_Application\<close> (\<^verbatim>\<open>src/services/task_application.py\<close>, \<^verbatim>\<open>task_validation.py\<close>,
    \<^verbatim>\<open>recovery_explainer.py\<close>, \<^verbatim>\<open>src/api/routes/tasks.py\<close>): submission down to the queue, pages,
    isolation of tenants, cancellation.

  \<^bold>\<open>DAGs.\<close>
  \<^item> \<open>Dag_Model\<close>, \<open>Dag_Topology\<close>, \<open>Dag_Condition\<close>, \<open>Dag_Engine\<close>, \<open>Dag_Steps\<close>, \<open>Dag_Runs\<close>
    (\<^verbatim>\<open>src/models/dag.py\<close>, \<^verbatim>\<open>src/platform/dag_engine.py\<close>): sorting into waves, the condition
    evaluator against the semantics of Python expressions, retries, shards and streams of a step,
    and runs over all schedules of a wave: dependencies first, the outcome, and termination.
  \<^item> \<open>Dag_Loader\<close> (\<^verbatim>\<open>src/platform/dag_loader.py\<close>) and \<open>Step_Executors\<close>
    (\<^verbatim>\<open>src/platform/step_executors.py\<close>): sources of definitions; attempts, waiting, and shards under a
    semaphore.

  \<^bold>\<open>Registries, schedules and machines.\<close>
  \<^item> \<open>Registry\<close>, \<open>Health_Registry\<close>, \<open>Cluster_Registry\<close> (\<^verbatim>\<open>src/platform/*_registry.py\<close>): the locale
    \<open>document_store\<close> with its interpretation, isolation of tenants, the life of an API key, health
    with debouncing, reservation and selection of nodes and clusters.
  \<^item> \<open>Cron_Scheduling\<close> (\<^verbatim>\<open>schedule_registry.py\<close>, \<^verbatim>\<open>cron_scheduler.py\<close>): due schedules and their firing.
  \<^item> \<open>Resource_Application\<close> (\<^verbatim>\<open>src/services/resource_application.py\<close>): the services for clusters,
    nodes, DAGs and schedules, and histories of schedules together with scheduler turns.
  \<^item> \<open>Node_Agent\<close> (\<^verbatim>\<open>src/agent/server.py\<close>) and \<open>Remote_Code\<close>
    (\<^verbatim>\<open>src/platform/remote_code_fetcher.py\<close>): ownership of a node, joining and leaving, deployment;
    verified and confined extraction of archives and the bounded cache.

  \<^bold>\<open>Workers and services around the platform.\<close>
  \<^item> \<open>Actor_Pool\<close>, \<open>Scheduler_Actor\<close> (\<^verbatim>\<open>src/workload/actor_pool_manager.py\<close>,
    \<^verbatim>\<open>scheduler_actor.py\<close>): selection, replacement and resizing of workers; routing to pools.
  \<^item> \<open>Command_Proxy\<close>, \<open>Service_Proxy\<close> (\<^verbatim>\<open>src/proxy\<close>, \<^verbatim>\<open>src/workload/async_proxy_worker.py\<close>): job
    threads against cancel handlers; a call from the worker to the backend and back.
  \<^item> \<open>Redis_HA\<close> (\<^verbatim>\<open>src/common/redis_ha.py\<close>): retries, breaker and the queue of degraded writes.
  \<^item> \<open>Rate_Limit\<close>, \<open>Api_Auth\<close>, \<open>Operator_Audit\<close>, \<open>Callback_Outbox\<close> (\<^verbatim>\<open>src/middleware\<close>,
    \<^verbatim>\<open>src/api\<close>, \<^verbatim>\<open>src/services\<close>): admission, authentication, audited force operations and replays,
    delivery from the outbox.
  \<^item> \<open>Lifecycle\<close> (\<^verbatim>\<open>src/common/lifecycle.py\<close>) and \<open>Alerts\<close> (\<^verbatim>\<open>src/monitoring/alerts.py\<close>): ordered
    shutdown; routing and sending of alerts.

  \<^bold>\<open>Bounds and fuel.\<close> Loops over data are structural recursion. Where a loop runs as long as its
  condition holds, one turn is a function and the loop a list of turns or a step relation with a
  decreasing measure. The replay of degraded writes in \<open>Redis_HA\<close> reads a list that grows while it
  is read; its fuel is a bound on the positions, and some fuel is proved to be enough. The client
  of the pages in \<open>Task_Application\<close> has a bound on its requests, and as many requests as there
  are tasks, and one more, are proved to be enough. Limits of the code (fifty callbacks a round,
  three replacements in 300 seconds, and so on) are the constants of the source.

  \<^bold>\<open>Simplifications.\<close> A Redis command does not fail except where a component handles its failure;
  keys do not expire by themselves except in the step relations that have an expiry step. Texts of
  log records and error messages are left out where no code reads them. Integers are Python's
  unbounded ones. Where the code deviates from what it says it does, the model follows the code and
  a lemma states the deviation.

  \<^bold>\<open>Not modelled.\<close> Entry points, containers and routes that only wire or pass on arguments; metrics,
  tracing, logging and settings; clients of Redis, HTTP and the database beyond their commands;
  health probes, and the endpoints that keep alerts, silences and acknowledgements; probes of
  hardware and of Ray; the command line, the SDK and the worker kits, which send requests or call
  user code; migrations and scripts. The split services under \<^verbatim>\<open>src/scheduler_*\<close> and the packages
  under \<^verbatim>\<open>packages\<close> repeat modelled code, in full or shortened, and are not modelled again. The
  manifest \<^verbatim>\<open>PROJECT.json\<close> lists every part with the reason; it maps each operation to its lines,
  and small helpers inside the lines of a mapped operation have no entry of their own.
\<close>

end
